(* ===== verification/Prelude.thy ===== *)
theory Prelude
  imports Main "HOL-Library.Word"
begin

unbundle bit_operations_syntax

text \<open>
  What the components of the development share: the machine integers of the Go code under
  names of their own, the big-endian accessors of \<open>encoding/binary\<close> that every wire format of
  the repository uses, and the generic lemmas on lists, maps and words. The collections
  declared here (\<open>wire_simps\<close>, \<open>step_defs\<close>) are filled by the components.
\<close>

named_theorems wire_simps "byte-level facts of the encoders and decoders"
named_theorems step_defs "definitions of the operations of a state machine"

section \<open>Machine integers\<close>

type_synonym byte = "8 word"
type_synonym u16 = "16 word"
type_synonym u32 = "32 word"
type_synonym bytes = "byte list"

text \<open>
  A Go \<open>int64\<close> addition wraps around in two's complement. A counter of that type is kept as an
  \<open>int\<close>, and \<open>to_int64\<close> is applied to the result of each addition.
\<close>

definition to_int64 :: "int \<Rightarrow> int" where
  "to_int64 i = (i + 2 ^ 63) mod 2 ^ 64 - 2 ^ 63"

lemma to_int64_id [simp]: "- (2 ^ 63) \<le> i \<Longrightarrow> i < 2 ^ 63 \<Longrightarrow> to_int64 i = i"
  by (simp add: to_int64_def)

lemma to_int64_wraps: "to_int64 (2 ^ 63) = - (2 ^ 63)"
  by (simp add: to_int64_def)

section \<open>Big-endian integers (encoding/binary)\<close>

definition put_u16 :: "u16 \<Rightarrow> bytes" where
  "put_u16 v = [ucast (drop_bit 8 v), ucast v]"

definition get_u16 :: "bytes \<Rightarrow> u16" where
  "get_u16 b = (push_bit 8 (ucast (b ! 0)) OR ucast (b ! 1))"

definition put_u32 :: "u32 \<Rightarrow> bytes" where
  "put_u32 v = [ucast (drop_bit 24 v), ucast (drop_bit 16 v), ucast (drop_bit 8 v), ucast v]"

definition get_u32 :: "bytes \<Rightarrow> u32" where
  "get_u32 b = (ucast (b ! 3) OR push_bit 8 (ucast (b ! 2)) OR push_bit 16 (ucast (b ! 1))
                OR push_bit 24 (ucast (b ! 0)))"

lemma length_put_u16 [simp]: "length (put_u16 v) = 2"
  by (simp add: put_u16_def)

lemma length_put_u32 [simp]: "length (put_u32 v) = 4"
  by (simp add: put_u32_def)

lemma get_put_u16 [simp]: "get_u16 (put_u16 v) = v"
  by (rule bit_word_eqI) (auto simp: get_u16_def put_u16_def bit_simps)

lemma get_put_u32 [simp]: "get_u32 (put_u32 v) = v"
proof (rule bit_word_eqI)
  fix n assume "n < LENGTH(32)"
  then consider "n < 8" | "8 \<le> n \<and> n < 16" | "16 \<le> n \<and> n < 24" | "24 \<le> n \<and> n < 32"
    by fastforce
  then show "bit (get_u32 (put_u32 v)) n = bit v n"
    by cases (auto simp: get_u32_def put_u32_def bit_simps)
qed

lemma put_get_u16: "put_u16 (get_u16 [a, b]) = [a, b]"
proof -
  have "ucast (drop_bit 8 (get_u16 [a, b])) = a"
    by (rule bit_word_eqI) (auto simp: get_u16_def bit_simps dest: bit_imp_le_length)
  moreover have "ucast (get_u16 [a, b]) = b"
    by (rule bit_word_eqI) (auto simp: get_u16_def bit_simps)
  ultimately show ?thesis by (simp add: put_u16_def)
qed

lemma put_get_u32: "put_u32 (get_u32 [a, b, c, d]) = [a, b, c, d]"
proof -
  have "ucast (drop_bit 24 (get_u32 [a, b, c, d])) = a"
    by (rule bit_word_eqI) (auto simp: get_u32_def bit_simps dest: bit_imp_le_length)
  moreover have "ucast (drop_bit 16 (get_u32 [a, b, c, d])) = b"
    by (rule bit_word_eqI) (auto simp: get_u32_def bit_simps dest: bit_imp_le_length)
  moreover have "ucast (drop_bit 8 (get_u32 [a, b, c, d])) = c"
    by (rule bit_word_eqI) (auto simp: get_u32_def bit_simps dest: bit_imp_le_length)
  moreover have "ucast (get_u32 [a, b, c, d]) = d"
    by (rule bit_word_eqI) (auto simp: get_u32_def bit_simps dest: bit_imp_le_length)
  ultimately show ?thesis by (simp add: put_u32_def)
qed

lemma length_2_conv: "length xs = 2 \<longleftrightarrow> (\<exists>a b. xs = [a, b])"
  by (auto simp: numeral_2_eq_2 length_Suc_conv)

lemma length_4_conv: "length xs = 4 \<longleftrightarrow> (\<exists>a b c d. xs = [a, b, c, d])"
  by (auto simp: eval_nat_numeral length_Suc_conv)

lemma put_get_u16_list: "length xs = 2 \<Longrightarrow> put_u16 (get_u16 xs) = xs"
  by (auto simp: length_2_conv put_get_u16)

lemma put_get_u32_list: "length xs = 4 \<Longrightarrow> put_u32 (get_u32 xs) = xs"
  by (auto simp: length_4_conv put_get_u32)

lemma put_u16_inj [simp]: "put_u16 v = put_u16 w \<longleftrightarrow> v = w"
  by (metis get_put_u16)

lemma put_u32_inj [simp]: "put_u32 v = put_u32 w \<longleftrightarrow> v = w"
  by (metis get_put_u32)

text \<open>The length of a slice cast to \<open>uint32\<close>, and back when it fits.\<close>

definition len32 :: "bytes \<Rightarrow> u32" where
  "len32 b = of_nat (length b)"

lemma unat_len32: "unat (len32 b) = length b mod 2 ^ 32"
  by (simp add: len32_def unat_of_nat)

lemma unat_len32_small [simp]: "length b < 2 ^ 32 \<Longrightarrow> unat (len32 b) = length b"
  by (simp add: unat_len32)

lemma unat_u32_bound: "unat (v :: u32) < 2 ^ 32"
  using unsigned_less [of v] by simp

lemma unat_byte_bound: "unat (v :: byte) < 256"
  using unsigned_less [of v, where ?'a = nat] by simp

lemma unat_u16_bound: "unat (v :: u16) < 65536"
  using unsigned_less [of v, where ?'a = nat] by simp

section \<open>Lists\<close>

lemma append_eq_take_drop: "xs = ys @ zs \<Longrightarrow> n = length ys \<Longrightarrow> take n xs = ys \<and> drop n xs = zs"
  by simp

lemma take_min_length: "take (min (length q) k) q = take k q"
  by (simp add: min_def)

lemma take_append_drop_take: "n \<le> m \<Longrightarrow> take n xs @ take (m - n) (drop n xs) = take m xs"
  by (metis le_add_diff_inverse take_add)

end
