(* ===== verification/Byte_IO.thy ===== *)
theory Byte_IO
  imports Prelude
begin

text \<open>
  The reads and writes of a connection. A Go \<open>Read(p)\<close> is a function of \<open>len(p)\<close> and the state
  of the reader; it returns the bytes copied into \<open>p\<close>, the error, and the new state. The two
  full-read loops of the program are modelled on such a reader: \<open>io.ReadFull\<close> of the standard
  library (used by mux and tunnel) and the repository's own \<open>readFull\<close> (tunnel/handshake.go and
  resolver/resolver.go). Neither loop ends when a reader returns no bytes and no error for ever,
  so they are partial functions whose value \<open>None\<close> is "does not return". The locale
  \<open>byte_reader\<close> is the contract under which they do return: the program's readers (a transport
  delivering arbitrary chunks here, the record layer, the packet reader) are its interpretations.
\<close>

section \<open>Readers and writers\<close>

datatype io_err =
    EOF
  | UnexpectedEOF
  | ConnErr
  | ErrRecordTooLarge nat
  | ErrRecordAuth
  | ErrHandshakeFailed

type_synonym 's reader = "nat \<Rightarrow> 's \<Rightarrow> bytes \<times> io_err option \<times> 's"
type_synonym 'w writer = "bytes \<Rightarrow> 'w \<Rightarrow> io_err option \<times> 'w"

text \<open>
  The loop of both full reads: it reads into the rest of the buffer until the buffer is full or
  a read fails, and returns what was read with the last error.
\<close>

partial_function (option) read_loop ::
  "'s reader \<Rightarrow> nat \<Rightarrow> bytes \<Rightarrow> 's \<Rightarrow> (bytes \<times> io_err option \<times> 's) option" where
  "read_loop rd need acc s =
     (if length acc < need
      then (case rd (need - length acc) s of (xs, e, s') \<Rightarrow>
              (if e = None then read_loop rd need (acc @ xs) s' else Some (acc @ xs, e, s')))
      else Some (acc, None, s))"

declare read_loop.simps [code]

text \<open>
  \<open>io.ReadFull\<close>: an error is dropped when the buffer was filled all the same, and an \<open>EOF\<close>
  after some bytes becomes \<open>ErrUnexpectedEOF\<close>.
\<close>

definition io_ReadFull :: "'s reader \<Rightarrow> nat \<Rightarrow> 's \<Rightarrow> ((io_err + bytes) \<times> 's) option" where
  "io_ReadFull rd n s =
     map_option (\<lambda>(xs, e, s').
       (case e of
          None \<Rightarrow> Inr xs
        | Some err \<Rightarrow>
            (if n \<le> length xs then Inr xs
             else if xs \<noteq> [] \<and> err = EOF then Inl UnexpectedEOF
             else Inl err), s')) (read_loop rd n [] s)"

text \<open>The repository's \<open>readFull\<close> returns the reader's error as it is.\<close>

definition readFull :: "'s reader \<Rightarrow> nat \<Rightarrow> 's \<Rightarrow> ((io_err + bytes) \<times> 's) option" where
  "readFull rd n s =
     map_option (\<lambda>(xs, e, s'). (case e of None \<Rightarrow> Inr xs | Some err \<Rightarrow> Inl err, s'))
       (read_loop rd n [] s)"

section \<open>The contract of a reader\<close>

text \<open>
  \<open>content s\<close> is what the reader will still deliver and \<open>at_end\<close> the error it then reports.
  Each read takes a prefix of the content that fits the buffer; a read that returns neither
  bytes nor an error must bring the reader closer to one (\<open>rank\<close>).
\<close>

locale byte_reader =
  fixes rd :: "'s reader"
    and content :: "'s \<Rightarrow> bytes"
    and rank :: "'s \<Rightarrow> nat"
    and good :: "'s \<Rightarrow> bool"
    and at_end :: io_err
  assumes rd_good: "good s \<Longrightarrow> 0 < n \<Longrightarrow> rd n s = (xs, e, s') \<Longrightarrow> good s'"
    and rd_content: "good s \<Longrightarrow> 0 < n \<Longrightarrow> rd n s = (xs, e, s') \<Longrightarrow> content s = xs @ content s'"
    and rd_fits: "good s \<Longrightarrow> 0 < n \<Longrightarrow> rd n s = (xs, e, s') \<Longrightarrow> length xs \<le> n"
    and rd_progress: "good s \<Longrightarrow> 0 < n \<Longrightarrow> rd n s = ([], None, s') \<Longrightarrow> rank s' < rank s"
    and rd_error: "good s \<Longrightarrow> 0 < n \<Longrightarrow> rd n s = (xs, Some err, s') \<Longrightarrow>
      err = at_end \<and> content s = []"
begin

lemma read_loop_result:
  assumes "good s" and "length acc \<le> need"
  shows "\<exists>e s'. read_loop rd need acc s = Some (acc @ take (need - length acc) (content s), e, s')
    \<and> good s' \<and> content s' = drop (need - length acc) (content s)
    \<and> e = (if need - length acc \<le> length (content s) then None else Some at_end)"
  using assms
proof (induction "(acc, s)" arbitrary: acc s
    rule: wf_induct_rule [OF wf_measures,
      of "[\<lambda>(acc, s). need - length acc, \<lambda>(acc, s). rank s]"])
  case 1
  show ?case
  proof (cases "length acc < need")
    case False
    with 1 show ?thesis by (simp add: read_loop.simps)
  next
    case True
    obtain xs e s' where rd: "rd (need - length acc) s = (xs, e, s')"
      by (metis prod_cases3)
    have pos: "0 < need - length acc" using True by simp
    note laws = rd_good [OF \<open>good s\<close> pos rd] rd_content [OF \<open>good s\<close> pos rd]
      rd_fits [OF \<open>good s\<close> pos rd]
    show ?thesis
    proof (cases e)
      case (Some err)
      with rd have "rd (need - length acc) s = (xs, Some err, s')" by simp
      from rd_error [OF \<open>good s\<close> pos this] have end_: "err = at_end" "content s = []" by auto
      with laws(2) Some True rd laws(1) show ?thesis
        by (simp add: read_loop.simps [of rd need acc s])
    next
      case None
      have less: "((acc @ xs, s'), (acc, s))
          \<in> measures [\<lambda>(acc, s). need - length acc, \<lambda>(acc, s). rank s]"
      proof (cases "xs = []")
        case True
        with rd None rd_progress [OF \<open>good s\<close> pos, of s'] show ?thesis by simp
      next
        case False
        with \<open>length acc < need\<close> show ?thesis by (cases xs) auto
      qed
      have fits: "length (acc @ xs) \<le> need" using laws(3) True by simp
      have ih: "\<exists>e s''. read_loop rd need (acc @ xs) s'
            = Some ((acc @ xs) @ take (need - length (acc @ xs)) (content s'), e, s'')
          \<and> good s'' \<and> content s'' = drop (need - length (acc @ xs)) (content s')
          \<and> e = (if need - length (acc @ xs) \<le> length (content s') then None else Some at_end)"
        using 1(1) [OF less] laws(1) fits by blast
      have step: "read_loop rd need acc s = read_loop rd need (acc @ xs) s'"
        using True rd None by (simp add: read_loop.simps [of rd need acc s])
      show ?thesis
        using ih laws(2,3) unfolding step
        by (auto simp: take_append drop_append)
    qed
  qed
qed

lemma read_loop_full:
  "good s \<Longrightarrow> n \<le> length (content s) \<Longrightarrow>
    \<exists>s'. read_loop rd n [] s = Some (take n (content s), None, s')
      \<and> good s' \<and> content s' = drop n (content s)"
  using read_loop_result [of s "[]" n] by simp

lemma read_loop_short:
  "good s \<Longrightarrow> length (content s) < n \<Longrightarrow>
    \<exists>s'. read_loop rd n [] s = Some (content s, Some at_end, s') \<and> good s' \<and> content s' = []"
  using read_loop_result [of s "[]" n] by simp

lemma io_ReadFull_full:
  "good s \<Longrightarrow> n \<le> length (content s) \<Longrightarrow>
    \<exists>s'. io_ReadFull rd n s = Some (Inr (take n (content s)), s')
      \<and> good s' \<and> content s' = drop n (content s)"
  by (drule (1) read_loop_full) (auto simp: io_ReadFull_def)

lemma io_ReadFull_short:
  "good s \<Longrightarrow> length (content s) < n \<Longrightarrow>
    \<exists>s'. io_ReadFull rd n s
        = Some (Inl (if content s \<noteq> [] \<and> at_end = EOF then UnexpectedEOF else at_end), s')
      \<and> good s' \<and> content s' = []"
  by (frule (1) read_loop_short) (auto simp: io_ReadFull_def)

lemma readFull_full:
  "good s \<Longrightarrow> n \<le> length (content s) \<Longrightarrow>
    \<exists>s'. readFull rd n s = Some (Inr (take n (content s)), s')
      \<and> good s' \<and> content s' = drop n (content s)"
  by (drule (1) read_loop_full) (auto simp: readFull_def)

lemma readFull_short:
  "good s \<Longrightarrow> length (content s) < n \<Longrightarrow>
    \<exists>s'. readFull rd n s = Some (Inl at_end, s') \<and> good s' \<and> content s' = []"
  by (drule (1) read_loop_short) (auto simp: readFull_def)

text \<open>Both full reads always return, and a success returns a prefix of the content.\<close>

lemma io_ReadFull_cases:
  assumes "good s"
  obtains (full) s' where "n \<le> length (content s)"
      "io_ReadFull rd n s = Some (Inr (take n (content s)), s')"
      "good s'" "content s' = drop n (content s)"
  | (short) e s' where "length (content s) < n" "io_ReadFull rd n s = Some (Inl e, s')"
      "good s'" "content s' = []"
proof (cases "n \<le> length (content s)")
  case True
  from io_ReadFull_full [OF assms this] show ?thesis using full True by blast
next
  case False
  then have "length (content s) < n" by simp
  from io_ReadFull_short [OF assms this] show ?thesis using short \<open>length (content s) < n\<close> by blast
qed

lemma io_ReadFull_ok:
  assumes "good s" and "io_ReadFull rd n s = Some (Inr p, s')"
  shows "length p = n \<and> good s' \<and> content s = p @ content s'"
  by (rule io_ReadFull_cases [OF assms(1), of n]) (use assms(2) in auto)

end

section \<open>A transport that delivers arbitrary chunks\<close>

text \<open>
  A \<open>net.Conn\<close> seen from its reading side: the byte stream arrives in chunks of any size (empty
  ones included), a read never crosses a chunk, and after the last chunk every read fails with
  \<open>err\<close>.
\<close>

type_synonym source = "bytes list"

fun src_read :: "io_err \<Rightarrow> source reader" where
  "src_read err n [] = ([], Some err, [])"
| "src_read err n (c # cs) =
     (if length c \<le> n then (c, None, cs) else (take n c, None, drop n c # cs))"

interpretation src: byte_reader "src_read err" concat length "\<lambda>_. True" err for err
proof unfold_locales
  fix s :: source and n xs e s'
  assume "0 < n" and rd: "src_read err n s = (xs, e, s')"
  show "concat s = xs @ concat s'" using rd by (cases s) (auto split: if_splits)
  show "length xs \<le> n" using rd by (cases s) (auto split: if_splits)
next
  fix s s' :: source and n
  assume "0 < n" and "src_read err n s = ([], None, s')"
  then show "length s' < length s" by (cases s) (auto split: if_splits)
next
  fix s s' :: source and n xs e
  assume "src_read err n s = (xs, Some e, s')"
  then show "e = err \<and> concat s = []" by (cases s) (auto split: if_splits)
qed simp

section \<open>The writing side of a connection\<close>

text \<open>
  What has been written so far, and whether the connection still takes writes. A failed write
  leaves the stream as it was.
\<close>

record wconn =
  wbytes :: bytes
  wok :: bool

definition conn_write :: "wconn writer" where
  "conn_write b c = (if wok c then (None, c\<lparr>wbytes := wbytes c @ b\<rparr>) else (Some ConnErr, c))"

lemma conn_write_ok [simp]: "wok c \<Longrightarrow> conn_write b c = (None, c\<lparr>wbytes := wbytes c @ b\<rparr>)"
  by (simp add: conn_write_def)

lemma conn_write_broken [simp]: "\<not> wok c \<Longrightarrow> conn_write b c = (Some ConnErr, c)"
  by (simp add: conn_write_def)

section \<open>The contract of a writer\<close>

text \<open>
  \<open>carries w p\<close>: the writer is working, and what it has taken so far is \<open>p\<close>. A write is then
  taken whole. The connection and the record layer over it are its interpretations.
\<close>

locale byte_writer =
  fixes wr :: "'w writer" and carries :: "'w \<Rightarrow> bytes \<Rightarrow> bool"
  assumes write_carries: "carries w p \<Longrightarrow> length b < 2 ^ 32 \<Longrightarrow>
    \<exists>w'. wr b w = (None, w') \<and> carries w' (p @ b)"

interpretation cw: byte_writer conn_write "\<lambda>c p. wok c \<and> wbytes c = p"
  by unfold_locales auto

end
