(* ===== verification/Frame.thy ===== *)
theory Frame
  imports Byte_IO
begin

unbundle bit_operations_syntax

text \<open>
  The TLMP frame codec, desktop/internal/mux/frame.go: the ten-byte header, \<open>WriteFrame\<close>,
  \<open>AppendFrame\<close>, \<open>ReadFrame\<close> and the structural rules of \<open>validateFrame\<close>. Errors are the
  sentinel errors of the package with the values their messages carry. The lemmas show what the
  encoder emits, that the decoder inverts it however the transport splits the bytes, and that
  whatever the decoder accepts is the encoding of the frame it returns.
\<close>

section \<open>Constants and errors\<close>

definition ProtocolVersion :: byte where "ProtocolVersion = 1"
definition HeaderSize :: nat where "HeaderSize = 10"

definition FlagSYN :: byte where "FlagSYN = 1"
definition FlagFIN :: byte where "FlagFIN = 2"
definition FlagRST :: byte where "FlagRST = 4"
definition FlagWIN :: byte where "FlagWIN = 8"
definition FlagDATA :: byte where "FlagDATA = 16"
definition FlagPING :: byte where "FlagPING = 32"
definition FlagPONG :: byte where "FlagPONG = 64"
definition FlagGOAWAY :: byte where "FlagGOAWAY = 128"

definition ReasonNormal :: byte where "ReasonNormal = 0"
definition ReasonProtocol :: byte where "ReasonProtocol = 1"
definition ReasonBusy :: byte where "ReasonBusy = 2"
definition ReasonDupStream :: byte where "ReasonDupStream = 2"

lemmas flag_defs = FlagSYN_def FlagFIN_def FlagRST_def FlagWIN_def FlagDATA_def FlagPING_def
  FlagPONG_def FlagGOAWAY_def

lemmas reason_defs = ReasonNormal_def ReasonProtocol_def ReasonBusy_def ReasonDupStream_def

datatype violation =
    SynWithData
  | ControlStreamID u32
  | WinPayload nat
  | RstPayload nat
  | GoawayPayload nat
  | UnknownFlags byte
  | UnhandledFlags byte
  | WindowExceeded u32

datatype target_fault =
    TruncatedHeader | BadNetwork byte | ShortIPv4 | ShortIPv6 | MissingFQDNLength | BadFQDN
  | BadATYP byte | FQDNLength nat

datatype mux_err =
    ErrVersion byte
  | ErrFrameTooLarge nat
  | ErrProtocol violation
  | ErrBadTarget target_fault
  | ErrSessionClosed
  | ErrStreamReset
  | ErrStreamWriteClosed
  | ErrIO io_err
  | ErrKeepaliveTimeout

section \<open>Frames\<close>

record frame =
  Version :: byte
  Flags :: byte
  StreamID :: u32
  Payload :: bytes

definition has_flag :: "frame \<Rightarrow> byte \<Rightarrow> bool" where
  "has_flag f b \<longleftrightarrow> Flags f AND b \<noteq> 0"

text \<open>The header of the three codec functions: version, flags, stream id, payload length.\<close>

definition frame_header :: "frame \<Rightarrow> bytes" where
  "frame_header f =
     [ProtocolVersion, Flags f] @ put_u32 (StreamID f) @ put_u32 (len32 (Payload f))"

definition WriteFrame :: "'w writer \<Rightarrow> frame \<Rightarrow> u32 \<Rightarrow> 'w \<Rightarrow> mux_err option \<times> 'w" where
  "WriteFrame wr f maxPayload w =
     (if Version f \<noteq> ProtocolVersion then (Some (ErrVersion (Version f)), w)
      else if len32 (Payload f) > maxPayload
      then (Some (ErrFrameTooLarge (length (Payload f))), w)
      else (case wr (frame_header f) w of
              (Some err, w') \<Rightarrow> (Some (ErrIO err), w')
            | (None, w') \<Rightarrow>
                (if length (Payload f) > 0
                 then (case wr (Payload f) w' of (e, w'') \<Rightarrow> (map_option ErrIO e, w''))
                 else (None, w'))))"

definition AppendFrame :: "bytes \<Rightarrow> frame \<Rightarrow> u32 \<Rightarrow> bytes \<times> mux_err option" where
  "AppendFrame dst f maxPayload =
     (if Version f \<noteq> ProtocolVersion then (dst, Some (ErrVersion (Version f)))
      else if len32 (Payload f) > maxPayload
      then (dst, Some (ErrFrameTooLarge (length (Payload f))))
      else ((dst @ frame_header f) @ Payload f, None))"

text \<open>The structural rules, in the order of the code.\<close>

definition validateFrame :: "frame \<Rightarrow> mux_err option" where
  "validateFrame f =
     (if has_flag f FlagSYN \<and> has_flag f FlagDATA then Some (ErrProtocol SynWithData)
      else if has_flag f (FlagPING OR FlagPONG OR FlagGOAWAY) \<and> StreamID f \<noteq> 0
      then Some (ErrProtocol (ControlStreamID (StreamID f)))
      else if has_flag f FlagWIN \<and> length (Payload f) \<noteq> 4
      then Some (ErrProtocol (WinPayload (length (Payload f))))
      else if has_flag f FlagRST \<and> length (Payload f) \<noteq> 1
      then Some (ErrProtocol (RstPayload (length (Payload f))))
      else if has_flag f FlagGOAWAY \<and> length (Payload f) \<noteq> 1
      then Some (ErrProtocol (GoawayPayload (length (Payload f))))
      else if Flags f AND NOT (FlagSYN OR FlagFIN OR FlagRST OR FlagWIN OR FlagDATA OR FlagPING
                               OR FlagPONG OR FlagGOAWAY) \<noteq> 0
      then Some (ErrProtocol (UnknownFlags (Flags f)))
      else None)"

text \<open>
  \<open>ReadFrame\<close> on any reader. \<open>None\<close> is "does not return": the reader gives neither bytes nor an
  error for ever.
\<close>

definition ReadFrame :: "'s reader \<Rightarrow> u32 \<Rightarrow> 's \<Rightarrow> ((mux_err + frame) \<times> 's) option" where
  "ReadFrame rd maxPayload s =
     (case io_ReadFull rd HeaderSize s of
        None \<Rightarrow> None
      | Some (Inl err, s1) \<Rightarrow> Some (Inl (ErrIO err), s1)
      | Some (Inr hdr, s1) \<Rightarrow>
          (if hdr ! 0 \<noteq> ProtocolVersion then Some (Inl (ErrVersion (hdr ! 0)), s1)
           else
             (let f = \<lparr>Version = hdr ! 0, Flags = hdr ! 1,
                       StreamID = get_u32 (take 4 (drop 2 hdr)), Payload = []\<rparr>;
                  size = get_u32 (take 4 (drop 6 hdr))
              in
                if size > maxPayload then Some (Inl (ErrFrameTooLarge (unat size)), s1)
                else if size > 0
                then (case io_ReadFull rd (unat size) s1 of
                        None \<Rightarrow> None
                      | Some (Inl err, s2) \<Rightarrow> Some (Inl (ErrIO err), s2)
                      | Some (Inr p, s2) \<Rightarrow>
                          (case validateFrame (f\<lparr>Payload := p\<rparr>) of
                             Some err \<Rightarrow> Some (Inl err, s2)
                           | None \<Rightarrow> Some (Inr (f\<lparr>Payload := p\<rparr>), s2)))
                else (case validateFrame f of
                        Some err \<Rightarrow> Some (Inl err, s1)
                      | None \<Rightarrow> Some (Inr f, s1)))))"

section \<open>What the encoder emits\<close>

text \<open>The encoding of a frame, and the frames a session may put on the wire.\<close>

definition encode_frame :: "frame \<Rightarrow> bytes" where
  "encode_frame f = frame_header f @ Payload f"

definition sendable :: "u32 \<Rightarrow> frame \<Rightarrow> bool" where
  "sendable m f \<longleftrightarrow> Version f = ProtocolVersion \<and> length (Payload f) \<le> unat m"

definition wellformed :: "u32 \<Rightarrow> frame \<Rightarrow> bool" where
  "wellformed m f \<longleftrightarrow> sendable m f \<and> validateFrame f = None"

lemma length_frame_header [simp]: "length (frame_header f) = HeaderSize"
  by (simp add: frame_header_def HeaderSize_def)

lemma length_encode_frame [simp]: "length (encode_frame f) = HeaderSize + length (Payload f)"
  by (simp add: encode_frame_def)

lemma sendable_length: "sendable m f \<Longrightarrow> length (Payload f) < 2 ^ 32"
  using unat_u32_bound [of m] by (simp add: sendable_def)

lemma sendable_len32: "sendable m f \<Longrightarrow> len32 (Payload f) \<le> m"
  by (frule sendable_length) (simp add: word_le_nat_alt sendable_def)

lemma len32_le_iff: "length b < 2 ^ 32 \<Longrightarrow> len32 b \<le> m \<longleftrightarrow> length b \<le> unat m"
  by (simp add: word_le_nat_alt)

lemma AppendFrame_sendable [simp]:
  "sendable m f \<Longrightarrow> AppendFrame dst f m = (dst @ encode_frame f, None)"
  by (frule sendable_len32) (simp add: AppendFrame_def sendable_def encode_frame_def linorder_not_less)

lemma conn_WriteFrame [simp]:
  assumes "wok c" and "sendable m f"
  shows "WriteFrame conn_write f m c = (None, c\<lparr>wbytes := wbytes c @ encode_frame f\<rparr>)"
  using assms sendable_len32 [OF assms(2)]
  by (cases "Payload f") (simp_all add: WriteFrame_def sendable_def encode_frame_def linorder_not_less)

lemma conn_WriteFrame_broken:
  "\<not> wok c \<Longrightarrow> sendable m f \<Longrightarrow> WriteFrame conn_write f m c = (Some (ErrIO ConnErr), c)"
  by (frule sendable_len32) (simp add: WriteFrame_def sendable_def linorder_not_less)

lemma conn_WriteFrame_rejected:
  assumes "length (Payload f) < 2 ^ 32" and "\<not> sendable m f"
  shows "\<exists>e. WriteFrame conn_write f m c = (Some e, c)"
  using assms len32_le_iff [OF assms(1), of m]
  by (auto simp: WriteFrame_def sendable_def linorder_not_le)

lemma conn_WriteFrame_cases:
  assumes "length (Payload f) < 2 ^ 32"
  obtains (written) "wok c" "sendable m f"
      "WriteFrame conn_write f m c = (None, c\<lparr>wbytes := wbytes c @ encode_frame f\<rparr>)"
  | (failed) e where "WriteFrame conn_write f m c = (Some e, c)" "\<not> (wok c \<and> sendable m f)"
proof (cases "sendable m f")
  case False
  from conn_WriteFrame_rejected [OF assms False, of c] show ?thesis using failed False by blast
next
  case True
  show ?thesis
  proof (cases "wok c")
    case True
    then show ?thesis using written \<open>sendable m f\<close> by simp
  next
    case False
    then show ?thesis using failed conn_WriteFrame_broken [OF False \<open>sendable m f\<close>] by blast
  qed
qed

lemma WriteFrame_AppendFrame:
  assumes "wok c"
  shows "(case AppendFrame (wbytes c) f m of
            (b, e) \<Rightarrow> WriteFrame conn_write f m c = (e, c\<lparr>wbytes := b\<rparr>))"
  using assms by (cases "Payload f") (auto simp: AppendFrame_def WriteFrame_def)

section \<open>The header fields\<close>

lemma frame_header_fields [wire_simps]:
  "frame_header f ! 0 = ProtocolVersion"
  "frame_header f ! Suc 0 = Flags f"
  "get_u32 (take 4 (drop 2 (frame_header f))) = StreamID f"
  "get_u32 (take 4 (drop 6 (frame_header f))) = len32 (Payload f)"
  by (simp_all add: frame_header_def)

lemma length_10_conv:
  "length xs = 10 \<longleftrightarrow> (\<exists>a b c d e f g h i j. xs = [a, b, c, d, e, f, g, h, i, j])"
  by (auto simp: eval_nat_numeral length_Suc_conv)

lemma header_rebuild:
  assumes "length hdr = HeaderSize" and "hdr ! 0 = ProtocolVersion"
  shows "hdr = [ProtocolVersion, hdr ! 1] @ put_u32 (get_u32 (take 4 (drop 2 hdr)))
               @ put_u32 (get_u32 (take 4 (drop 6 hdr)))"
  using assms by (auto simp: HeaderSize_def length_10_conv put_get_u32)

section \<open>The decoder\<close>

context byte_reader
begin

text \<open>The decoder returns, and reads exactly one frame, whenever the content starts with one.\<close>

lemma ReadFrame_encoded:
  assumes "good s" and "content s = encode_frame f @ rest" and "wellformed m f"
  shows "\<exists>s'. ReadFrame rd m s = Some (Inr f, s') \<and> good s' \<and> content s' = rest"
proof -
  from assms(3) have send: "sendable m f" and val: "validateFrame f = None"
    by (simp_all add: wellformed_def)
  have "HeaderSize \<le> length (content s)" using assms(2) by simp
  from io_ReadFull_full [OF assms(1) this] assms(2) obtain s1 where
    s1: "io_ReadFull rd HeaderSize s = Some (Inr (frame_header f), s1)" "good s1"
      "content s1 = Payload f @ rest"
    by (auto simp: encode_frame_def)
  have size: "\<not> m < len32 (Payload f)" using sendable_len32 [OF send] by (simp add: linorder_not_less)
  have f: "\<lparr>Version = ProtocolVersion, Flags = Flags f, StreamID = StreamID f, Payload = p\<rparr>
      = f\<lparr>Payload := p\<rparr>" for p
    using send by (simp add: sendable_def)
  show ?thesis
  proof (cases "Payload f = []")
    case True
    then have "\<not> 0 < len32 (Payload f)" by (simp add: len32_def)
    moreover have "\<lparr>Version = ProtocolVersion, Flags = Flags f, StreamID = StreamID f, Payload = []\<rparr> = f"
      using True send by (cases f) (simp add: sendable_def)
    ultimately show ?thesis using s1 size val True
      by (simp add: ReadFrame_def wire_simps Let_def)
  next
    case False
    then have pos: "0 < len32 (Payload f)"
      using sendable_length [OF send] by (simp add: word_less_nat_alt)
    have "unat (len32 (Payload f)) = length (Payload f)"
      using sendable_length [OF send] by simp
    with io_ReadFull_full [OF s1(2), of "length (Payload f)"] s1(3) obtain s2 where
      "io_ReadFull rd (unat (len32 (Payload f))) s1 = Some (Inr (Payload f), s2)"
      "good s2" "content s2 = rest"
      by auto
    with s1(1) size pos val show ?thesis
      by (auto simp: ReadFrame_def wire_simps f Let_def)
  qed
qed

text \<open>Whatever it accepts is well formed, and the bytes it took are its encoding.\<close>

lemma ReadFrame_accepts:
  assumes "good s" and "ReadFrame rd m s = Some (Inr f, s')"
  shows "wellformed m f \<and> good s' \<and> content s = encode_frame f @ content s'"
proof (rule io_ReadFull_cases [OF assms(1), of HeaderSize])
  fix e s1
  assume "io_ReadFull rd HeaderSize s = Some (Inl e, s1)"
  with assms(2) show ?thesis by (simp add: ReadFrame_def)
next
  fix s1
  assume len: "HeaderSize \<le> length (content s)"
    and r1: "io_ReadFull rd HeaderSize s = Some (Inr (take HeaderSize (content s)), s1)"
    and s1: "good s1" "content s1 = drop HeaderSize (content s)"
  define hdr where "hdr = take HeaderSize (content s)"
  have lenh: "length hdr = HeaderSize" using len by (simp add: hdr_def)
  have cont: "content s = hdr @ content s1" by (simp add: hdr_def s1)
  define size where "size = get_u32 (take 4 (drop 6 hdr))"
  define f0 where "f0 = \<lparr>Version = ProtocolVersion, Flags = hdr ! Suc 0,
      StreamID = get_u32 (take 4 (drop 2 hdr)), Payload = []\<rparr>"
  have ver: "hdr ! 0 = ProtocolVersion" using assms(2) r1
    by (simp add: ReadFrame_def hdr_def [symmetric] split: if_splits)
  have "\<not> m < size" using assms(2) r1
    by (simp add: ReadFrame_def hdr_def [symmetric] size_def Let_def split: if_splits)
  then have max: "size \<le> m" by simp
  note hdr = header_rebuild [OF lenh ver, folded size_def]
  show ?thesis
  proof (cases "size > 0")
    case False
    then have "size = 0" by (simp add: word_gt_0)
    then have f: "f = f0" "s' = s1" and val: "validateFrame f = None"
      using assms(2) r1 ver max
      by (auto simp: ReadFrame_def hdr_def [symmetric] size_def [symmetric] Let_def
          f0_def split: option.splits)
    have "frame_header f = hdr"
      using hdr \<open>size = 0\<close> ver by (simp add: frame_header_def f f0_def len32_def)
    with val s1 cont ver show ?thesis
      by (simp add: wellformed_def sendable_def encode_frame_def f f0_def)
  next
    case True
    have "(case io_ReadFull rd (unat size) s1 of
              None \<Rightarrow> None
            | Some (Inl err, s2) \<Rightarrow> Some (Inl (ErrIO err), s2)
            | Some (Inr p, s2) \<Rightarrow>
                (case validateFrame (f0\<lparr>Payload := p\<rparr>) of
                   Some err \<Rightarrow> Some (Inl err, s2)
                 | None \<Rightarrow> Some (Inr (f0\<lparr>Payload := p\<rparr>), s2))) = Some (Inr f, s')"
      using assms(2) r1 ver True \<open>\<not> m < size\<close> unfolding f0_def
      by (simp add: ReadFrame_def hdr_def [symmetric] size_def [symmetric] Let_def)
    then obtain p s2 where r2: "io_ReadFull rd (unat size) s1 = Some (Inr p, s2)"
      and f: "f = f0\<lparr>Payload := p\<rparr>" "s' = s2" and val: "validateFrame f = None"
      by (auto split: option.splits sum.splits)
    from r2 have p: "length p = unat size" "good s2" "content s1 = p @ content s2"
      using io_ReadFull_ok [OF s1(1)] by blast+
    have len: "length p < 2 ^ 32" using p(1) unat_u32_bound [of size] by simp
    then have "len32 p = size" using p(1) by (simp add: word_unat_eq_iff)
    then have "frame_header f = hdr"
      using hdr ver by (simp add: frame_header_def f f0_def)
    moreover have "length p \<le> unat m" using max p(1) by (simp add: word_le_nat_alt)
    ultimately show ?thesis using val p cont ver
      by (simp add: wellformed_def sendable_def encode_frame_def f f0_def)
  qed
qed

text \<open>It always returns.\<close>

lemma ReadFrame_returns:
  assumes "good s"
  shows "\<exists>r s'. ReadFrame rd m s = Some (r, s') \<and> good s'"
proof (rule io_ReadFull_cases [OF assms, of HeaderSize])
  fix s1 assume r1: "io_ReadFull rd HeaderSize s = Some (Inr (take HeaderSize (content s)), s1)"
    and s1: "good s1"
  define size where "size = get_u32 (take 4 (drop 6 (take HeaderSize (content s))))"
  show ?thesis
    by (rule io_ReadFull_cases [OF s1, of "unat size"])
      (auto simp: ReadFrame_def r1 Let_def size_def s1 split: option.split)
qed (auto simp: ReadFrame_def)

end

section \<open>Frames through a writer\<close>

context byte_writer
begin

lemma WriteFrame_carries:
  assumes "carries w p" and "sendable m f"
  shows "\<exists>w'. WriteFrame wr f m w = (None, w') \<and> carries w' (p @ encode_frame f)"
proof -
  have len: "length (frame_header f) < 2 ^ 32" by (simp add: HeaderSize_def)
  have ok: "Version f = ProtocolVersion" "\<not> m < len32 (Payload f)"
    using assms(2) sendable_len32 [OF assms(2)] by (auto simp: sendable_def linorder_not_less)
  from write_carries [OF assms(1) len] obtain w1 where
    w1: "wr (frame_header f) w = (None, w1)" "carries w1 (p @ frame_header f)" by blast
  show ?thesis
  proof (cases "Payload f = []")
    case True
    with w1 ok show ?thesis by (simp add: WriteFrame_def encode_frame_def)
  next
    case False
    from write_carries [OF w1(2) sendable_length [OF assms(2)]] False w1 ok show ?thesis
      by (auto simp: WriteFrame_def encode_frame_def)
  qed
qed

end

text \<open>Frames written one after the other, up to the first error, and read back.\<close>

fun write_frames :: "'w writer \<Rightarrow> u32 \<Rightarrow> frame list \<Rightarrow> 'w \<Rightarrow> mux_err option \<times> 'w" where
  "write_frames wr m [] w = (None, w)"
| "write_frames wr m (f # fs) w =
     (case WriteFrame wr f m w of
        (Some err, w') \<Rightarrow> (Some err, w')
      | (None, w') \<Rightarrow> write_frames wr m fs w')"

fun read_frames :: "'s reader \<Rightarrow> u32 \<Rightarrow> nat \<Rightarrow> 's \<Rightarrow> (frame list \<times> 's) option" where
  "read_frames rd m 0 s = Some ([], s)"
| "read_frames rd m (Suc n) s =
     (case ReadFrame rd m s of
        Some (Inr f, s') \<Rightarrow> map_option (\<lambda>(fs, u). (f # fs, u)) (read_frames rd m n s')
      | _ \<Rightarrow> None)"

lemma wellformed_mono: "wellformed m f \<Longrightarrow> m \<le> m' \<Longrightarrow> wellformed m' f"
  by (auto simp: wellformed_def sendable_def word_le_nat_alt)

context byte_writer
begin

lemma write_frames_carries:
  "carries w p \<Longrightarrow> \<forall>f\<in>set fs. sendable m f \<Longrightarrow>
    \<exists>w'. write_frames wr m fs w = (None, w') \<and> carries w' (p @ concat (map encode_frame fs))"
proof (induction fs arbitrary: w p)
  case (Cons f fs)
  from WriteFrame_carries [OF Cons.prems(1), of m f] Cons.prems(2) obtain w1 where
    w1: "WriteFrame wr f m w = (None, w1)" "carries w1 (p @ encode_frame f)" by auto
  with Cons.IH [OF w1(2)] Cons.prems(2) show ?case by auto
qed auto

end

context byte_reader
begin

lemma read_frames_encoded:
  "good s \<Longrightarrow> content s = concat (map encode_frame fs) \<Longrightarrow> \<forall>f\<in>set fs. wellformed m f \<Longrightarrow>
    \<exists>s'. read_frames rd m (length fs) s = Some (fs, s') \<and> content s' = []"
proof (induction fs arbitrary: s)
  case (Cons f fs)
  from ReadFrame_encoded [OF Cons.prems(1), of f "concat (map encode_frame fs)" m] Cons.prems
  obtain s1 where "ReadFrame rd m s = Some (Inr f, s1)" "good s1"
      "content s1 = concat (map encode_frame fs)"
    by auto
  with Cons.IH [of s1] Cons.prems(3) show ?case by auto
qed simp

end

end
