(* ===== verification/Target_Block.thy ===== *)
theory Target_Block
  imports Frame
begin

unbundle bit_operations_syntax

text \<open>
  The address block of a SYN frame, desktop/internal/mux/target.go: the \<open>Target\<close> record, its
  constructors, \<open>AppendTarget\<close> and \<open>ParseTarget\<close>. The string rendering of a target
  (\<open>Target.String\<close>, for logs) is not modelled.
\<close>

definition NetTCP :: byte where "NetTCP = 1"
definition NetUDP :: byte where "NetUDP = 2"
definition ATYPIPv4 :: byte where "ATYPIPv4 = 1"
definition ATYPFQDN :: byte where "ATYPFQDN = 3"
definition ATYPIPv6 :: byte where "ATYPIPv6 = 4"
definition MaxFQDNLength :: nat where "MaxFQDNLength = 255"

lemmas target_consts = NetTCP_def NetUDP_def ATYPIPv4_def ATYPFQDN_def ATYPIPv6_def
  MaxFQDNLength_def

record target =
  Network :: byte
  ATYP :: byte
  Address :: bytes
  Port :: u16

definition TCPv4 :: "bytes \<Rightarrow> u16 \<Rightarrow> target" where
  "TCPv4 ip port = \<lparr>Network = NetTCP, ATYP = ATYPIPv4, Address = ip, Port = port\<rparr>"

definition TCPFQDN :: "bytes \<Rightarrow> u16 \<Rightarrow> mux_err + target" where
  "TCPFQDN host port =
     (if length host = 0 \<or> length host > MaxFQDNLength
      then Inl (ErrBadTarget (FQDNLength (length host)))
      else Inr \<lparr>Network = NetTCP, ATYP = ATYPFQDN, Address = host, Port = port\<rparr>)"

text \<open>
  \<open>be16\<close> reads two bytes; \<open>AppendTarget\<close> writes the port byte by byte, which is \<open>put_u16\<close>. An
  address type that is none of the three writes no address at all.
\<close>

definition be16 :: "bytes \<Rightarrow> u16" where
  "be16 b = (push_bit 8 (ucast (b ! 0)) OR ucast (b ! 1))"

definition AppendTarget :: "bytes \<Rightarrow> target \<Rightarrow> bytes" where
  "AppendTarget dst t =
     dst @ [Network t, ATYP t] @
     (if ATYP t = ATYPFQDN then (of_nat (length (Address t)) :: byte) # Address t
      else if ATYP t = ATYPIPv4 \<or> ATYP t = ATYPIPv6 then Address t
      else []) @
     [ucast (drop_bit 8 (Port t)), ucast (Port t)]"

definition ParseTarget :: "bytes \<Rightarrow> mux_err + target" where
  "ParseTarget b =
     (if length b < 4 then Inl (ErrBadTarget TruncatedHeader)
      else if b ! 0 \<noteq> NetTCP \<and> b ! 0 \<noteq> NetUDP then Inl (ErrBadTarget (BadNetwork (b ! 0)))
      else
        (let t = \<lparr>Network = b ! 0, ATYP = b ! 1, Address = [], Port = 0\<rparr>; rest = drop 2 b in
         if ATYP t = ATYPIPv4 then
           (if length rest < 6 then Inl (ErrBadTarget ShortIPv4)
            else Inr (t\<lparr>Address := take 4 rest, Port := be16 (take 2 (drop 4 rest))\<rparr>))
         else if ATYP t = ATYPIPv6 then
           (if length rest < 18 then Inl (ErrBadTarget ShortIPv6)
            else Inr (t\<lparr>Address := take 16 rest, Port := be16 (take 2 (drop 16 rest))\<rparr>))
         else if ATYP t = ATYPFQDN then
           (if length rest < 1 then Inl (ErrBadTarget MissingFQDNLength)
            else
              (let n = unat (rest ! 0) in
               if n = 0 \<or> length rest < 1 + n + 2 then Inl (ErrBadTarget BadFQDN)
               else Inr (t\<lparr>Address := take n (drop 1 rest),
                           Port := be16 (take 2 (drop (1 + n) rest))\<rparr>)))
         else Inl (ErrBadTarget (BadATYP (ATYP t)))))"

text \<open>The targets whose address has the length its type calls for.\<close>

definition valid_target :: "target \<Rightarrow> bool" where
  "valid_target t \<longleftrightarrow>
     (Network t = NetTCP \<or> Network t = NetUDP) \<and>
     (ATYP t = ATYPIPv4 \<and> length (Address t) = 4 \<or>
      ATYP t = ATYPIPv6 \<and> length (Address t) = 16 \<or>
      ATYP t = ATYPFQDN \<and> 0 < length (Address t) \<and> length (Address t) \<le> MaxFQDNLength)"

lemma be16_get: "be16 = get_u16"
  by (simp add: fun_eq_iff be16_def get_u16_def)

lemma be16_put [simp]: "be16 [ucast (drop_bit 8 p), ucast (p :: u16)] = p"
  using get_put_u16 [of p] by (simp add: be16_get put_u16_def)

lemma put_be16:
  "length b = 2 \<Longrightarrow> [ucast (drop_bit 8 (be16 b)), ucast (be16 b)] = b"
  using put_get_u16_list [of b] by (simp add: be16_get put_u16_def)

lemma put_be16_Cons:
  "length b = 2 \<Longrightarrow> ucast (drop_bit 8 (be16 b)) # ucast (be16 b) # zs = b @ zs"
  using put_be16 [of b] by (metis append_Cons append_Nil)

lemma valid_target_cases:
  assumes "valid_target t"
  obtains (ipv4) "ATYP t = ATYPIPv4" "length (Address t) = 4"
  | (ipv6) "ATYP t = ATYPIPv6" "length (Address t) = 16"
  | (fqdn) "ATYP t = ATYPFQDN" "0 < length (Address t)" "length (Address t) \<le> 255"
  using assms by (auto simp: valid_target_def MaxFQDNLength_def)

lemma unat_of_nat_byte: "n \<le> 255 \<Longrightarrow> unat (of_nat n :: byte) = n"
  by (simp add: unat_of_nat)

text \<open>The parser inverts the encoder, and ignores whatever follows the block.\<close>

lemma Parse_AppendTarget:
  assumes "valid_target t"
  shows "ParseTarget (AppendTarget [] t @ rest) = Inr t"
proof -
  from assms have net: "Network t = NetTCP \<or> Network t = NetUDP" by (simp add: valid_target_def)
  from assms show ?thesis
  proof (cases rule: valid_target_cases)
    case ipv4
    with net show ?thesis
      by (simp add: ParseTarget_def AppendTarget_def target_consts Let_def)
  next
    case ipv6
    with net show ?thesis
      by (simp add: ParseTarget_def AppendTarget_def target_consts Let_def)
  next
    case fqdn
    with net show ?thesis
      by (simp add: ParseTarget_def AppendTarget_def target_consts Let_def unat_of_nat_byte)
  qed
qed

lemma TCPFQDN_valid: "TCPFQDN host port = Inr t \<Longrightarrow> valid_target t"
  by (auto simp: TCPFQDN_def valid_target_def target_consts split: if_splits)

lemma TCPv4_valid: "length ip = 4 \<Longrightarrow> valid_target (TCPv4 ip port)"
  by (simp add: TCPv4_def valid_target_def target_consts)

text \<open>What the parser accepts is a valid target, and the block is its encoding.\<close>

lemma list_split_2: "2 \<le> length b \<Longrightarrow> b = [b ! 0, b ! 1] @ drop 2 b"
  by (cases b; cases "tl b") auto

lemma ParseTarget_accepts:
  assumes "ParseTarget b = Inr t"
  shows "valid_target t \<and> (\<exists>rest. b = AppendTarget [] t @ rest)"
proof -
  define rest where "rest = drop 2 b"
  have len: "4 \<le> length b" and net: "b ! 0 = NetTCP \<or> b ! 0 = NetUDP"
    using assms by (auto simp: ParseTarget_def split: if_splits)
  have b: "b = [b ! 0, b ! 1] @ rest" using list_split_2 [of b] len by (simp add: rest_def)
  have tail: "take n xs @ take 2 (drop n xs) @ drop (n + 2) xs = xs" for n and xs :: bytes
    by (metis append_take_drop_id drop_drop add.commute)
  consider (v4) "b ! 1 = ATYPIPv4" | (v6) "b ! 1 = ATYPIPv6" | (name) "b ! 1 = ATYPFQDN"
    using assms len net unfolding ParseTarget_def Let_def by (simp split: if_splits)
  then show ?thesis
  proof cases
    case v4
    with assms len net have l: "6 \<le> length rest"
      and t: "t = \<lparr>Network = b ! 0, ATYP = ATYPIPv4, Address = take 4 rest,
                   Port = be16 (take 2 (drop 4 rest))\<rparr>"
      by (auto simp: ParseTarget_def Let_def rest_def split: if_splits)
    have "AppendTarget [] t @ drop 6 rest = [b ! 0, b ! 1] @ rest"
      using v4 l tail [of 4 rest] by (simp add: AppendTarget_def t put_be16 target_consts)
    then have "b = AppendTarget [] t @ drop 6 rest" using b by argo
    moreover have "valid_target t" using net l by (simp add: valid_target_def t target_consts)
    ultimately show ?thesis by blast
  next
    case v6
    with assms len net have l: "18 \<le> length rest"
      and t: "t = \<lparr>Network = b ! 0, ATYP = ATYPIPv6, Address = take 16 rest,
                   Port = be16 (take 2 (drop 16 rest))\<rparr>"
      by (auto simp: ParseTarget_def Let_def rest_def target_consts split: if_splits)
    have "AppendTarget [] t @ drop 18 rest = [b ! 0, b ! 1] @ rest"
      using v6 l tail [of 16 rest] by (simp add: AppendTarget_def t put_be16 target_consts)
    then have "b = AppendTarget [] t @ drop 18 rest" using b by argo
    moreover have "valid_target t" using net l by (simp add: valid_target_def t target_consts)
    ultimately show ?thesis by blast
  next
    case name
    define n where "n = unat (rest ! 0)"
    from name assms len net have l: "0 < n" "3 + n \<le> length rest"
      and t: "t = \<lparr>Network = b ! 0, ATYP = ATYPFQDN, Address = take n (drop 1 rest),
                   Port = be16 (take 2 (drop (1 + n) rest))\<rparr>"
      by (auto simp: ParseTarget_def Let_def rest_def n_def target_consts split: if_splits)
    have n: "n \<le> 255" using unat_byte_bound [of "rest ! 0"] by (simp add: n_def)
    have hd: "rest = rest ! 0 # drop 1 rest" using l by (cases rest) auto
    have "(of_nat n :: byte) = rest ! 0" by (simp add: n_def)
    moreover have "take n (drop 1 rest) @ take 2 (drop (1 + n) rest) @ drop (3 + n) rest = drop 1 rest"
      using tail [of n "drop 1 rest"] by (simp add: numeral_3_eq_3 add.commute)
    ultimately have "AppendTarget [] t @ drop (3 + n) rest = [b ! 0, b ! 1] @ rest ! 0 # drop 1 rest"
      using name l put_be16_Cons [of "take 2 (drop (1 + n) rest)"]
      by (simp add: AppendTarget_def t target_consts min_absorb1 min_absorb2 le_diff_conv2)
    then have "b = AppendTarget [] t @ drop (3 + n) rest" using b hd by argo
    moreover have "valid_target t" using net l n by (simp add: valid_target_def t target_consts)
    ultimately show ?thesis by blast
  qed
qed

text \<open>
  An FQDN target built without the constructor may be longer than the length byte can say: the
  encoder then writes the length modulo 256.
\<close>

lemma AppendTarget_long_fqdn:
  "ATYP t = ATYPFQDN \<Longrightarrow> AppendTarget [] t ! 2 = of_nat (length (Address t) mod 256)"
  by (simp add: AppendTarget_def target_consts word_unat_eq_iff unat_of_nat)

lemma length_AppendTarget:
  "valid_target t \<Longrightarrow> length (AppendTarget [] t) \<le> 260"
  by (erule valid_target_cases) (auto simp: AppendTarget_def target_consts)

end
