(* ===== verification/Stream.thy ===== *)
theory Stream
  imports Target_Block
begin

text \<open>
  One multiplexed channel, desktop/internal/mux/stream.go. A stream is a record of the fields
  its mutex protects; each method's critical section is a function on it. What a method does
  after unlocking (writing a frame, retiring the stream) is in theory Session. \<open>cond.Wait\<close> is
  the outcome \<open>ReadBlock\<close> or \<open>WriteBlock\<close>: the caller sleeps until another operation
  broadcasts, and then runs the critical section again on the changed stream.
\<close>

record stream =
  sid :: u32
  Target :: target
  buf :: bytes
  sendWin :: int
  recvUnacked :: u32
  finRecv :: bool
  finSent :: bool
  reset :: bool
  sclosed :: bool

definition newStream :: "u32 \<Rightarrow> target \<Rightarrow> int \<Rightarrow> stream" where
  "newStream i t window =
     \<lparr>sid = i, Target = t, buf = [], sendWin = window, recvUnacked = 0, finRecv = False,
      finSent = False, reset = False, sclosed = False\<rparr>"

section \<open>Read\<close>

datatype read_out = ReadBlock | ReadErr mux_err | ReadData bytes u32

text \<open>
  The critical section of \<open>Read\<close> for a buffer of \<open>n > 0\<close> bytes. \<open>ReadData xs u\<close> is the copied
  bytes and the credit to return; an empty buffer is a block unless the stream was reset, has
  seen the remote FIN, or lost its session, in this order.
\<close>

definition Read_locked :: "nat \<Rightarrow> stream \<Rightarrow> read_out \<times> stream" where
  "Read_locked n st =
     (if buf st = []
      then (if reset st then (ReadErr ErrStreamReset, st)
            else if finRecv st then (ReadErr (ErrIO EOF), st)
            else if sclosed st then (ReadErr ErrSessionClosed, st)
            else (ReadBlock, st))
      else
        (let k = min n (length (buf st))
         in (ReadData (take k (buf st)) (recvUnacked st + of_nat k),
             st\<lparr>buf := drop k (buf st), recvUnacked := 0\<rparr>)))"

section \<open>Write\<close>

datatype write_out = WriteBlock | WriteErr mux_err | WriteChunk nat | WritePanic

text \<open>
  The critical section of one round of \<open>Write\<close> with \<open>remaining > 0\<close> bytes left: the three
  error checks are made only while the window is exhausted, the reset check again after it.
  A negative window would make the chunk a slice of negative length, which panics.
\<close>

definition Write_locked :: "u32 \<Rightarrow> nat \<Rightarrow> stream \<Rightarrow> write_out \<times> stream" where
  "Write_locked maxFrame remaining st =
     (if sendWin st = 0
      then (if reset st then (WriteErr ErrStreamReset, st)
            else if sclosed st then (WriteErr ErrSessionClosed, st)
            else if finSent st then (WriteErr ErrStreamWriteClosed, st)
            else (WriteBlock, st))
      else if reset st then (WriteErr ErrStreamReset, st)
      else
        (let n0 = int remaining;
             n1 = (if n0 > sendWin st then sendWin st else n0);
             n = (if n1 > int (unat maxFrame) then int (unat maxFrame) else n1);
             st' = st\<lparr>sendWin := sendWin st - n\<rparr>
         in if n < 0 then (WritePanic, st') else (WriteChunk (nat n), st')))"

section \<open>Close and the inbound events\<close>

text \<open>\<open>Close_locked\<close> returns \<open>None\<close> when FIN was sent before, else whether both sides are closed.\<close>

definition Close_locked :: "stream \<Rightarrow> bool option \<times> stream" where
  "Close_locked st =
     (if finSent st then (None, st) else (Some (finRecv st), st\<lparr>finSent := True\<rparr>))"

definition pushData :: "u32 \<Rightarrow> bytes \<Rightarrow> stream \<Rightarrow> mux_err option \<times> stream" where
  "pushData window b st =
     (if length (buf st) + length b > unat window
      then (Some (ErrProtocol (WindowExceeded (sid st))), st)
      else if length b > 0 then (None, st\<lparr>buf := buf st @ b\<rparr>)
      else (None, st))"

definition remoteClosed :: "stream \<Rightarrow> bool \<times> stream" where
  "remoteClosed st = (finSent st, st\<lparr>finRecv := True\<rparr>)"

definition addSendWindow :: "int \<Rightarrow> stream \<Rightarrow> stream" where
  "addSendWindow n st = st\<lparr>sendWin := to_int64 (sendWin st + n)\<rparr>"

definition sessionClosed :: "stream \<Rightarrow> stream" where
  "sessionClosed st = st\<lparr>sclosed := True\<rparr>"

definition remoteReset :: "stream \<Rightarrow> stream" where
  "remoteReset st = st\<lparr>reset := True\<rparr>"

definition appendU32 :: "bytes \<Rightarrow> u32 \<Rightarrow> bytes" where
  "appendU32 dst v = dst @ put_u32 v"

lemmas stream_op_defs = newStream_def Read_locked_def Write_locked_def Close_locked_def
  pushData_def remoteClosed_def addSendWindow_def sessionClosed_def remoteReset_def

section \<open>Facts about one critical section\<close>

lemma Read_locked_data:
  assumes "Read_locked n st = (ReadData xs u, st')" and "recvUnacked st = 0"
    and "length (buf st) < 2 ^ 32"
  shows "buf st = xs @ buf st' \<and> length xs \<le> n \<and> unat u = length xs
    \<and> st' = st\<lparr>buf := buf st'\<rparr> \<and> recvUnacked st' = 0"
proof -
  from assms(1,2) have xs: "xs = take (min n (length (buf st))) (buf st)"
    and u: "u = of_nat (min n (length (buf st)))"
    and st': "st' = st\<lparr>buf := drop (min n (length (buf st))) (buf st), recvUnacked := 0\<rparr>"
    by (auto simp: Read_locked_def Let_def split: if_splits)
  have "st\<lparr>recvUnacked := 0\<rparr> = st" using assms(2) by (cases st) simp
  moreover have "unat u = min n (length (buf st))"
    using assms(3) by (simp add: u unat_of_nat)
  ultimately show ?thesis using st' xs assms(2)
    by (cases st) auto
qed

lemma Read_locked_block_iff:
  "fst (Read_locked n st) = ReadBlock \<longleftrightarrow>
     buf st = [] \<and> \<not> reset st \<and> \<not> finRecv st \<and> \<not> sclosed st"
  by (simp add: Read_locked_def Let_def)

lemma Read_locked_not_data:
  "Read_locked n st = (r, st') \<Longrightarrow> \<forall>xs u. r \<noteq> ReadData xs u \<Longrightarrow> st' = st"
  by (auto simp: Read_locked_def Let_def split: if_splits)

lemma Write_locked_chunk:
  assumes "Write_locked m r st = (WriteChunk n, st')"
  shows "n \<le> r \<and> n \<le> unat m \<and> int n \<le> sendWin st \<and> st' = st\<lparr>sendWin := sendWin st - int n\<rparr>
    \<and> \<not> reset st"
  using assms by (auto simp: Write_locked_def Let_def simp del: of_nat_unat split: if_splits)

lemma Write_locked_positive:
  "0 < sendWin st \<Longrightarrow> \<not> reset st \<Longrightarrow> 0 < r \<Longrightarrow> 0 < unat m \<Longrightarrow>
    \<exists>n st'. Write_locked m r st = (WriteChunk n, st') \<and> 0 < n"
  by (auto simp: Write_locked_def Let_def simp del: of_nat_unat)

lemma Write_locked_no_panic:
  "0 \<le> sendWin st \<Longrightarrow> fst (Write_locked m r st) \<noteq> WritePanic"
  by (auto simp: Write_locked_def Let_def)

lemma Write_locked_block_iff:
  "fst (Write_locked m r st) = WriteBlock \<longleftrightarrow>
     sendWin st = 0 \<and> \<not> reset st \<and> \<not> sclosed st \<and> \<not> finSent st"
  by (simp add: Write_locked_def Let_def)

lemma Write_locked_not_chunk:
  "Write_locked m r st = (out, st') \<Longrightarrow> \<forall>n. out \<noteq> WriteChunk n \<Longrightarrow> 0 \<le> sendWin st \<Longrightarrow> st' = st"
  by (auto simp: Write_locked_def Let_def split: if_splits)

lemma pushData_accepts:
  "length (buf st) + length b \<le> unat w \<Longrightarrow> pushData w b st = (None, st\<lparr>buf := buf st @ b\<rparr>)"
  by (cases st) (auto simp: pushData_def)

lemma pushData_error_iff:
  "fst (pushData w b st) \<noteq> None \<longleftrightarrow> length (buf st) + length b > unat w"
  by (simp add: pushData_def)

lemma pushData_bound:
  "pushData w b st = (e, st') \<Longrightarrow> length (buf st) \<le> unat w \<Longrightarrow> length (buf st') \<le> unat w"
  by (auto simp: pushData_def split: if_splits)

lemma addSendWindow_small:
  "0 \<le> sendWin st \<Longrightarrow> 0 \<le> n \<Longrightarrow> sendWin st + n < 2 ^ 63 \<Longrightarrow>
    addSendWindow n st = st\<lparr>sendWin := sendWin st + n\<rparr>"
  by (simp add: addSendWindow_def)

end
