(* ===== verification/Machine.thy ===== *)
theory Machine
  imports Main
begin

text \<open>
  State machines. The stateful components of the program (a session, one direction of a stream
  between two ends, the mutation journal, the pacing gate) are step relations; what they share
  is that a safety property is an invariant of every state a run can reach. \<open>machine\<close> is that
  argument: an interpretation discharges the two laws for a component's own steps, and the
  component's properties use \<open>invariant\<close>.
\<close>

locale machine =
  fixes init :: "'s \<Rightarrow> bool"
    and step :: "'s \<Rightarrow> 's \<Rightarrow> bool"
    and inv :: "'s \<Rightarrow> bool"
  assumes inv_init: "init s \<Longrightarrow> inv s"
    and inv_step: "inv s \<Longrightarrow> step s t \<Longrightarrow> inv t"
begin

lemma inv_steps: "step\<^sup>*\<^sup>* s t \<Longrightarrow> inv s \<Longrightarrow> inv t"
  by (induction rule: rtranclp_induct) (auto intro: inv_step)

lemma invariant: "init s \<Longrightarrow> step\<^sup>*\<^sup>* s t \<Longrightarrow> inv t"
  by (blast intro: inv_steps inv_init)

end

text \<open>
  A machine some of whose steps make progress: where the goal is not reached yet, a step that
  decreases the rank is enabled. Then a run to the goal exists from every reachable state.
\<close>

locale draining_machine = machine init step inv
  for init step and inv :: "'s \<Rightarrow> bool" +
  fixes goal :: "'s \<Rightarrow> bool"
    and rank :: "'s \<Rightarrow> nat"
  assumes progress: "inv s \<Longrightarrow> \<not> goal s \<Longrightarrow> \<exists>t. step s t \<and> rank t < rank s"
begin

lemma drains_from: "inv s \<Longrightarrow> \<exists>t. step\<^sup>*\<^sup>* s t \<and> goal t"
proof (induction "rank s" arbitrary: s rule: less_induct)
  case less
  show ?case
  proof (cases "goal s")
    case True
    then show ?thesis by blast
  next
    case False
    with progress [OF less.prems] obtain t where t: "step s t" "rank t < rank s" by blast
    with less.hyps [of t] inv_step [OF less.prems t(1)] obtain u where "step\<^sup>*\<^sup>* t u" "goal u"
      by blast
    with t(1) show ?thesis by (meson converse_rtranclp_into_rtranclp)
  qed
qed

lemma drains: "init s \<Longrightarrow> step\<^sup>*\<^sup>* s t \<Longrightarrow> \<exists>u. step\<^sup>*\<^sup>* t u \<and> goal u"
  by (blast intro: drains_from invariant)

end

end
