(* ===== verification/Session.thy ===== *)
theory Session
  imports Stream Machine
begin

text \<open>
  The multiplexer session, desktop/internal/mux/session.go, with the parts of the stream methods
  (stream.go) that reach into it. The \<open>Stream\<close> objects are shared between the table \<open>streams\<close>,
  the accept queue and the application, so they live in a heap: a stream pointer is an index of
  \<open>heap\<close>, and a stream retired from the table stays readable through its pointer. Frames are
  written to \<open>conn\<close> as bytes. Each method is one function on the session; \<open>session_step\<close>
  interleaves them, with \<open>Write\<close> cut at its rounds, where other goroutines can run.
\<close>

section \<open>Configuration\<close>

record config =
  MaxFramePayload :: u32
  InitialWindow :: u32
  KeepAlive :: int
  PingTimeout :: int
  IsInitiator :: bool
  AcceptQueueDepth :: int

definition withDefaults :: "config \<Rightarrow> config" where
  "withDefaults c =
     (let c1 = (if MaxFramePayload c = 0 then c\<lparr>MaxFramePayload := 64 * 1024\<rparr> else c);
          c2 = (if InitialWindow c1 = 0 then c1\<lparr>InitialWindow := 256 * 1024\<rparr> else c1);
          c3 = (if PingTimeout c2 = 0 then c2\<lparr>PingTimeout := 45 * 10 ^ 9\<rparr> else c2);
          c4 = (if AcceptQueueDepth c3 = 0 then c3\<lparr>AcceptQueueDepth := 64\<rparr> else c3)
      in c4)"

section \<open>State\<close>

record session =
  conn :: wconn
  cfg :: config
  heap :: "stream list"
  streams :: "u32 \<Rightarrow> nat option"
  nextID :: u32
  acceptCh :: "nat list"
  closed :: bool
  closeOnce :: bool
  done_ch :: bool
  lastRecv :: int

text \<open>\<open>New\<close>; \<open>make(chan, n)\<close> panics for a negative \<open>n\<close>, which is \<open>None\<close>.\<close>

definition New :: "wconn \<Rightarrow> config \<Rightarrow> int \<Rightarrow> session option" where
  "New w c0 now =
     (let c = withDefaults c0
      in if AcceptQueueDepth c < 0 then None
         else Some \<lparr>conn = w, cfg = c, heap = [], streams = Map.empty,
                    nextID = (if IsInitiator c then 1 else 2), acceptCh = [], closed = False,
                    closeOnce = False, done_ch = False, lastRecv = now\<rparr>)"

section \<open>Writing frames, retiring streams\<close>

definition mk_frame :: "byte \<Rightarrow> u32 \<Rightarrow> bytes \<Rightarrow> frame" where
  "mk_frame fl i p = \<lparr>Version = ProtocolVersion, Flags = fl, StreamID = i, Payload = p\<rparr>"

definition writeFrame :: "frame \<Rightarrow> session \<Rightarrow> mux_err option \<times> session" where
  "writeFrame f s =
     (if closed s then (Some ErrSessionClosed, s)
      else (case WriteFrame conn_write f (MaxFramePayload (cfg s)) (conn s) of
              (e, c) \<Rightarrow> (e, s\<lparr>conn := c\<rparr>)))"

definition upd_stream :: "nat \<Rightarrow> (stream \<Rightarrow> stream) \<Rightarrow> session \<Rightarrow> session" where
  "upd_stream a g s = s\<lparr>heap := (heap s)[a := g (heap s ! a)]\<rparr>"

definition removeStream :: "u32 \<Rightarrow> session \<Rightarrow> session" where
  "removeStream i s = s\<lparr>streams := (streams s)(i := None)\<rparr>"

definition resetStream :: "u32 \<Rightarrow> session \<Rightarrow> session" where
  "resetStream i s =
     (case streams s i of
        None \<Rightarrow> removeStream i s
      | Some a \<Rightarrow> upd_stream a remoteReset (removeStream i s))"

definition abortStream :: "u32 \<Rightarrow> byte \<Rightarrow> session \<Rightarrow> session" where
  "abortStream i reason s = snd (writeFrame (mk_frame FlagRST i [reason]) s)"

section \<open>Opening, accepting, closing\<close>

definition Open :: "target \<Rightarrow> session \<Rightarrow> (mux_err + nat) \<times> session" where
  "Open t s =
     (if closed s then (Inl ErrSessionClosed, s)
      else
        (let i = nextID s; a = length (heap s);
             s1 = s\<lparr>nextID := i + 2,
                    heap := heap s @ [newStream i t (uint (InitialWindow (cfg s)))],
                    streams := (streams s)(i \<mapsto> a)\<rparr>
         in case writeFrame (mk_frame FlagSYN i (AppendTarget [] t)) s1 of
              (None, s2) \<Rightarrow> (Inr a, s2)
            | (Some err, s2) \<Rightarrow> (Inl err, removeStream i s2)))"

definition PingPayload :: "bytes \<Rightarrow> session \<Rightarrow> mux_err option \<times> session" where
  "PingPayload p s = writeFrame (mk_frame FlagPING 0 p) s"

text \<open>
  \<open>Accept\<close> selects between a queued stream and the closed \<open>done\<close> channel. With both ready Go
  picks either, so the choice is the argument \<open>pick_queue\<close>.
\<close>

datatype accept_out = AcceptBlock | AcceptErr mux_err | Accepted nat

definition Accept :: "bool \<Rightarrow> session \<Rightarrow> accept_out \<times> session" where
  "Accept pick_queue s =
     (case acceptCh s of
        [] \<Rightarrow> if done_ch s then (AcceptErr ErrSessionClosed, s) else (AcceptBlock, s)
      | a # q \<Rightarrow>
          if done_ch s \<and> \<not> pick_queue then (AcceptErr ErrSessionClosed, s)
          else (Accepted a, s\<lparr>acceptCh := q\<rparr>))"

text \<open>
  \<open>closeWithError cause\<close>: the flag says whether the cause is an error. The streams in the table
  are woken in the map's iteration order, which cannot be observed.
\<close>

definition wake_all :: "session \<Rightarrow> session" where
  "wake_all s =
     s\<lparr>heap := map (\<lambda>a. if a \<in> ran (streams s) then sessionClosed (heap s ! a) else heap s ! a)
                 [0..<length (heap s)],
       streams := Map.empty\<rparr>"

definition closeWithError :: "bool \<Rightarrow> session \<Rightarrow> session" where
  "closeWithError cause s =
     (if closeOnce s then s
      else
        (let s0 = s\<lparr>closeOnce := True\<rparr>;
             goaway = mk_frame FlagGOAWAY 0 [if cause then ReasonProtocol else ReasonNormal];
             s1 = snd (writeFrame goaway s0);
             s2 = s1\<lparr>closed := True, done_ch := True, conn := (conn s1)\<lparr>wok := False\<rparr>\<rparr>
         in wake_all s2))"

definition Close :: "session \<Rightarrow> session" where
  "Close s = closeWithError False s"

section \<open>The methods of a stream\<close>

definition StreamRead :: "nat \<Rightarrow> nat \<Rightarrow> session \<Rightarrow> read_out \<times> session" where
  "StreamRead a n s =
     (if n = 0 then (ReadData [] 0, s)
      else
        (case Read_locked n (heap s ! a) of
           (ReadData xs unacked, st) \<Rightarrow>
             (ReadData xs unacked,
              snd (writeFrame (mk_frame FlagWIN (sid st) (appendU32 [] unacked))
                     (upd_stream a (\<lambda>_. st) s)))
         | (r, st) \<Rightarrow> (r, s)))"

datatype write_result =
    Written nat | WriteFailed nat mux_err | WriteBlocked nat | WritePanicked nat

datatype round_out = Stop write_result | Continue nat

text \<open>One round of the loop of \<open>Write(p)\<close> with \<open>tot\<close> bytes framed.\<close>

definition Write_round :: "nat \<Rightarrow> bytes \<Rightarrow> nat \<Rightarrow> session \<Rightarrow> round_out \<times> session" where
  "Write_round a p tot s =
     (case Write_locked (MaxFramePayload (cfg s)) (length p - tot) (heap s ! a) of
        (WriteErr e, st) \<Rightarrow> (Stop (WriteFailed tot e), s)
      | (WriteBlock, st) \<Rightarrow> (Stop (WriteBlocked tot), s)
      | (WritePanic, st) \<Rightarrow> (Stop (WritePanicked tot), upd_stream a (\<lambda>_. st) s)
      | (WriteChunk n, st) \<Rightarrow>
          (case writeFrame (mk_frame FlagDATA (sid st) (take n (drop tot p)))
                  (upd_stream a (\<lambda>_. st) s) of
             (Some err, s2) \<Rightarrow> (Stop (WriteFailed tot err), s2)
           | (None, s2) \<Rightarrow> (Continue (tot + n), s2)))"

text \<open>
  \<open>Write\<close> when nothing else runs between its rounds; \<open>WriteBlocked\<close> is the point where it
  sleeps. \<open>None\<close>: it loops for ever, which a frame limit of zero would cause.
\<close>

partial_function (option) Write_loop ::
  "nat \<Rightarrow> bytes \<Rightarrow> nat \<Rightarrow> session \<Rightarrow> (write_result \<times> session) option" where
  "Write_loop a p tot s =
     (if tot < length p
      then (case Write_round a p tot s of
              (r, s') \<Rightarrow> (case r of Stop w \<Rightarrow> Some (w, s') | Continue t \<Rightarrow> Write_loop a p t s'))
      else Some (Written tot, s))"

declare Write_loop.simps [code]

definition StreamWrite :: "nat \<Rightarrow> bytes \<Rightarrow> session \<Rightarrow> (write_result \<times> session) option" where
  "StreamWrite a p s = Write_loop a p 0 s"

definition StreamClose :: "nat \<Rightarrow> session \<Rightarrow> mux_err option \<times> session" where
  "StreamClose a s =
     (case Close_locked (heap s ! a) of
        (None, st) \<Rightarrow> (None, s)
      | (Some both, st) \<Rightarrow>
          (let s1 = upd_stream a (\<lambda>_. st) s;
               s2 = (if both then removeStream (sid st) s1 else s1)
           in writeFrame (mk_frame FlagFIN (sid st) []) s2))"

section \<open>Inbound frames\<close>

definition handleSYN :: "frame \<Rightarrow> session \<Rightarrow> mux_err option \<times> session" where
  "handleSYN f s =
     (case ParseTarget (Payload f) of
        Inl _ \<Rightarrow> (None, abortStream (StreamID f) ReasonProtocol s)
      | Inr t \<Rightarrow>
          (if streams s (StreamID f) \<noteq> None
           then (None, abortStream (StreamID f) ReasonDupStream s)
           else
             (let a = length (heap s);
                  s1 = s\<lparr>heap := heap s @ [newStream (StreamID f) t (uint (InitialWindow (cfg s)))],
                         streams := (streams s)(StreamID f \<mapsto> a)\<rparr>
              in if int (length (acceptCh s1)) < AcceptQueueDepth (cfg s1)
                 then (None, s1\<lparr>acceptCh := acceptCh s1 @ [a]\<rparr>)
                 else (None, abortStream (StreamID f) ReasonBusy
                               (resetStream (StreamID f) s1)))))"

definition handleFIN :: "u32 \<Rightarrow> session \<Rightarrow> session" where
  "handleFIN i s =
     (case streams s i of
        None \<Rightarrow> s
      | Some a \<Rightarrow>
          (case remoteClosed (heap s ! a) of
             (both, st) \<Rightarrow>
               (let s1 = upd_stream a (\<lambda>_. st) s
                in if both then removeStream (sid st) s1 else s1)))"

definition handleFrame :: "frame \<Rightarrow> session \<Rightarrow> mux_err option \<times> session" where
  "handleFrame f s =
     (if has_flag f FlagSYN then handleSYN f s
      else if has_flag f FlagDATA then
        (case streams s (StreamID f) of
           None \<Rightarrow> (None, abortStream (StreamID f) ReasonBusy s)
         | Some a \<Rightarrow>
             (case pushData (InitialWindow (cfg s)) (Payload f) (heap s ! a) of
                (e, st) \<Rightarrow> (e, upd_stream a (\<lambda>_. st) s)))
      else if has_flag f FlagFIN then (None, handleFIN (StreamID f) s)
      else if has_flag f FlagRST then (None, resetStream (StreamID f) s)
      else if has_flag f FlagWIN then
        (None, (case streams s (StreamID f) of
                  None \<Rightarrow> s
                | Some a \<Rightarrow> upd_stream a (addSendWindow (uint (get_u32 (Payload f)))) s))
      else if has_flag f FlagPING then writeFrame (mk_frame FlagPONG 0 (Payload f)) s
      else if has_flag f FlagPONG then (None, s)
      else if has_flag f FlagGOAWAY then (Some ErrSessionClosed, s)
      else (Some (ErrProtocol (UnhandledFlags (Flags f))), s))"

text \<open>
  One round of \<open>readLoop\<close> on a frame received at time \<open>now\<close>, and the whole loop over a reader;
  the deferred \<open>closeWithError(io.EOF)\<close> runs on every way out. \<open>clk k\<close> is the clock at the
  \<open>k\<close>-th frame.
\<close>

definition readLoop_frame :: "int \<Rightarrow> frame \<Rightarrow> session \<Rightarrow> bool \<times> session" where
  "readLoop_frame now f s =
     (case handleFrame f (s\<lparr>lastRecv := now\<rparr>) of
        (None, s') \<Rightarrow> (True, s')
      | (Some err, s') \<Rightarrow> (False, closeWithError True (closeWithError True s')))"

definition readLoop_error :: "session \<Rightarrow> session" where
  "readLoop_error s = closeWithError True s"

partial_function (option) readLoop ::
  "'r reader \<Rightarrow> (nat \<Rightarrow> int) \<Rightarrow> nat \<Rightarrow> session \<Rightarrow> 'r \<Rightarrow> (session \<times> 'r) option" where
  "readLoop rd clk k s r =
     (case ReadFrame rd (MaxFramePayload (cfg s)) r of
        None \<Rightarrow> None
      | Some (x, r') \<Rightarrow>
          (case x of
             Inl err \<Rightarrow> Some (readLoop_error s, r')
           | Inr f \<Rightarrow>
               (case readLoop_frame (clk k) f s of
                  (continue, s') \<Rightarrow>
                    (if continue then readLoop rd clk (Suc k) s' r' else Some (s', r')))))"

declare readLoop.simps [code]

section \<open>Keepalives\<close>

definition put_u64le :: "64 word \<Rightarrow> bytes" where
  "put_u64le v = map (\<lambda>k. ucast (drop_bit (8 * k) v)) [0..<8]"

text \<open>One tick of \<open>keepAliveLoop\<close> at time \<open>now\<close>; the flag says whether the loop goes on.\<close>

definition keepAlive_tick :: "int \<Rightarrow> session \<Rightarrow> bool \<times> session" where
  "keepAlive_tick now s =
     (if now - lastRecv s > PingTimeout (cfg s) then (False, closeWithError True s)
      else
        (case writeFrame (mk_frame FlagPING 0 (put_u64le (word_of_int now))) s of
           (None, s') \<Rightarrow> (True, s')
         | (Some err, s') \<Rightarrow> (False, closeWithError True s')))"

end
