(* ===== verification/Session_Inv.thy ===== *)
theory Session_Inv
  imports Session
begin

unbundle bit_operations_syntax

text \<open>
  The invariant of a session and its steps: the table points into the heap at streams of the
  right id, the accept queue is bounded and points into the heap, no receive buffer exceeds the
  window, the id counter keeps its parity, a closed session has a dead connection, and what the
  session has written is a sequence of encodings of well-formed frames. Every operation keeps
  it; the machine \<open>mux\<close> lifts this to every state a session can reach under any interleaving of
  its application, its peer and its timers.
\<close>

section \<open>The frames a session emits are well formed\<close>

lemma all_flags_known: "b AND NOT (FlagSYN OR FlagFIN OR FlagRST OR FlagWIN OR FlagDATA OR FlagPING
    OR FlagPONG OR FlagGOAWAY) = (0 :: byte)"
proof -
  have "NOT (FlagSYN OR FlagFIN OR FlagRST OR FlagWIN OR FlagDATA OR FlagPING
    OR FlagPONG OR FlagGOAWAY) = 0"
    by (simp add: flag_defs)
  then show ?thesis by (simp only: and_zero_eq)
qed

lemma mk_frame_simps [simp]:
  "Version (mk_frame fl i p) = ProtocolVersion" "Flags (mk_frame fl i p) = fl"
  "StreamID (mk_frame fl i p) = i" "Payload (mk_frame fl i p) = p"
  by (simp_all add: mk_frame_def)

lemma validate_mk_frame [simp]:
  "validateFrame (mk_frame FlagSYN i p) = None"
  "validateFrame (mk_frame FlagFIN i p) = None"
  "length q = 1 \<Longrightarrow> validateFrame (mk_frame FlagRST i q) = None"
  "length w = 4 \<Longrightarrow> validateFrame (mk_frame FlagWIN i w) = None"
  "validateFrame (mk_frame FlagDATA i p) = None"
  "validateFrame (mk_frame FlagPING 0 p) = None"
  "validateFrame (mk_frame FlagPONG 0 p) = None"
  "length q = 1 \<Longrightarrow> validateFrame (mk_frame FlagGOAWAY 0 q) = None"
  by (simp_all add: validateFrame_def has_flag_def flag_defs)

definition emittable :: "frame \<Rightarrow> bool" where
  "emittable f \<longleftrightarrow> Version f = ProtocolVersion \<and> validateFrame f = None \<and> length (Payload f) < 2 ^ 32"

lemma emittable_mk_frame:
  "validateFrame (mk_frame fl i p) = None \<Longrightarrow> length p < 2 ^ 32 \<Longrightarrow> emittable (mk_frame fl i p)"
  by (simp add: emittable_def)

section \<open>The invariant\<close>

definition table_ok :: "session \<Rightarrow> bool" where
  "table_ok s \<longleftrightarrow>
     (\<forall>i a. streams s i = Some a \<longrightarrow> a < length (heap s) \<and> sid (heap s ! a) = i)"

definition queue_ok :: "session \<Rightarrow> bool" where
  "queue_ok s \<longleftrightarrow>
     (\<forall>a\<in>set (acceptCh s). a < length (heap s)) \<and>
     int (length (acceptCh s)) \<le> AcceptQueueDepth (cfg s)"

definition bufs_ok :: "session \<Rightarrow> bool" where
  "bufs_ok s \<longleftrightarrow>
     (\<forall>st\<in>set (heap s). length (buf st) \<le> unat (InitialWindow (cfg s)) \<and> recvUnacked st = 0)"

definition parity_ok :: "session \<Rightarrow> bool" where
  "parity_ok s \<longleftrightarrow> odd (unat (nextID s)) = IsInitiator (cfg s)"

definition wire_ok :: "session \<Rightarrow> bool" where
  "wire_ok s \<longleftrightarrow>
     (\<exists>fs. wbytes (conn s) = concat (map encode_frame fs)
         \<and> (\<forall>f\<in>set fs. wellformed (MaxFramePayload (cfg s)) f))"

definition life_ok :: "session \<Rightarrow> bool" where
  "life_ok s \<longleftrightarrow> closeOnce s = closed s \<and> done_ch s = closed s \<and> (closed s \<longrightarrow> \<not> wok (conn s))"

definition limits_ok :: "session \<Rightarrow> bool" where
  "limits_ok s \<longleftrightarrow> 0 < MaxFramePayload (cfg s) \<and> 0 < InitialWindow (cfg s)"

definition sess_inv :: "session \<Rightarrow> bool" where
  "sess_inv s \<longleftrightarrow> table_ok s \<and> queue_ok s \<and> bufs_ok s \<and> parity_ok s \<and> wire_ok s \<and> life_ok s
     \<and> limits_ok s"

lemmas inv_defs = table_ok_def queue_ok_def bufs_ok_def parity_ok_def life_ok_def limits_ok_def

section \<open>The building blocks keep it\<close>

lemma nth_list_update': "a < length xs \<Longrightarrow> xs[b := x] ! a = (if b = a then x else xs ! a)"
  by (cases "b = a") simp_all

lemma odd_plus_2: "odd (unat ((x :: u32) + 2)) = odd (unat x)"
  by (simp add: unat_word_ariths dvd_mod_iff)

lemma writeFrame_conn: "\<exists>e c. writeFrame f s = (e, s\<lparr>conn := c\<rparr>)"
proof (cases "closed s")
  case True
  then have "writeFrame f s = (Some ErrSessionClosed, s\<lparr>conn := conn s\<rparr>)"
    by (simp add: writeFrame_def)
  then show ?thesis by blast
next
  case False
  then show ?thesis by (auto simp: writeFrame_def split: prod.split)
qed

lemma writeFrame_fields [simp]:
  "cfg (snd (writeFrame f s)) = cfg s" "heap (snd (writeFrame f s)) = heap s"
  "streams (snd (writeFrame f s)) = streams s" "nextID (snd (writeFrame f s)) = nextID s"
  "acceptCh (snd (writeFrame f s)) = acceptCh s" "closed (snd (writeFrame f s)) = closed s"
  "closeOnce (snd (writeFrame f s)) = closeOnce s" "done_ch (snd (writeFrame f s)) = done_ch s"
  "lastRecv (snd (writeFrame f s)) = lastRecv s"
  using writeFrame_conn [of f s] by auto

lemma writeFrame_cases:
  assumes "emittable f"
  obtains (written) "\<not> closed s" "wok (conn s)" "sendable (MaxFramePayload (cfg s)) f"
      "writeFrame f s = (None, s\<lparr>conn := (conn s)\<lparr>wbytes := wbytes (conn s) @ encode_frame f\<rparr>\<rparr>)"
  | (failed) e where "writeFrame f s = (Some e, s)"
proof (cases "closed s")
  case True
  then show ?thesis using failed by (simp add: writeFrame_def)
next
  case False
  have "length (Payload f) < 2 ^ 32" using assms by (simp add: emittable_def)
  then show ?thesis
  proof (cases rule: conn_WriteFrame_cases [of f "conn s" "MaxFramePayload (cfg s)"])
    case written
    with False that(1) show ?thesis by (simp add: writeFrame_def)
  next
    case (failed e)
    with False have "writeFrame f s = (Some e, s)" by (simp add: writeFrame_def)
    then show ?thesis by (rule that(2))
  qed
qed

lemma wire_ok_append:
  assumes "wire_ok s" and "wellformed (MaxFramePayload (cfg s)) f"
  shows "wire_ok (s\<lparr>conn := (conn s)\<lparr>wbytes := wbytes (conn s) @ encode_frame f\<rparr>\<rparr>)"
proof -
  from assms(1) obtain fs where "wbytes (conn s) = concat (map encode_frame fs)"
    and "\<forall>f\<in>set fs. wellformed (MaxFramePayload (cfg s)) f"
    by (auto simp: wire_ok_def)
  with assms(2) show ?thesis by (auto simp: wire_ok_def intro!: exI [of _ "fs @ [f]"])
qed

lemma writeFrame_inv:
  assumes "sess_inv s" and "emittable f"
  shows "sess_inv (snd (writeFrame f s))"
  using assms(2)
proof (cases rule: writeFrame_cases [of f s])
  case written
  with assms have "wellformed (MaxFramePayload (cfg s)) f"
    by (simp add: wellformed_def emittable_def)
  with wire_ok_append [of s f] assms written show ?thesis
    by (simp add: sess_inv_def inv_defs)
next
  case (failed e)
  with assms show ?thesis by simp
qed

lemma writeFrame_inv_mk:
  "sess_inv s \<Longrightarrow> validateFrame (mk_frame fl i p) = None \<Longrightarrow> length p < 2 ^ 32 \<Longrightarrow>
    sess_inv (snd (writeFrame (mk_frame fl i p) s))"
  by (simp add: writeFrame_inv emittable_mk_frame)

lemma upd_stream_inv:
  assumes "sess_inv s" and "sid st = sid (heap s ! a)"
    and "length (buf st) \<le> unat (InitialWindow (cfg s))" and "recvUnacked st = 0"
  shows "sess_inv (upd_stream a (\<lambda>_. st) s)"
proof -
  have "table_ok (upd_stream a (\<lambda>_. st) s)"
    using assms(1,2)
    by (auto simp: sess_inv_def table_ok_def upd_stream_def nth_list_update')
  moreover have "bufs_ok (upd_stream a (\<lambda>_. st) s)"
    using assms(1,3,4) set_update_subset_insert [of "heap s" a st]
    by (auto simp: sess_inv_def bufs_ok_def upd_stream_def)
  ultimately show ?thesis using assms(1)
    by (auto simp: sess_inv_def queue_ok_def parity_ok_def wire_ok_def life_ok_def limits_ok_def
        upd_stream_def)
qed

lemma removeStream_inv: "sess_inv s \<Longrightarrow> sess_inv (removeStream i s)"
  by (auto simp: sess_inv_def inv_defs wire_ok_def removeStream_def)

lemma bufs_okD: "sess_inv s \<Longrightarrow> a < length (heap s) \<Longrightarrow>
    length (buf (heap s ! a)) \<le> unat (InitialWindow (cfg s)) \<and> recvUnacked (heap s ! a) = 0"
  by (auto simp: sess_inv_def bufs_ok_def)

lemma table_okD: "sess_inv s \<Longrightarrow> streams s i = Some a \<Longrightarrow> a < length (heap s) \<and> sid (heap s ! a) = i"
  by (auto simp: sess_inv_def table_ok_def)

lemma resetStream_inv: "sess_inv s \<Longrightarrow> sess_inv (resetStream i s)"
proof (cases "streams s i")
  case None
  assume "sess_inv s"
  with None show ?thesis by (simp add: resetStream_def removeStream_inv)
next
  case (Some a)
  assume inv: "sess_inv s"
  define s1 where "s1 = removeStream i s"
  have s1: "sess_inv s1" "heap s1 = heap s" "cfg s1 = cfg s"
    using removeStream_inv [OF inv] by (simp_all add: s1_def removeStream_def)
  have "sess_inv (upd_stream a (\<lambda>_. remoteReset (heap s1 ! a)) s1)"
    using upd_stream_inv [OF s1(1), of "remoteReset (heap s1 ! a)" a]
      table_okD [OF inv Some] bufs_okD [OF inv, of a]
    by (simp add: s1 remoteReset_def)
  moreover have "resetStream i s = upd_stream a (\<lambda>_. remoteReset (heap s1 ! a)) s1"
    by (simp add: resetStream_def Some s1_def upd_stream_def)
  ultimately show ?thesis by simp
qed

lemma abortStream_inv: "sess_inv s \<Longrightarrow> sess_inv (abortStream i r s)"
  by (simp add: abortStream_def writeFrame_inv_mk)

lemma add_stream_inv:
  assumes "sess_inv s"
  shows "sess_inv (s\<lparr>heap := heap s @ [newStream i t w], streams := (streams s)(i \<mapsto> length (heap s))\<rparr>)"
  using assms
  by (auto simp: sess_inv_def table_ok_def queue_ok_def bufs_ok_def parity_ok_def wire_ok_def
      life_ok_def limits_ok_def nth_append newStream_def less_SucI)

lemma wake_all_inv:
  assumes "sess_inv s"
  shows "sess_inv (wake_all s)"
proof -
  have "bufs_ok (wake_all s)"
    using bufs_okD [OF assms] by (auto simp: bufs_ok_def wake_all_def sessionClosed_def)
  with assms show ?thesis
    by (auto simp: sess_inv_def table_ok_def queue_ok_def parity_ok_def wire_ok_def life_ok_def
        limits_ok_def wake_all_def)
qed

text \<open>\<open>closeWithError\<close> goes through states where the once-flag is set and the session still open.\<close>

lemma closeWithError_inv:
  assumes "sess_inv s"
  shows "sess_inv (closeWithError cause s)"
proof (cases "closeOnce s")
  case True
  with assms show ?thesis by (simp add: closeWithError_def)
next
  case False
  define f where "f = mk_frame FlagGOAWAY 0 [if cause then ReasonProtocol else ReasonNormal]"
  define s1 where "s1 = snd (writeFrame f s)"
  have "sess_inv s1" using assms by (simp add: s1_def f_def writeFrame_inv_mk)
  define s2 where "s2 = s1\<lparr>closeOnce := True, closed := True, done_ch := True,
      conn := (conn s1)\<lparr>wok := False\<rparr>\<rparr>"
  have "sess_inv s2"
    using \<open>sess_inv s1\<close> by (simp add: s2_def sess_inv_def inv_defs wire_ok_def)
  moreover have "closeWithError cause s = wake_all s2"
    using False
    by (auto simp: closeWithError_def Let_def s2_def s1_def f_def writeFrame_def split: prod.split)
  ultimately show ?thesis by (simp add: wake_all_inv)
qed

end
