(* ===== verification/Session_Steps.thy ===== *)
theory Session_Steps
  imports Session_Inv
begin

text \<open>
  The operations of a session as steps: each keeps the invariant, so the invariant holds in
  every reachable state (machine \<open>mux\<close>). The steps are the methods the application calls (with
  \<open>Write\<close> cut at its rounds), an inbound frame, a failed read, a keepalive tick, and the loss of
  the connection. An inbound frame is any frame the decoder accepts, whatever the peer sends.
\<close>

lemma sess_inv_lastRecv [simp]: "sess_inv (s\<lparr>lastRecv := t\<rparr>) = sess_inv s"
  by (simp add: sess_inv_def inv_defs wire_ok_def)

lemma Open_inv:
  assumes "sess_inv s" and "length (AppendTarget [] t) < 2 ^ 32"
  shows "sess_inv (snd (Open t s))"
proof (cases "closed s")
  case True
  with assms show ?thesis by (simp add: Open_def)
next
  case False
  define s0 where "s0 = s\<lparr>nextID := nextID s + 2\<rparr>"
  define s1 where "s1 = s0\<lparr>heap := heap s0 @ [newStream (nextID s) t (uint (InitialWindow (cfg s)))],
      streams := (streams s0)(nextID s \<mapsto> length (heap s0))\<rparr>"
  have "sess_inv s0"
    using assms(1) by (simp add: s0_def sess_inv_def inv_defs wire_ok_def odd_plus_2)
  then have "sess_inv s1" unfolding s1_def by (rule add_stream_inv)
  then have w: "sess_inv (snd (writeFrame (mk_frame FlagSYN (nextID s) (AppendTarget [] t)) s1))"
    using assms(2) by (simp add: writeFrame_inv_mk)
  show ?thesis
  proof (cases "writeFrame (mk_frame FlagSYN (nextID s) (AppendTarget [] t)) s1")
    case (Pair e s2)
    with w False show ?thesis
      by (cases e) (auto simp: Open_def Let_def s1_def s0_def removeStream_inv)
  qed
qed

lemma StreamRead_inv:
  assumes "sess_inv s" and "a < length (heap s)"
  shows "sess_inv (snd (StreamRead a n s))"
proof (cases "Read_locked n (heap s ! a)")
  case (Pair r st)
  show ?thesis
  proof (cases r)
    case (ReadData xs u)
    have b: "length (buf (heap s ! a)) \<le> unat (InitialWindow (cfg s))" "recvUnacked (heap s ! a) = 0"
      using bufs_okD [OF assms] by auto
    from Pair ReadData b(2) have "st = (heap s ! a)\<lparr>buf := drop (min n (length (buf (heap s ! a))))
        (buf (heap s ! a)), recvUnacked := 0\<rparr>"
      by (auto simp: Read_locked_def Let_def split: if_splits)
    with assms(1) b have "sess_inv (upd_stream a (\<lambda>_. st) s)"
      by (intro upd_stream_inv) auto
    then have "sess_inv (snd (writeFrame (mk_frame FlagWIN (sid st) (appendU32 [] u))
        (upd_stream a (\<lambda>_. st) s)))"
      by (rule writeFrame_inv_mk) (simp_all add: appendU32_def)
    with Pair ReadData assms(1) show ?thesis by (simp add: StreamRead_def)
  qed (use Pair assms in \<open>simp_all add: StreamRead_def\<close>)
qed

lemma Write_locked_fields:
  "Write_locked m r st = (out, st') \<Longrightarrow> sid st' = sid st \<and> buf st' = buf st \<and> recvUnacked st' = recvUnacked st"
  by (auto simp: Write_locked_def Let_def split: if_splits)

lemma Write_round_inv:
  assumes "sess_inv s" and "a < length (heap s)" and "length p < 2 ^ 32"
  shows "sess_inv (snd (Write_round a p tot s))"
proof (cases "Write_locked (MaxFramePayload (cfg s)) (length p - tot) (heap s ! a)")
  case (Pair out st)
  from Write_locked_fields [OF Pair] bufs_okD [OF assms(1,2)] assms(1)
  have upd: "sess_inv (upd_stream a (\<lambda>_. st) s)"
    by (intro upd_stream_inv) auto
  show ?thesis
  proof (cases out)
    case (WriteChunk n)
    have "sess_inv (snd (writeFrame (mk_frame FlagDATA (sid st) (take n (drop tot p)))
        (upd_stream a (\<lambda>_. st) s)))"
      using upd by (rule writeFrame_inv_mk) (use assms(3) in simp_all)
    with Pair WriteChunk show ?thesis by (auto simp: Write_round_def split: prod.splits option.splits)
  qed (use Pair upd assms in \<open>auto simp: Write_round_def\<close>)
qed

lemma StreamClose_inv:
  assumes "sess_inv s" and "a < length (heap s)"
  shows "sess_inv (snd (StreamClose a s))"
proof (cases "Close_locked (heap s ! a)")
  case (Pair both st)
  have "sess_inv (upd_stream a (\<lambda>_. st) s)"
    using Pair bufs_okD [OF assms] assms(1)
    by (intro upd_stream_inv) (auto simp: Close_locked_def split: if_splits)
  with Pair assms(1) show ?thesis
    by (cases both) (simp_all add: StreamClose_def Let_def writeFrame_inv_mk removeStream_inv)
qed

lemma Accept_inv: "sess_inv s \<Longrightarrow> sess_inv (snd (Accept pick s))"
  by (cases "acceptCh s")
    (auto simp: Accept_def sess_inv_def inv_defs wire_ok_def)

lemma handleSYN_inv:
  assumes "sess_inv s"
  shows "sess_inv (snd (handleSYN f s))"
proof (cases "ParseTarget (Payload f)")
  case (Inl e)
  with assms show ?thesis by (simp add: handleSYN_def abortStream_inv)
next
  case (Inr t)
  show ?thesis
  proof (cases "streams s (StreamID f)")
    case (Some a)
    with Inr assms show ?thesis by (simp add: handleSYN_def abortStream_inv)
  next
    case None
    define s1 where "s1 = s\<lparr>heap := heap s @ [newStream (StreamID f) t (uint (InitialWindow (cfg s)))],
        streams := (streams s)(StreamID f \<mapsto> length (heap s))\<rparr>"
    have s1: "sess_inv s1" unfolding s1_def by (rule add_stream_inv [OF assms])
    have eq: "handleSYN f s =
        (if int (length (acceptCh s1)) < AcceptQueueDepth (cfg s1)
         then (None, s1\<lparr>acceptCh := acceptCh s1 @ [length (heap s)]\<rparr>)
         else (None, abortStream (StreamID f) ReasonBusy (resetStream (StreamID f) s1)))"
      using Inr None by (simp add: handleSYN_def Let_def s1_def)
    have len: "length (heap s) < length (heap s1)" by (simp add: s1_def)
    show ?thesis
    proof (cases "int (length (acceptCh s1)) < AcceptQueueDepth (cfg s1)")
      case True
      have "sess_inv (s1\<lparr>acceptCh := acceptCh s1 @ [length (heap s)]\<rparr>)"
        using s1 len True by (auto simp: sess_inv_def inv_defs wire_ok_def)
      with True eq show ?thesis by simp
    next
      case False
      with eq s1 show ?thesis by (simp add: abortStream_inv resetStream_inv)
    qed
  qed
qed

lemma handleFIN_inv:
  assumes "sess_inv s"
  shows "sess_inv (handleFIN i s)"
proof (cases "streams s i")
  case (Some a)
  have "sess_inv (upd_stream a (\<lambda>_. (heap s ! a)\<lparr>finRecv := True\<rparr>) s)"
    using table_okD [OF assms Some] bufs_okD [OF assms, of a] assms
    by (intro upd_stream_inv) auto
  with Some show ?thesis by (simp add: handleFIN_def remoteClosed_def Let_def removeStream_inv)
qed (use assms in \<open>simp add: handleFIN_def\<close>)

lemma handleFrame_inv:
  assumes "sess_inv s" and "wellformed (MaxFramePayload (cfg s)) f"
  shows "sess_inv (snd (handleFrame f s))"
proof -
  have len: "length (Payload f) < 2 ^ 32"
    using assms(2) sendable_length unfolding wellformed_def by blast
  have data: "sess_inv (upd_stream a (\<lambda>_. st) s)"
    if "streams s i = Some a" "pushData (InitialWindow (cfg s)) b (heap s ! a) = (e, st)" for i a b e st
    using table_okD [OF assms(1) that(1)] bufs_okD [OF assms(1), of a] that(2) assms(1)
    by (intro upd_stream_inv) (auto simp: pushData_def split: if_splits)
  have win: "sess_inv (upd_stream a (addSendWindow n) s)" if "streams s i = Some a" for i a n
    using table_okD [OF assms(1) that] bufs_okD [OF assms(1), of a] assms(1)
      upd_stream_inv [of s "addSendWindow n (heap s ! a)" a]
    by (simp add: addSendWindow_def upd_stream_def)
  show ?thesis
    using assms(1) data win len
    by (auto simp: handleFrame_def handleSYN_inv handleFIN_inv resetStream_inv abortStream_inv
        writeFrame_inv_mk split: option.split prod.split)
qed

lemma readLoop_frame_inv:
  "sess_inv s \<Longrightarrow> wellformed (MaxFramePayload (cfg s)) f \<Longrightarrow>
    sess_inv (snd (readLoop_frame now f s))"
  using handleFrame_inv [of "s\<lparr>lastRecv := now\<rparr>" f]
  by (auto simp: readLoop_frame_def closeWithError_inv split: prod.splits option.splits)

lemma keepAlive_tick_inv:
  "sess_inv s \<Longrightarrow> sess_inv (snd (keepAlive_tick now s))"
  using writeFrame_inv_mk [of s FlagPING 0 "put_u64le (word_of_int now)"]
  by (auto simp: keepAlive_tick_def closeWithError_inv put_u64le_def split: prod.splits option.splits)

section \<open>The step relation\<close>

inductive session_step :: "session \<Rightarrow> session \<Rightarrow> bool" where
  open_stream: "length (AppendTarget [] t) < 2 ^ 32 \<Longrightarrow> session_step s (snd (Open t s))"
| accept_stream: "session_step s (snd (Accept pick s))"
| read_stream: "a < length (heap s) \<Longrightarrow> session_step s (snd (StreamRead a n s))"
| write_stream: "a < length (heap s) \<Longrightarrow> tot < length p \<Longrightarrow> length p < 2 ^ 32 \<Longrightarrow>
    session_step s (snd (Write_round a p tot s))"
| close_stream: "a < length (heap s) \<Longrightarrow> session_step s (snd (StreamClose a s))"
| ping: "length p < 2 ^ 32 \<Longrightarrow> session_step s (snd (PingPayload p s))"
| inbound_frame: "wellformed (MaxFramePayload (cfg s)) f \<Longrightarrow>
    session_step s (snd (readLoop_frame now f s))"
| inbound_error: "session_step s (readLoop_error s)"
| tick: "0 < KeepAlive (cfg s) \<Longrightarrow> session_step s (snd (keepAlive_tick now s))"
| close_session: "session_step s (Close s)"
| conn_lost: "session_step s (s\<lparr>conn := (conn s)\<lparr>wok := False\<rparr>\<rparr>)"

inductive_cases session_stepE: "session_step s t"

lemma session_step_inv: "session_step s t \<Longrightarrow> sess_inv s \<Longrightarrow> sess_inv t"
proof (induction rule: session_step.induct)
  case (ping p s)
  then show ?case by (simp add: PingPayload_def writeFrame_inv_mk)
next
  case (conn_lost s)
  then show ?case by (simp add: sess_inv_def inv_defs wire_ok_def)
qed (simp_all add: Open_inv Accept_inv StreamRead_inv Write_round_inv StreamClose_inv
    readLoop_frame_inv readLoop_error_def closeWithError_inv keepAlive_tick_inv Close_def)

definition fresh_session :: "session \<Rightarrow> bool" where
  "fresh_session s \<longleftrightarrow> (\<exists>w c now. wbytes w = [] \<and> New w c now = Some s)"

lemma withDefaults_positive:
  "0 < MaxFramePayload (withDefaults c)" "0 < InitialWindow (withDefaults c)"
  by (auto simp: withDefaults_def Let_def word_gt_0)

lemma New_inv: "fresh_session s \<Longrightarrow> sess_inv s"
  using withDefaults_positive
  by (auto simp: fresh_session_def New_def Let_def sess_inv_def inv_defs wire_ok_def
      split: if_splits intro!: exI [of _ "[]"])

interpretation mux: machine fresh_session session_step sess_inv
  by unfold_locales (auto intro: New_inv session_step_inv)

end
