(* ===== verification/Session_Facts.thy ===== *)
theory Session_Facts
  imports Session_Steps
begin

unbundle bit_operations_syntax

text \<open>
  What the operations of a session do, branch by branch: the ids \<open>Open\<close> hands out, the effect of
  each inbound frame on the stream it names and on no other, the rounds of \<open>Write\<close> put together,
  the receive loop over a byte stream, and what \<open>Close\<close> and a reset leave behind.
\<close>

lemma writeFrame_connD: "writeFrame f s = (e, s') \<Longrightarrow> \<exists>c. s' = s\<lparr>conn := c\<rparr>"
  using writeFrame_conn [of f s] by auto

lemma writeFrame_ok:
  "\<not> closed s \<Longrightarrow> wok (conn s) \<Longrightarrow> sendable (MaxFramePayload (cfg s)) f \<Longrightarrow>
    writeFrame f s = (None, s\<lparr>conn := (conn s)\<lparr>wbytes := wbytes (conn s) @ encode_frame f\<rparr>\<rparr>)"
  by (simp add: writeFrame_def)

lemma sendable_mk_frame [simp]:
  "sendable m (mk_frame fl i p) \<longleftrightarrow> length p \<le> unat m"
  by (simp add: sendable_def)

section \<open>Stream ids\<close>

lemma Open_cases:
  obtains (closed) "closed s" "Open t s = (Inl ErrSessionClosed, s)"
  | (opened) c where "\<not> closed s" "Open t s = (Inr (length (heap s)),
      s\<lparr>nextID := nextID s + 2,
        heap := heap s @ [newStream (nextID s) t (uint (InitialWindow (cfg s)))],
        streams := (streams s)(nextID s \<mapsto> length (heap s)), conn := c\<rparr>)"
  | (failed) c e where "\<not> closed s" "Open t s = (Inl e,
      s\<lparr>nextID := nextID s + 2,
        heap := heap s @ [newStream (nextID s) t (uint (InitialWindow (cfg s)))],
        conn := c, streams := (streams s)(nextID s := None)\<rparr>)"
proof (cases "closed s")
  case True
  with closed show ?thesis by (simp add: Open_def)
next
  case False
  define s1 where "s1 = s\<lparr>nextID := nextID s + 2,
      heap := heap s @ [newStream (nextID s) t (uint (InitialWindow (cfg s)))],
      streams := (streams s)(nextID s \<mapsto> length (heap s))\<rparr>"
  obtain e c where w: "writeFrame (mk_frame FlagSYN (nextID s) (AppendTarget [] t)) s1
      = (e, s1\<lparr>conn := c\<rparr>)"
    using writeFrame_conn by blast
  with False have "Open t s = (case e of None \<Rightarrow> (Inr (length (heap s)), s1\<lparr>conn := c\<rparr>)
      | Some err \<Rightarrow> (Inl err, removeStream (nextID s) (s1\<lparr>conn := c\<rparr>)))"
    by (simp add: Open_def Let_def s1_def split: option.split)
  with False show ?thesis
    by (cases e) (auto simp: s1_def removeStream_def intro: opened failed)
qed

lemma nextID_handleSYN: "nextID (snd (handleSYN f s)) = nextID s"
  by (simp add: handleSYN_def Let_def abortStream_def resetStream_def removeStream_def
      upd_stream_def split: sum.split option.split)

lemma nextID_closeWithError [simp]: "nextID (closeWithError c s) = nextID s"
  by (simp add: closeWithError_def Let_def wake_all_def)

lemma nextID_handleFrame [simp]: "nextID (snd (handleFrame f s)) = nextID s"
  by (auto simp: handleFrame_def nextID_handleSYN handleFIN_def remoteClosed_def Let_def
      abortStream_def resetStream_def removeStream_def upd_stream_def
      split: option.split prod.split)

lemma nextID_readLoop_frame: "nextID (snd (readLoop_frame now f s)) = nextID s"
  using nextID_handleFrame [of f "s\<lparr>lastRecv := now\<rparr>"]
  by (auto simp: readLoop_frame_def simp del: nextID_handleFrame split: prod.splits option.splits)

lemma nextID_StreamRead: "nextID (snd (StreamRead a n s)) = nextID s"
  by (auto simp: StreamRead_def upd_stream_def split: prod.split read_out.split)

lemma nextID_Write_round: "nextID (snd (Write_round a p tot s)) = nextID s"
  by (auto simp: Write_round_def upd_stream_def dest!: writeFrame_connD
      split: prod.split write_out.split option.split)

lemma nextID_StreamClose: "nextID (snd (StreamClose a s)) = nextID s"
  by (auto simp: StreamClose_def upd_stream_def removeStream_def Let_def
      split: prod.split option.split)

lemma nextID_Accept: "nextID (snd (Accept pick s)) = nextID s"
  by (auto simp: Accept_def split: list.split)

lemma nextID_tick: "nextID (snd (keepAlive_tick now s)) = nextID s"
  by (auto simp: keepAlive_tick_def dest!: writeFrame_connD split: prod.split option.split)

lemmas nextID_ops = nextID_readLoop_frame nextID_StreamRead nextID_Write_round nextID_StreamClose
  nextID_Accept nextID_tick

text \<open>
  A run that records the ids its \<open>Open\<close> calls take. A step that is no \<open>Open\<close> leaves the
  counter alone.
\<close>

inductive opening_run :: "session \<Rightarrow> u32 list \<Rightarrow> session \<Rightarrow> bool" where
  start: "opening_run s [] s"
| an_open: "opening_run s ids t \<Longrightarrow> \<not> closed t \<Longrightarrow> length (AppendTarget [] tgt) < 2 ^ 32 \<Longrightarrow>
    opening_run s (ids @ [nextID t]) (snd (Open tgt t))"
| other: "opening_run s ids t \<Longrightarrow> session_step t u \<Longrightarrow> nextID u = nextID t \<Longrightarrow> opening_run s ids u"

lemma nextID_Open: "\<not> closed s \<Longrightarrow> nextID (snd (Open t s)) = nextID s + 2"
  by (cases rule: Open_cases [of s t]) auto

text \<open>Every step is one of the two.\<close>

lemma session_step_nextID:
  "session_step s u \<Longrightarrow> nextID u = nextID s
    \<or> (\<exists>tgt. \<not> closed s \<and> u = snd (Open tgt s) \<and> length (AppendTarget [] tgt) < 2 ^ 32)"
proof (induction rule: session_step.induct)
  case (open_stream t s)
  then show ?case by (cases "closed s") (auto simp: Open_def)
qed (simp_all add: nextID_ops PingPayload_def readLoop_error_def Close_def)

lemma opening_run_complete: "session_step\<^sup>*\<^sup>* s t \<Longrightarrow> \<exists>ids. opening_run s ids t"
proof (induction rule: rtranclp_induct)
  case base
  show ?case using start by blast
next
  case (step t u)
  then obtain ids where "opening_run s ids t" by blast
  with session_step_nextID [OF step.hyps(2)] step.hyps(2) show ?case
    by (blast intro: an_open other)
qed

lemma opening_run_ids:
  "opening_run s ids t \<Longrightarrow> ids = map (\<lambda>k. nextID s + 2 * of_nat k) [0..<length ids]
    \<and> nextID t = nextID s + 2 * of_nat (length ids)"
  by (induction rule: opening_run.induct) (auto simp: nextID_Open algebra_simps)

lemma double_of_nat_inj:
  assumes "2 * of_nat j = (2 * of_nat k :: u32)" and "j < 2 ^ 31" and "k < 2 ^ 31"
  shows "j = k"
proof -
  have "of_nat (2 * j) = (of_nat (2 * k) :: u32)" using assms(1) by simp
  then have "2 * j mod 2 ^ LENGTH(32) = 2 * k mod 2 ^ LENGTH(32)"
    by (metis unat_of_nat)
  then show ?thesis using assms(2,3) by simp
qed

lemma opening_run_distinct:
  assumes "opening_run s ids t" and "length ids \<le> 2 ^ 31"
  shows "distinct ids"
proof -
  have ids: "ids = map (\<lambda>k. nextID s + 2 * of_nat k) [0..<length ids]"
    using opening_run_ids [OF assms(1)] by blast
  have "inj_on (\<lambda>k. nextID s + 2 * of_nat k) (set [0..<length ids])"
    using assms(2) by (auto intro!: inj_onI intro: double_of_nat_inj)
  then have "distinct (map (\<lambda>k. nextID s + 2 * of_nat k) [0..<length ids])"
    by (simp add: distinct_map)
  with ids show ?thesis by simp
qed

lemma odd_plus_double: "odd (unat ((x :: u32) + 2 * of_nat k)) = odd (unat x)"
proof (induction k)
  case (Suc k)
  have "x + 2 * of_nat (Suc k) = (x + 2 * of_nat k) + 2" by (simp add: algebra_simps)
  with Suc odd_plus_2 show ?case by metis
qed simp

end
