(* ===== verification/Session_Behaviour.thy ===== *)
theory Session_Behaviour
  imports Session_Facts
begin

unbundle bit_operations_syntax

text \<open>
  The behaviour of the session's operations: an inbound frame touches only the stream it names,
  \<open>Write\<close> frames exactly the bytes the window allows and always returns, the receive loop
  handles exactly the frames the bytes encode and always returns, and what \<open>Close\<close> and a reset
  leave to readers and writers.
\<close>

section \<open>An inbound frame touches one stream\<close>

lemma upd_stream_fields [simp]:
  "cfg (upd_stream a g s) = cfg s" "streams (upd_stream a g s) = streams s"
  "conn (upd_stream a g s) = conn s" "closed (upd_stream a g s) = closed s"
  "nextID (upd_stream a g s) = nextID s" "acceptCh (upd_stream a g s) = acceptCh s"
  "heap (upd_stream a g s) = (heap s)[a := g (heap s ! a)]"
  by (simp_all add: upd_stream_def)

lemma removeStream_fields [simp]:
  "cfg (removeStream i s) = cfg s" "streams (removeStream i s) = (streams s)(i := None)"
  "conn (removeStream i s) = conn s" "closed (removeStream i s) = closed s"
  "heap (removeStream i s) = heap s"
  by (simp_all add: removeStream_def)

lemma resetStream_streams: "streams (resetStream i s) = (streams s)(i := None)"
  by (simp add: resetStream_def split: option.split)

definition same_others :: "u32 \<Rightarrow> session \<Rightarrow> session \<Rightarrow> bool" where
  "same_others i s t \<longleftrightarrow>
     (\<forall>a. a < length (heap s) \<longrightarrow> sid (heap s ! a) \<noteq> i \<longrightarrow> heap t ! a = heap s ! a) \<and>
     (\<forall>j. j \<noteq> i \<longrightarrow> streams t j = streams s j)"

lemma same_others_refl [simp]: "same_others i s s"
  by (simp add: same_others_def)

lemma same_others_writeFrame [simp]: "same_others i s (snd (writeFrame f t)) = same_others i s t"
  by (simp add: same_others_def)

lemma same_others_upd:
  "sess_inv s \<Longrightarrow> streams s i = Some a \<Longrightarrow> same_others i s (upd_stream a g s)"
  using table_okD [of s i a] by (auto simp: same_others_def nth_list_update')

lemma same_others_remove [simp]: "same_others i s t \<Longrightarrow> same_others i s (removeStream i t)"
  by (simp add: same_others_def)

lemma same_others_reset: "sess_inv s \<Longrightarrow> same_others i s (resetStream i s)"
  using table_okD [of s i]
  by (auto simp: resetStream_def same_others_def nth_list_update' split: option.split)

lemma same_others_handleSYN:
  assumes "sess_inv s"
  shows "same_others (StreamID f) s (snd (handleSYN f s))"
  by (auto simp: handleSYN_def abortStream_def Let_def same_others_def nth_append resetStream_def
      nth_list_update' upd_stream_def removeStream_def split: sum.split)

lemma same_others_handleFIN:
  assumes "sess_inv s"
  shows "same_others i s (handleFIN i s)"
proof (cases "streams s i")
  case (Some a)
  from table_okD [OF assms Some] same_others_upd [OF assms Some] Some show ?thesis
    by (simp add: handleFIN_def remoteClosed_def Let_def)
qed (simp add: handleFIN_def)

lemma same_others_handleFrame:
  assumes "sess_inv s"
  shows "same_others (StreamID f) s (snd (handleFrame f s))"
  using assms
  by (auto simp: handleFrame_def same_others_handleFIN abortStream_def
      same_others_handleSYN same_others_reset same_others_upd split: option.split prod.split)

section \<open>Write\<close>

fun data_chunks :: "nat \<Rightarrow> bytes \<Rightarrow> bytes list" where
  "data_chunks m p = (if p = [] \<or> m = 0 then [] else take m p # data_chunks m (drop m p))"

declare data_chunks.simps [simp del]

lemma concat_data_chunks: "0 < m \<Longrightarrow> concat (data_chunks m p) = p"
  by (induction m p rule: data_chunks.induct) (subst data_chunks.simps, auto)

lemma data_chunks_length: "c \<in> set (data_chunks m p) \<Longrightarrow> 0 < length c \<and> length c \<le> m"
  by (induction m p rule: data_chunks.induct)
    (subst (asm) (2) data_chunks.simps, auto split: if_splits)

text \<open>The state of a session whose stream \<open>a\<close> became \<open>st\<close> and that wrote \<open>bs\<close>.\<close>

definition after_write :: "nat \<Rightarrow> stream \<Rightarrow> bytes \<Rightarrow> session \<Rightarrow> session" where
  "after_write a st bs s =
     s\<lparr>heap := (heap s)[a := st], conn := (conn s)\<lparr>wbytes := wbytes (conn s) @ bs\<rparr>\<rparr>"

lemma after_write_after [simp]:
  "after_write a st' bs' (after_write a st bs s) = after_write a st' (bs @ bs') s"
  by (simp add: after_write_def)

lemma after_write_fields [simp]:
  "cfg (after_write a st bs s) = cfg s" "closed (after_write a st bs s) = closed s"
  "wok (conn (after_write a st bs s)) = wok (conn s)"
  "a < length (heap s) \<Longrightarrow> heap (after_write a st bs s) ! a = st"
  "length (heap (after_write a st bs s)) = length (heap s)"
  by (simp_all add: after_write_def)

definition data_frames :: "u32 \<Rightarrow> nat \<Rightarrow> bytes \<Rightarrow> frame list" where
  "data_frames i m p = map (mk_frame FlagDATA i) (data_chunks m p)"

text \<open>Where \<open>Write\<close> stops once the window is used up.\<close>

definition write_stop :: "stream \<Rightarrow> nat \<Rightarrow> write_result" where
  "write_stop st k =
     (if sclosed st then WriteFailed k ErrSessionClosed
      else if finSent st then WriteFailed k ErrStreamWriteClosed
      else WriteBlocked k)"

lemma Write_round_progress:
  assumes "\<not> closed s" "wok (conn s)" "a < length (heap s)" "\<not> reset (heap s ! a)"
    and "sendWin (heap s ! a) = int w" "0 < w" "tot < length p" "0 < MaxFramePayload (cfg s)"
  defines "n \<equiv> min (min (length p - tot) w) (unat (MaxFramePayload (cfg s)))"
  shows "Write_round a p tot s = (Continue (tot + n),
      after_write a ((heap s ! a)\<lparr>sendWin := int (w - n)\<rparr>)
        (encode_frame (mk_frame FlagDATA (sid (heap s ! a)) (take n (drop tot p)))) s) \<and> 0 < n"
proof -
  have n: "0 < n" "n \<le> w" "n \<le> unat (MaxFramePayload (cfg s))"
    using assms(6-8) by (auto simp: n_def word_less_nat_alt)
  have "Write_locked (MaxFramePayload (cfg s)) (length p - tot) (heap s ! a)
      = (WriteChunk n, (heap s ! a)\<lparr>sendWin := int w - int n\<rparr>)"
    using assms(4-7) n
    by (auto simp: Write_locked_def Let_def n_def min_def simp del: of_nat_unat)
  then show ?thesis
    using assms(1,2) n
    by (auto simp: Write_round_def writeFrame_ok after_write_def upd_stream_def
        intro: le_trans [OF _ n(3)])
qed

lemma Write_loop_result:
  assumes "\<not> closed s" "wok (conn s)" "a < length (heap s)" "\<not> reset (heap s ! a)"
    and "sendWin (heap s ! a) = int w" "0 < MaxFramePayload (cfg s)" "tot \<le> length p"
  shows "Write_loop a p tot s =
    Some (if length p - tot \<le> w then Written (length p) else write_stop (heap s ! a) (tot + w),
      after_write a ((heap s ! a)\<lparr>sendWin := int (w - (length p - tot))\<rparr>)
        (concat (map encode_frame
          (data_frames (sid (heap s ! a)) (unat (MaxFramePayload (cfg s)))
            (take w (drop tot p))))) s)"
  using assms
proof (induction "length p - tot" arbitrary: tot s w rule: less_induct)
  case less
  let ?st = "heap s ! a" and ?m = "unat (MaxFramePayload (cfg s))"
  consider (finished) "tot = length p" | (blocked) "tot < length p" "w = 0"
    | (round) "tot < length p" "0 < w"
    using less.prems(7) by linarith
  then show ?case
  proof cases
    case finished
    have "after_write a (?st\<lparr>sendWin := int w\<rparr>) [] s = s"
      using less.prems(3,5) by (simp add: after_write_def flip: less.prems(5))
    with finished show ?thesis
      by (simp add: Write_loop.simps data_frames_def data_chunks.simps)
  next
    case blocked
    have "?st\<lparr>sendWin := 0\<rparr> = ?st" using less.prems(5) blocked by (cases ?st) simp
    then have "after_write a (?st\<lparr>sendWin := 0\<rparr>) [] s = s"
      by (simp add: after_write_def)
    with blocked less.prems show ?thesis
      by (simp add: Write_loop.simps [of a p tot s] data_frames_def data_chunks.simps
          Write_round_def Write_locked_def write_stop_def)
  next
    case round
    define n where "n = min (min (length p - tot) w) ?m"
    define s1 where "s1 = after_write a (?st\<lparr>sendWin := int (w - n)\<rparr>)
        (encode_frame (mk_frame FlagDATA (sid ?st) (take n (drop tot p)))) s"
    have step: "Write_round a p tot s = (Continue (tot + n), s1)" and "0 < n"
      using Write_round_progress [OF less.prems(1-5) round(2,1) less.prems(6)]
      by (auto simp: n_def s1_def)
    have st1: "heap s1 ! a = ?st\<lparr>sendWin := int (w - n)\<rparr>"
      using less.prems(3) by (simp add: s1_def)
    have le: "n \<le> length p - tot" "n \<le> w" "n \<le> ?m" by (auto simp: n_def)
    have ih: "Write_loop a p (tot + n) s1 =
      Some (if length p - (tot + n) \<le> w - n then Written (length p)
            else write_stop (heap s1 ! a) (tot + n + (w - n)),
        after_write a ((heap s1 ! a)\<lparr>sendWin := int (w - n - (length p - (tot + n)))\<rparr>)
          (concat (map encode_frame
            (data_frames (sid (heap s1 ! a)) (unat (MaxFramePayload (cfg s1)))
              (take (w - n) (drop (tot + n) p))))) s1)"
      by (rule less.hyps) (use less.prems round \<open>0 < n\<close> le st1 in \<open>auto simp: s1_def\<close>)
    have chunks: "data_chunks ?m (take w (drop tot p))
        = take n (drop tot p) # data_chunks ?m (take (w - n) (drop (tot + n) p))"
    proof -
      have "take ?m (take w (drop tot p)) = take n (drop tot p)"
        using take_min_length [of "drop tot p" "min w ?m"]
        by (simp add: n_def ac_simps)
      moreover have "drop ?m (take w (drop tot p)) = take (w - n) (drop (tot + n) p)"
      proof (cases "n = ?m")
        case True
        then show ?thesis by (simp add: drop_take add.commute)
      next
        case False
        then have "n = min (length p - tot) w" "min (length p - tot) w < ?m" using le
          by (auto simp: n_def)
        then show ?thesis by (auto simp: min_def split: if_splits)
      qed
      ultimately show ?thesis
        using round \<open>0 < n\<close> le by (subst data_chunks.simps) auto
    qed
    have fits: "length p - (tot + n) \<le> w - n \<longleftrightarrow> length p - tot \<le> w"
      using le(1,2) by linarith
    show ?thesis
      using round(1) ih le unfolding Write_loop.simps [of a p tot s] fits
      by (simp add: step st1 s1_def [symmetric] data_frames_def chunks write_stop_def)
        (simp add: s1_def data_frames_def diff_diff_add)
  qed
qed

section \<open>The receive loop\<close>

lemma closeWithError_closed: "sess_inv s \<Longrightarrow> closed (closeWithError c s)"
  by (simp add: closeWithError_def Let_def wake_all_def sess_inv_def life_ok_def)

text \<open>The frames handled one after the other, until one of them ends the session.\<close>

fun handle_frames :: "(nat \<Rightarrow> int) \<Rightarrow> nat \<Rightarrow> frame list \<Rightarrow> session \<Rightarrow> bool \<times> session" where
  "handle_frames clk k [] s = (True, s)"
| "handle_frames clk k (f # fs) s =
     (case readLoop_frame (clk k) f s of
        (continue, s') \<Rightarrow> if continue then handle_frames clk (Suc k) fs s' else (False, s'))"

lemma cfg_closeWithError [simp]: "cfg (closeWithError c s) = cfg s"
  by (simp add: closeWithError_def Let_def wake_all_def)

lemma cfg_handleFrame [simp]: "cfg (snd (handleFrame f s)) = cfg s"
  by (auto simp: handleFrame_def handleSYN_def handleFIN_def remoteClosed_def Let_def
      abortStream_def resetStream_def split: option.split prod.split sum.split)

lemma cfg_readLoop_frame: "readLoop_frame now f s = (c, s') \<Longrightarrow> cfg s' = cfg s"
  using cfg_handleFrame [of f "s\<lparr>lastRecv := now\<rparr>"]
  by (auto simp: readLoop_frame_def simp del: cfg_handleFrame split: prod.splits option.splits)

context byte_reader
begin

lemma readLoop_frames:
  assumes "good r" and "content r = concat (map encode_frame fs)"
    and "\<forall>f\<in>set fs. wellformed (MaxFramePayload (cfg s)) f"
  shows "\<exists>r'. readLoop rd clk k s r =
    Some (case handle_frames clk k fs s of
            (continue, s') \<Rightarrow> if continue then readLoop_error s' else s', r')"
  using assms
proof (induction fs arbitrary: k s r)
  case Nil
  then have "length (content r) < HeaderSize" by (simp add: HeaderSize_def)
  from io_ReadFull_short [OF Nil.prems(1) this] show ?case
    by (auto simp: readLoop.simps ReadFrame_def)
next
  case (Cons f fs)
  from ReadFrame_encoded [OF Cons.prems(1), of f "concat (map encode_frame fs)"] Cons.prems
  obtain r' where r': "ReadFrame rd (MaxFramePayload (cfg s)) r = Some (Inr f, r')" "good r'"
      "content r' = concat (map encode_frame fs)"
    by auto
  show ?case
  proof (cases "readLoop_frame (clk k) f s")
    case (Pair c s')
    from cfg_readLoop_frame [OF this] Cons.prems(3) Cons.IH [OF r'(2,3), of s' "Suc k"]
    show ?thesis using r'(1) Pair by (auto simp: readLoop.simps [of rd clk k s r])
  qed
qed

text \<open>On any finite input, well formed or not, the loop comes to an end, with the session closed.\<close>

lemma readLoop_closes:
  "good r \<Longrightarrow> sess_inv s \<Longrightarrow> \<exists>s' r'. readLoop rd clk k s r = Some (s', r') \<and> closed s' \<and> sess_inv s'"
proof (induction "length (content r)" arbitrary: k s r rule: less_induct)
  case less
  from ReadFrame_returns [OF less.prems(1), of "MaxFramePayload (cfg s)"] obtain x r' where
    r': "ReadFrame rd (MaxFramePayload (cfg s)) r = Some (x, r')" by blast
  show ?case
  proof (cases x)
    case (Inl e)
    with r' less.prems(2) show ?thesis
      by (simp add: readLoop.simps readLoop_error_def closeWithError_inv closeWithError_closed)
  next
    case (Inr f)
    with ReadFrame_accepts [OF less.prems(1), of "MaxFramePayload (cfg s)" f r'] r'
    have r: "wellformed (MaxFramePayload (cfg s)) f" "good r'"
        "length (content r') < length (content r)"
      by (simp_all add: HeaderSize_def)
    obtain c s1 where s1: "readLoop_frame (clk k) f s = (c, s1)" by fastforce
    with readLoop_frame_inv [OF less.prems(2) r(1), of "clk k"] have "sess_inv s1" by simp
    moreover have "\<not> c \<Longrightarrow> closed s1"
      using s1 handleFrame_inv [of "s\<lparr>lastRecv := clk k\<rparr>" f] less.prems(2) r(1)
      by (auto simp: readLoop_frame_def closeWithError_inv closeWithError_closed
          split: prod.splits option.splits)
    ultimately show ?thesis
      using less.hyps [OF r(3,2), of s1 "Suc k"] r' Inr s1
      by (simp add: readLoop.simps [of rd clk k s r])
  qed
qed

end

section \<open>Closing a session\<close>

lemma Close_effect:
  fixes s :: session and cause :: bool
  assumes "sess_inv s" and "\<not> closed s"
  defines "t \<equiv> closeWithError cause s"
  shows "closed t" "done_ch t" "streams t = Map.empty" "\<not> wok (conn t)"
    "streams s i = Some a \<Longrightarrow> sclosed (heap t ! a)"
    "length (heap t) = length (heap s)" "acceptCh t = acceptCh s"
proof -
  have once: "\<not> closeOnce s" using assms(1,2) by (simp add: sess_inv_def life_ok_def)
  show "closed t" "done_ch t" "streams t = Map.empty" "\<not> wok (conn t)"
    "length (heap t) = length (heap s)" "acceptCh t = acceptCh s"
    using once by (simp_all add: t_def closeWithError_def Let_def wake_all_def)
  show "streams s i = Some a \<Longrightarrow> sclosed (heap t ! a)"
    using once table_okD [OF assms(1), of i a]
    by (auto simp: t_def closeWithError_def Let_def wake_all_def sessionClosed_def intro: ranI)
qed

lemma Close_wire:
  assumes "sess_inv s" and "\<not> closed s" and "wok (conn s)"
  shows "wbytes (conn (closeWithError cause s)) = wbytes (conn s) @
    encode_frame (mk_frame FlagGOAWAY 0 [if cause then ReasonProtocol else ReasonNormal])"
proof -
  have "0 < unat (MaxFramePayload (cfg s))" "\<not> closeOnce s"
    using assms(1,2) by (auto simp: sess_inv_def limits_ok_def life_ok_def word_less_nat_alt)
  with assms(2,3) show ?thesis
    by (simp add: closeWithError_def Let_def wake_all_def writeFrame_ok)
qed

lemma closed_writeFrame: "closed s \<Longrightarrow> writeFrame f s = (Some ErrSessionClosed, s)"
  by (simp add: writeFrame_def)

lemma closed_closeWithError: "sess_inv s \<Longrightarrow> closed s \<Longrightarrow> closeWithError c s = s"
  by (simp add: closeWithError_def sess_inv_def life_ok_def)

lemma Read_locked_closed:
  "sclosed st \<Longrightarrow> fst (Read_locked n st) \<noteq> ReadBlock"
  by (simp add: Read_locked_block_iff)

lemma Write_round_closed:
  assumes "closed s" and "sclosed (heap s ! a)" and "0 \<le> sendWin (heap s ! a)"
  shows "\<exists>e s'. Write_round a p tot s = (Stop (WriteFailed tot e), s') \<and> conn s' = conn s"
proof (cases "Write_locked (MaxFramePayload (cfg s)) (length p - tot) (heap s ! a)")
  case (Pair out st)
  with assms(2,3) Write_locked_block_iff [of "MaxFramePayload (cfg s)" "length p - tot" "heap s ! a"]
    Write_locked_no_panic [of "heap s ! a" "MaxFramePayload (cfg s)" "length p - tot"]
  show ?thesis using assms(1)
    by (cases out) (auto simp: Write_round_def closed_writeFrame upd_stream_def)
qed

section \<open>Reset streams\<close>

lemma resetStream_stream:
  assumes "sess_inv s" and "streams s i = Some a"
  shows "streams (resetStream i s) i = None"
    "heap (resetStream i s) ! a = remoteReset (heap s ! a)"
  using table_okD [OF assms] assms(2)
  by (simp_all add: resetStream_def)

lemma Read_locked_reset:
  "reset st \<Longrightarrow> buf st = [] \<Longrightarrow> Read_locked n st = (ReadErr ErrStreamReset, st)"
  by (simp add: Read_locked_def)

lemma Write_locked_reset:
  "reset st \<Longrightarrow> Write_locked m r st = (WriteErr ErrStreamReset, st)"
  by (simp add: Write_locked_def)

end
