(* ===== verification/Flow.thy ===== *)
theory Flow
  imports Session_Behaviour
begin

unbundle bit_operations_syntax

text \<open>
  Flow control between the two ends of a stream: one direction, from the stream that writes to
  the stream that reads. The link is the two \<open>Stream\<close> objects and everything on its way between
  them: the chunk a Write has taken from the window and not yet written, the DATA payloads in
  flight, the credits a Read has computed and not yet sent, and the WIN credits in flight. The
  steps are the critical sections of stream.go (\<open>Write_locked\<close>, \<open>pushData\<close>, \<open>Read_locked\<close>,
  \<open>addSendWindow\<close>) with the transport in between; \<open>wrote\<close> and \<open>got\<close> record the bytes the writer
  has put in and the reader has taken out. One goroutine writes; any number may read credits out
  of order. The machine \<open>flow\<close> shows that the window is never exceeded and nothing is lost, and
  that every link can drain.
\<close>

record link =
  tx :: stream
  rx :: stream
  frameMax :: u32
  txWindow :: u32
  window :: u32
  hold :: bytes
  dataQ :: "bytes list"
  owed :: "u32 list"
  winQ :: "u32 list"
  broken :: bool
  wrote :: bytes
  got :: bytes

text \<open>
  A fresh link: the writer starts with its own initial window as send window, the reader checks
  against its own (\<open>Open\<close> and \<open>handleSYN\<close>).
\<close>

definition new_link :: "u32 \<Rightarrow> target \<Rightarrow> u32 \<Rightarrow> u32 \<Rightarrow> u32 \<Rightarrow> link" where
  "new_link i t m v w =
     \<lparr>tx = newStream i t (uint v), rx = newStream i t (uint w), frameMax = m,
      txWindow = v, window = w, hold = [], dataQ = [], owed = [], winQ = [], broken = False,
      wrote = [], got = []\<rparr>"

definition fresh_link :: "link \<Rightarrow> bool" where
  "fresh_link l \<longleftrightarrow> (\<exists>i t m v w. v \<le> w \<and> 0 < m \<and> l = new_link i t m v w)"

inductive flow_step :: "link \<Rightarrow> link \<Rightarrow> bool" where
  reserve: "hold l = [] \<Longrightarrow> p \<noteq> [] \<Longrightarrow> Write_locked (frameMax l) (length p) (tx l) = (WriteChunk n, st) \<Longrightarrow>
    flow_step l (l\<lparr>tx := st, hold := take n p, wrote := wrote l @ take n p\<rparr>)"
| emit: "hold l \<noteq> [] \<Longrightarrow> flow_step l (l\<lparr>hold := [], dataQ := dataQ l @ [hold l]\<rparr>)"
| deliver: "dataQ l = d # q \<Longrightarrow> pushData (window l) d (rx l) = (e, st) \<Longrightarrow>
    flow_step l (l\<lparr>rx := st, dataQ := q, broken := (e \<noteq> None)\<rparr>)"
| read_data: "0 < n \<Longrightarrow> Read_locked n (rx l) = (ReadData xs u, st) \<Longrightarrow>
    flow_step l (l\<lparr>rx := st, owed := owed l @ [u], got := got l @ xs\<rparr>)"
| credit: "owed l = us @ u # vs \<Longrightarrow> flow_step l (l\<lparr>owed := us @ vs, winQ := winQ l @ [u]\<rparr>)"
| grant: "winQ l = c # q \<Longrightarrow>
    flow_step l (l\<lparr>tx := addSendWindow (uint (get_u32 (put_u32 c))) (tx l), winQ := q\<rparr>)"

section \<open>The window is conserved\<close>

definition in_flight :: "link \<Rightarrow> nat" where
  "in_flight l = length (hold l) + length (concat (dataQ l)) + length (buf (rx l))
     + sum_list (map unat (owed l)) + sum_list (map unat (winQ l))"

definition flow_inv :: "link \<Rightarrow> bool" where
  "flow_inv l \<longleftrightarrow>
     sendWin (tx l) + int (in_flight l) = int (unat (txWindow l)) \<and> txWindow l \<le> window l \<and>
     0 \<le> sendWin (tx l) \<and> \<not> reset (tx l) \<and> recvUnacked (rx l) = 0 \<and> \<not> broken l \<and>
     wrote l = got l @ buf (rx l) @ concat (dataQ l) @ hold l"

lemma flow_invD:
  assumes "flow_inv l"
  shows "0 \<le> sendWin (tx l)" "sendWin (tx l) + int (in_flight l) \<le> int (unat (window l))"
    "sendWin (tx l) + int (in_flight l) < 2 ^ 32"
    "recvUnacked (rx l) = 0" "\<not> broken l" "\<not> reset (tx l)"
    "wrote l = got l @ buf (rx l) @ concat (dataQ l) @ hold l"
  using assms unat_u32_bound [of "window l"]
  by (auto simp: flow_inv_def word_le_nat_alt simp del: of_nat_unat)

lemma flow_inv_fresh: "fresh_link l \<Longrightarrow> flow_inv l"
  by (auto simp: fresh_link_def flow_inv_def new_link_def in_flight_def newStream_def word_le_nat_alt)

text \<open>A step that moves bytes along the link keeps the sum.\<close>

lemma flow_inv_move:
  assumes "flow_inv l" and "window l' = window l" "txWindow l' = txWindow l"
    and "sendWin (tx l') + int (in_flight l') = sendWin (tx l) + int (in_flight l)"
    and "0 \<le> sendWin (tx l')" "\<not> reset (tx l')" "recvUnacked (rx l') = 0" "\<not> broken l'"
    and "wrote l' = got l' @ buf (rx l') @ concat (dataQ l') @ hold l'"
  shows "flow_inv l'"
  using assms by (simp add: flow_inv_def)

lemma flow_step_inv: "flow_step l l' \<Longrightarrow> flow_inv l \<Longrightarrow> flow_inv l'"
proof (induction rule: flow_step.induct)
  case (reserve l p n st)
  note inv = flow_invD [OF reserve.prems]
  from Write_locked_chunk [OF reserve.hyps(3)] reserve.hyps(1) inv show ?case
    by (intro flow_inv_move [OF reserve.prems]) (auto simp: in_flight_def)
next
  case (emit l)
  from flow_invD [OF emit.prems] emit.prems show ?case
    by (intro flow_inv_move [OF emit.prems]) (auto simp: in_flight_def)
next
  case (deliver l d q e st)
  note inv = flow_invD [OF deliver.prems]
  have "length (buf (rx l)) + length d \<le> unat (window l)"
    using inv(1,2) deliver.hyps(1) by (simp add: in_flight_def del: of_nat_unat)
  from pushData_accepts [OF this] deliver.hyps have "e = None" "st = (rx l)\<lparr>buf := buf (rx l) @ d\<rparr>"
    by simp_all
  with inv deliver.hyps(1) show ?case
    by (intro flow_inv_move [OF deliver.prems]) (auto simp: in_flight_def)
next
  case (read_data n l xs u st)
  note inv = flow_invD [OF read_data.prems]
  have "length (buf (rx l)) < 2 ^ 32" using inv(1,3) by (simp add: in_flight_def)
  note rd = Read_locked_data [OF read_data.hyps(2) inv(4) this]
  from rd have "length (buf (rx l)) = length xs + length (buf st)" "buf (rx l) = xs @ buf st"
    "unat u = length xs" "recvUnacked st = 0"
    by (metis length_append, blast+)
  with inv show ?case
    by (intro flow_inv_move [OF read_data.prems]) (auto simp: in_flight_def)
next
  case (credit l us u vs)
  from flow_invD [OF credit.prems] credit show ?case
    by (intro flow_inv_move [OF credit.prems]) (auto simp: in_flight_def)
next
  case (grant l c q)
  note inv = flow_invD [OF grant.prems]
  have "sendWin (tx l) + uint c < 2 ^ 63"
    using inv(1,3) grant.hyps by (simp add: in_flight_def)
  with inv grant.hyps show ?case
    by (intro flow_inv_move [OF grant.prems]) (auto simp: in_flight_def addSendWindow_small)
qed

section \<open>Every link can drain\<close>

definition drained :: "link \<Rightarrow> bool" where
  "drained l \<longleftrightarrow> hold l = [] \<and> dataQ l = [] \<and> buf (rx l) = [] \<and> owed l = [] \<and> winQ l = []"

definition flow_rank :: "link \<Rightarrow> nat" where
  "flow_rank l = 6 * length (hold l) + 4 * length (concat (dataQ l)) + length (dataQ l)
     + 3 * length (buf (rx l)) + 2 * length (owed l) + length (winQ l)"

lemma flow_progress:
  assumes "flow_inv l" and "\<not> drained l"
  shows "\<exists>l'. flow_step l l' \<and> flow_rank l' < flow_rank l"
proof -
  consider "hold l \<noteq> []" | d q where "dataQ l = d # q" | "buf (rx l) \<noteq> []"
    | us u vs where "owed l = us @ u # vs" | c q where "winQ l = c # q"
    using assms(2) unfolding drained_def by (metis append_Nil list.exhaust)
  then show ?thesis
  proof cases
    case 1
    with emit [OF 1] show ?thesis
      by (intro exI) (auto simp: flow_rank_def neq_Nil_conv)
  next
    case 2
    obtain e st where st: "pushData (window l) d (rx l) = (e, st)" by fastforce
    then have "length (buf st) \<le> length (buf (rx l)) + length d"
      by (auto simp: pushData_def split: if_splits)
    with deliver [OF 2 st] 2 show ?thesis
      by (intro exI) (auto simp: flow_rank_def)
  next
    case 3
    define n where "n = length (buf (rx l))"
    have n: "0 < n" "2 < 3 * n" using 3 by (auto simp: n_def neq_Nil_conv)
    have "Read_locked n (rx l) = (ReadData (buf (rx l)) (recvUnacked (rx l) + of_nat n),
        (rx l)\<lparr>buf := [], recvUnacked := 0\<rparr>)"
      using 3 by (simp add: Read_locked_def n_def)
    from read_data [OF n(1) this] n(2) show ?thesis
      by (intro exI) (auto simp: flow_rank_def n_def)
  next
    case 4
    with credit [OF 4] show ?thesis
      by (intro exI) (auto simp: flow_rank_def)
  next
    case 5
    with grant [OF 5] show ?thesis
      by (intro exI) (auto simp: flow_rank_def addSendWindow_def)
  qed
qed

interpretation flow: draining_machine fresh_link flow_step flow_inv drained flow_rank
  by unfold_locales (auto intro: flow_inv_fresh flow_step_inv flow_progress)

lemma drained_window:
  "flow_inv l \<Longrightarrow> drained l \<Longrightarrow> got l = wrote l \<and> sendWin (tx l) = uint (txWindow l)"
  by (auto simp: drained_def flow_inv_def in_flight_def)

text \<open>A run keeps the parameters of the link, and what was written or read stays so.\<close>

lemma flow_steps_grow:
  "flow_step\<^sup>*\<^sup>* l l' \<Longrightarrow> txWindow l' = txWindow l \<and> window l' = window l
    \<and> (\<exists>bs. wrote l' = wrote l @ bs) \<and> (\<exists>bs. got l' = got l @ bs)"
proof (induction rule: rtranclp_induct)
  case (step l' l'')
  from step.hyps(2) have "txWindow l'' = txWindow l' \<and> window l'' = window l'
    \<and> (\<exists>bs. wrote l'' = wrote l' @ bs) \<and> (\<exists>bs. got l'' = got l' @ bs)"
    by (cases rule: flow_step.cases) auto
  with step.IH show ?case by (metis append.assoc)
qed simp

end
