(* ===== verification/Flow_Properties.thy ===== *)
theory Flow_Properties
  imports Flow
begin

unbundle bit_operations_syntax

text \<open>
  The properties of flow control, from the interpretation \<open>flow\<close> of the draining machine: the
  window is never exceeded, the reader gets the writer's bytes in order, a link can always
  drain, and ends whose initial windows differ the wrong way break the session.
\<close>

lemma new_link_fresh: "v \<le> w \<Longrightarrow> 0 < m \<Longrightarrow> fresh_link (new_link i t m v w)"
  unfolding fresh_link_def by blast

definition demo_link :: link where
  "demo_link = new_link 1 \<lparr>Network = 1, ATYP = 3, Address = [97], Port = 80\<rparr> 4 8 8"

lemma demo_link_fresh: "fresh_link demo_link"
  by (simp add: demo_link_def new_link_fresh)

definition demo_link2 :: link where
  "demo_link2 = demo_link\<lparr>tx := (tx demo_link)\<lparr>sendWin := 4\<rparr>, hold := [1, 2, 3, 4], wrote := [1, 2, 3, 4]\<rparr>"

lemma demo_link_step: "flow_step demo_link demo_link2"
proof -
  have "Write_locked (frameMax demo_link) (length [1, 2, 3, 4, 5 :: byte]) (tx demo_link)
      = (WriteChunk 4, (tx demo_link)\<lparr>sendWin := 4\<rparr>)"
    by (simp add: demo_link_def new_link_def newStream_def Write_locked_def)
  from reserve [OF _ _ this] show ?thesis
    by (simp add: demo_link2_def demo_link_def new_link_def)
qed

lemma demo_link_steps: "flow_step\<^sup>*\<^sup>* demo_link demo_link2"
  using demo_link_step by blast

text \<open>The receive window is never exceeded. Where the writer's initial window is at most the
  reader's, in every reachable state of the link the bytes and credits under way and the send
  window add up to the writer's initial window, and the next DATA frame to arrive is accepted.\<close>

lemma window_never_exceeded:
  assumes "fresh_link l" and "flow_step\<^sup>*\<^sup>* l l'"
  shows "sendWin (tx l') + int (in_flight l') = uint (txWindow l') \<and> 0 \<le> sendWin (tx l')
    \<and> \<not> broken l'
    \<and> (\<forall>d q. dataQ l' = d # q \<longrightarrow> fst (pushData (window l') d (rx l')) = None)"
proof -
  note inv = flow.invariant [OF assms]
  have "length (buf (rx l')) + length d \<le> unat (window l')" if "dataQ l' = d # q" for d q
    using flow_invD(1,2) [OF inv] that by (simp add: in_flight_def del: of_nat_unat)
  with inv show ?thesis
    by (auto simp: flow_inv_def pushData_accepts)
qed

lemma window_never_exceeded_example:
  "sendWin (tx demo_link2) + int (in_flight demo_link2) = 8 \<and> \<not> broken demo_link2"
  using window_never_exceeded [OF demo_link_fresh demo_link_steps]
  by (simp add: demo_link2_def demo_link_def new_link_def)

text \<open>The stream is a byte stream. In every reachable state of a link, what the reader has
  got, what its buffer holds, what is in flight and what the writer is about to send are, in this
  order, exactly the bytes the writer has taken: nothing is lost, doubled or reordered.\<close>

lemma stream_integrity:
  assumes "fresh_link l" and "flow_step\<^sup>*\<^sup>* l l'"
  shows "wrote l' = got l' @ buf (rx l') @ concat (dataQ l') @ hold l'"
  using flow_invD(7) [OF flow.invariant [OF assms]] .

lemma stream_integrity_example:
  "wrote demo_link2 = got demo_link2 @ buf (rx demo_link2) @ concat (dataQ demo_link2) @ hold demo_link2"
  by (rule stream_integrity [OF demo_link_fresh demo_link_steps])

text \<open>C4: No deadlock on the window. From every reachable state the link can run, by emitting,
  delivering, reading and returning credits, to a state where the reader has got every byte the
  writer had written and the send window is back at its initial size.\<close>

theorem link_drains:
  assumes "fresh_link l" and "flow_step\<^sup>*\<^sup>* l l'"
  shows "\<exists>u bs. flow_step\<^sup>*\<^sup>* l' u \<and> got u = wrote u \<and> wrote u = wrote l' @ bs
    \<and> sendWin (tx u) = uint (txWindow l) \<and> dataQ u = [] \<and> winQ u = []"
proof -
  from flow.drains [OF assms] obtain u where u: "flow_step\<^sup>*\<^sup>* l' u" "drained u" by blast
  have inv: "flow_inv u"
    using assms(2) u(1) by (intro flow.invariant [OF assms(1)]) (rule rtranclp_trans)
  from drained_window [OF inv u(2)] flow_steps_grow [OF u(1)] flow_steps_grow [OF assms(2)] u
  show ?thesis by (auto simp: drained_def)
qed

theorem link_drains_witness:
  "\<exists>u. flow_step\<^sup>*\<^sup>* demo_link2 u \<and> got u = wrote u \<and> sendWin (tx u) = 8"
  using link_drains [OF demo_link_fresh demo_link_steps]
  by (auto simp: demo_link_def new_link_def)

text \<open>A writer with too large a window, one byte at a time.\<close>

definition stuffed :: "link \<Rightarrow> nat \<Rightarrow> link" where
  "stuffed l k = l\<lparr>tx := (tx l)\<lparr>sendWin := sendWin (tx l) - int k\<rparr>,
     rx := (rx l)\<lparr>buf := replicate k 0\<rparr>, wrote := replicate k 0\<rparr>"

lemma stuff_step:
  fixes v w m i :: u32 and t :: target
  assumes "w < v" and "0 < m" and "k \<le> unat w"
  defines "l \<equiv> new_link i t m v w"
  shows "\<exists>l'. flow_step\<^sup>*\<^sup>* (stuffed l k) l' \<and> dataQ l' = [[0]]
    \<and> l' = (stuffed l (Suc k))\<lparr>dataQ := [[0]], rx := (rx l)\<lparr>buf := replicate k 0\<rparr>\<rparr>"
proof -
  have "int k < int (unat v)" using assms(1,3) by (simp add: word_less_nat_alt del: of_nat_unat)
  then have k: "int k < uint v" by simp
  have m: "1 \<le> uint m" using assms(2) by (simp add: word_less_def)
  have wr: "Write_locked (frameMax (stuffed l k)) (length [0 :: byte]) (tx (stuffed l k))
      = (WriteChunk 1, (tx l)\<lparr>sendWin := sendWin (tx l) - int (Suc k)\<rparr>)"
    using k m by (simp add: stuffed_def l_def new_link_def newStream_def Write_locked_def Let_def)
  have "hold (stuffed l k) = []" by (simp add: stuffed_def l_def new_link_def)
  from reserve [OF this _ wr] have "flow_step (stuffed l k)
      ((stuffed l (Suc k))\<lparr>hold := [0], rx := (rx l)\<lparr>buf := replicate k 0\<rparr>\<rparr>)"
    by (cases l) (simp add: stuffed_def replicate_append_same [symmetric] del: of_nat_Suc)
  moreover have "flow_step ((stuffed l (Suc k))\<lparr>hold := [0], rx := (rx l)\<lparr>buf := replicate k 0\<rparr>\<rparr>)
      ((stuffed l (Suc k))\<lparr>dataQ := [[0]], rx := (rx l)\<lparr>buf := replicate k 0\<rparr>\<rparr>)"
    using emit [of "(stuffed l (Suc k))\<lparr>hold := [0], rx := (rx l)\<lparr>buf := replicate k 0\<rparr>\<rparr>"]
    by (simp add: stuffed_def l_def new_link_def)
  ultimately show ?thesis by fastforce
qed

lemma stuff_steps:
  fixes v w m i :: u32 and t :: target
  assumes "w < v" and "0 < m"
  defines "l \<equiv> new_link i t m v w"
  shows "k \<le> unat w \<Longrightarrow> flow_step\<^sup>*\<^sup>* l (stuffed l k)"
proof (induction k)
  case 0
  have "stuffed l 0 = l" by (simp add: stuffed_def l_def new_link_def newStream_def)
  then show ?case by simp
next
  case (Suc k)
  from stuff_step [OF assms(1,2), of k i t, folded l_def] Suc.prems obtain l' where
    l': "flow_step\<^sup>*\<^sup>* (stuffed l k) l'" "dataQ l' = [[0]]"
      "l' = (stuffed l (Suc k))\<lparr>dataQ := [[0]], rx := (rx l)\<lparr>buf := replicate k 0\<rparr>\<rparr>"
    by auto
  have "pushData (window l') [0] (rx l') = (None, (rx l)\<lparr>buf := replicate (Suc k) 0\<rparr>)"
    using Suc.prems
    by (simp add: l'(3) pushData_accepts stuffed_def l_def new_link_def newStream_def
        replicate_append_same)
  from deliver [OF l'(2) this] have "flow_step l' (stuffed l (Suc k))"
    by (simp add: l'(3) stuffed_def l_def new_link_def)
  with Suc l'(1) show ?case by (meson Suc_leD rtranclp.simps rtranclp_trans)
qed

text \<open>The two ends must be configured with the same window. A stream starts with the local
  initial window as its send window, not the peer's; when the writer's is larger than the
  reader's, a writer that fills its window makes the reader report a window violation, which ends
  the session, although both ends follow the code.\<close>

lemma mismatched_windows_break:
  fixes v w m :: u32
  assumes "w < v" and "0 < m"
  shows "\<exists>l' d q. flow_step\<^sup>*\<^sup>* (new_link i t m v w) l' \<and> dataQ l' = d # q
    \<and> fst (pushData (window l') d (rx l')) = Some (ErrProtocol (WindowExceeded i))"
proof -
  let ?l = "new_link i t m v w"
  from stuff_step [OF assms order_refl, of i t] obtain l' where
    l': "flow_step\<^sup>*\<^sup>* (stuffed ?l (unat w)) l'" "dataQ l' = [[0]]"
      "l' = (stuffed ?l (Suc (unat w)))\<lparr>dataQ := [[0]], rx := (rx ?l)\<lparr>buf := replicate (unat w) 0\<rparr>\<rparr>"
    by auto
  have "fst (pushData (window l') [0] (rx l')) = Some (ErrProtocol (WindowExceeded i))"
    by (simp add: l'(3) pushData_def stuffed_def new_link_def newStream_def)
  moreover have "flow_step\<^sup>*\<^sup>* ?l l'"
    using stuff_steps [OF assms order_refl, of i t] l'(1) by (rule rtranclp_trans)
  ultimately show ?thesis using l'(2) by blast
qed

lemma mismatched_windows_break_example:
  "\<exists>l' d q. flow_step\<^sup>*\<^sup>* (new_link 1 \<lparr>Network = 1, ATYP = 3, Address = [97], Port = 80\<rparr> 4 8 2) l'
    \<and> dataQ l' = d # q
    \<and> fst (pushData (window l') d (rx l')) = Some (ErrProtocol (WindowExceeded 1))"
  by (rule mismatched_windows_break) simp_all

end
