(* ===== verification/Mux_Properties.thy ===== *)
theory Mux_Properties
  imports Session_Behaviour
begin

unbundle bit_operations_syntax

text \<open>
  The properties of the multiplexer, over the transport model of theory Byte_IO (any chunking of
  the byte stream) and over every state a session can reach. Each is a few steps over the lemmas
  of the components; a witness follows each property that has hypotheses.
\<close>

section \<open>The frame codec\<close>

context byte_reader
begin

lemma io_ReadFull_same:
  assumes "good s" and "good t" and "content s = content t"
  shows "\<exists>r s' t'. io_ReadFull rd n s = Some (r, s') \<and> io_ReadFull rd n t = Some (r, t')
    \<and> good s' \<and> good t' \<and> content s' = content t'"
proof (cases "n \<le> length (content s)")
  case True
  with io_ReadFull_full [OF assms(1), of n] io_ReadFull_full [OF assms(2), of n] assms(3)
  show ?thesis by auto
next
  case False
  with io_ReadFull_short [OF assms(1), of n] io_ReadFull_short [OF assms(2), of n] assms(3)
  show ?thesis by auto
qed

text \<open>What \<open>ReadFrame\<close> returns depends on the content alone.\<close>

lemma ReadFrame_same:
  assumes "good s" and "good t" and "content s = content t"
  shows "\<exists>r s' t'. ReadFrame rd m s = Some (r, s') \<and> ReadFrame rd m t = Some (r, t')
    \<and> content s' = content t'"
proof -
  from io_ReadFull_same [OF assms, of HeaderSize] obtain h s1 t1 where
    h: "io_ReadFull rd HeaderSize s = Some (h, s1)" "io_ReadFull rd HeaderSize t = Some (h, t1)"
      "good s1" "good t1" "content s1 = content t1"
    by blast
  show ?thesis
  proof (cases h)
    case (Inl e)
    with h show ?thesis by (simp add: ReadFrame_def)
  next
    case (Inr hdr)
    from io_ReadFull_same [OF h(3-5), of "unat (get_u32 (take 4 (drop 6 hdr)))"] obtain p s2 t2
      where p: "io_ReadFull rd (unat (get_u32 (take 4 (drop 6 hdr)))) s1 = Some (p, s2)"
        "io_ReadFull rd (unat (get_u32 (take 4 (drop 6 hdr)))) t1 = Some (p, t2)"
        "content s2 = content t2"
      by blast
    show ?thesis
      using h p Inr
      by (cases p) (auto simp: ReadFrame_def Let_def split: option.splits)
  qed
qed

end

text \<open>C5: Frame round trip. A valid frame that AppendFrame encodes is returned by ReadFrame from
  any byte stream that starts with the encoding, in whatever pieces the transport delivers it,
  and ReadFrame consumes exactly the encoding.\<close>

theorem frame_roundtrip:
  assumes "AppendFrame [] f m = (b, None)" and "validateFrame f = None"
    and "length (Payload f) < 2 ^ 32" and "concat cs = b @ rest"
  shows "\<exists>cs'. ReadFrame (src_read err) m cs = Some (Inr f, cs') \<and> concat cs' = rest"
proof -
  from assms(1,3) have "sendable m f" "b = encode_frame f"
    by (auto simp: AppendFrame_def sendable_def encode_frame_def len32_le_iff linorder_not_less
        split: if_splits)
  with assms src.ReadFrame_encoded [of cs f rest m err] show ?thesis
    by (auto simp: wellformed_def)
qed

definition demo_data :: frame where
  "demo_data = mk_frame FlagDATA 1 [7, 8]"

definition demo_data_bytes :: bytes where
  "demo_data_bytes = [1, 16, 0, 0, 0, 1, 0, 0, 0, 2, 7, 8]"

lemma demo_data_facts:
  "AppendFrame [] demo_data 64 = (demo_data_bytes, None)" "validateFrame demo_data = None"
  "length (Payload demo_data) < 2 ^ 32"
  by (simp_all add: demo_data_def demo_data_bytes_def AppendFrame_def frame_header_def len32_def
      put_u32_def mk_frame_def FlagDATA_def ProtocolVersion_def validateFrame_def has_flag_def
      flag_defs)

theorem frame_roundtrip_witness:
  "\<exists>cs'. ReadFrame (src_read EOF) 64 [[1, 16], [], [0, 0, 0, 1, 0, 0, 0, 2, 7], [8, 99]]
      = Some (Inr demo_data, cs') \<and> concat cs' = [99]"
  using frame_roundtrip [OF demo_data_facts(1-3), of "[[1, 16], [], [0, 0, 0, 1, 0, 0, 0, 2, 7], [8, 99]]"
      "[99]" EOF]
  by (simp add: demo_data_bytes_def)

text \<open>The decoder accepts only canonical encodings. A frame ReadFrame returns obeys the
  structural rules and fits the frame limit, and the bytes it consumed are what AppendFrame
  writes for that frame, so no two byte strings decode to the same frame.\<close>

lemma frame_canonical:
  assumes "ReadFrame (src_read err) m cs = Some (Inr f, cs')"
  shows "validateFrame f = None \<and> length (Payload f) \<le> unat m
    \<and> (\<exists>b. AppendFrame [] f m = (b, None) \<and> concat cs = b @ concat cs')"
  using src.ReadFrame_accepts [OF _ assms]
  by (auto simp: wellformed_def sendable_def)

lemma frame_canonical_example:
  "\<exists>f cs'. ReadFrame (src_read EOF) 64 [demo_data_bytes] = Some (Inr f, cs')
    \<and> length (Payload f) \<le> 64"
proof -
  obtain cs' where "ReadFrame (src_read EOF) 64 [demo_data_bytes] = Some (Inr demo_data, cs')"
    using src.ReadFrame_encoded [of "[demo_data_bytes]" demo_data "[]" 64 EOF]
    by (auto simp: demo_data_facts demo_data_bytes_def wellformed_def sendable_def encode_frame_def
        frame_header_def demo_data_def len32_def put_u32_def FlagDATA_def ProtocolVersion_def
        validate_mk_frame(5) [unfolded FlagDATA_def])
  with frame_canonical [OF this] show ?thesis by auto
qed

text \<open>Decoding is total and independent of chunking. On every byte stream, well formed or
  not, ReadFrame returns a frame or an error, and two streams with the same bytes give the same
  result and leave the same bytes, however they are cut.\<close>

lemma frame_chunking:
  assumes "concat cs = concat ds"
  shows "\<exists>r cs' ds'. ReadFrame (src_read err) m cs = Some (r, cs')
    \<and> ReadFrame (src_read err) m ds = Some (r, ds') \<and> concat cs' = concat ds'"
  using src.ReadFrame_same [of cs ds err m] assms by simp

lemma frame_chunking_example:
  "\<exists>r cs' ds'. ReadFrame (src_read EOF) 64 [[1, 2], [3]] = Some (r, cs')
    \<and> ReadFrame (src_read EOF) 64 [[1], [], [2, 3]] = Some (r, ds') \<and> concat cs' = concat ds'"
  using frame_chunking [of "[[1, 2], [3]]" "[[1], [], [2, 3]]" EOF 64] by simp

text \<open>WriteFrame and AppendFrame agree. On a working connection WriteFrame appends exactly
  the bytes AppendFrame computes and returns its error, and on an error nothing is written.\<close>

lemma write_append_agree:
  assumes "wok c" and "AppendFrame (wbytes c) f m = (b, e)"
  shows "WriteFrame conn_write f m c = (e, c\<lparr>wbytes := b\<rparr>) \<and> (e \<noteq> None \<longrightarrow> b = wbytes c)"
  using WriteFrame_AppendFrame [OF assms(1), of f m] assms(2)
  by (auto simp: AppendFrame_def split: if_splits)

lemma write_append_agree_example:
  "WriteFrame conn_write demo_data 64 \<lparr>wbytes = [], wok = True\<rparr>
     = (None, \<lparr>wbytes = demo_data_bytes, wok = True\<rparr>)"
  using write_append_agree [of "\<lparr>wbytes = [], wok = True\<rparr>" demo_data 64 demo_data_bytes None]
  by (simp add: demo_data_facts)

section \<open>Target blocks\<close>

text \<open>Target round trip. ParseTarget recovers every well-formed target from the bytes
  AppendTarget writes, whatever follows them, and the constructor TCPFQDN builds only
  well-formed targets.\<close>

lemma target_roundtrip:
  assumes "valid_target t"
  shows "ParseTarget (AppendTarget [] t @ rest) = Inr t"
  by (rule Parse_AppendTarget [OF assms])

lemma target_roundtrip_example:
  "ParseTarget [1, 3, 2, 97, 98, 0, 80, 5] = Inr \<lparr>Network = 1, ATYP = 3, Address = [97, 98], Port = 80\<rparr>"
  using target_roundtrip [of "\<lparr>Network = 1, ATYP = 3, Address = [97, 98], Port = 80\<rparr>" "[5]"]
  by (simp add: valid_target_def AppendTarget_def target_consts)

text \<open>ParseTarget accepts only what AppendTarget writes. Whatever a peer sends as the payload
  of a SYN, an accepted target is well formed and the payload starts with its encoding.\<close>

lemma target_canonical:
  assumes "ParseTarget b = Inr t"
  shows "valid_target t \<and> (\<exists>rest. b = AppendTarget [] t @ rest)"
  by (rule ParseTarget_accepts [OF assms])

lemma target_canonical_example:
  "valid_target \<lparr>Network = 2, ATYP = 1, Address = [1, 2, 3, 4], Port = 80\<rparr>"
proof -
  have "ParseTarget [2, 1, 1, 2, 3, 4, 0, 80] = Inr \<lparr>Network = 2, ATYP = 1, Address = [1, 2, 3, 4], Port = 80\<rparr>"
    by (simp add: ParseTarget_def be16_def target_consts)
  from target_canonical [OF this] show ?thesis by blast
qed

end
