(* ===== verification/Session_Properties.thy ===== *)
theory Session_Properties
  imports Mux_Properties
begin

unbundle bit_operations_syntax

text \<open>
  The properties of a session that hold in every state it can reach, whatever its application,
  its peer and its timers do, and those of its single operations. \<open>demo_session\<close> is a session
  with one open stream, on which the witnesses run.
\<close>

section \<open>Sessions for the witnesses\<close>

definition demo_config :: config where
  "demo_config = \<lparr>MaxFramePayload = 64, InitialWindow = 8, KeepAlive = 0, PingTimeout = 0,
     IsInitiator = True, AcceptQueueDepth = 2\<rparr>"

definition demo_target :: target where
  "demo_target = \<lparr>Network = 1, ATYP = 3, Address = [97], Port = 80\<rparr>"

definition demo_fresh :: session where
  "demo_fresh = the (New \<lparr>wbytes = [], wok = True\<rparr> demo_config 0)"

definition demo_session :: session where
  "demo_session = snd (Open demo_target demo_fresh)"

lemma demo_fresh_eq:
  "demo_fresh = \<lparr>conn = \<lparr>wbytes = [], wok = True\<rparr>, cfg = demo_config\<lparr>PingTimeout := 45000000000\<rparr>,
     heap = [], streams = Map.empty, nextID = 1, acceptCh = [], closed = False,
     closeOnce = False, done_ch = False, lastRecv = 0\<rparr>"
  by (simp add: demo_fresh_def New_def withDefaults_def demo_config_def Let_def)

lemma demo_fresh_fresh: "fresh_session demo_fresh"
  unfolding fresh_session_def
  by (rule exI [of _ "\<lparr>wbytes = [], wok = True\<rparr>"], rule exI [of _ demo_config], rule exI [of _ 0])
    (simp add: demo_fresh_def New_def demo_config_def withDefaults_def Let_def)

lemma demo_target_bytes: "AppendTarget [] demo_target = [1, 3, 1, 97, 0, 80]"
  by (simp add: AppendTarget_def demo_target_def target_consts)

lemma demo_step: "session_step demo_fresh demo_session"
  unfolding demo_session_def by (rule open_stream) (simp add: demo_target_bytes)

lemma demo_steps: "session_step\<^sup>*\<^sup>* demo_fresh demo_session"
  using demo_step by blast

lemma demo_inv: "sess_inv demo_session"
  by (rule mux.invariant [OF demo_fresh_fresh demo_steps])

lemma demo_session_eq:
  "demo_session = demo_fresh\<lparr>nextID := 3, heap := [newStream 1 demo_target 8],
     streams := [1 \<mapsto> 0],
     conn := \<lparr>wbytes = encode_frame (mk_frame FlagSYN 1 [1, 3, 1, 97, 0, 80]), wok = True\<rparr>\<rparr>"
proof -
  have "sendable 64 (mk_frame FlagSYN 1 [1, 3, 1, 97, 0, 80])" by simp
  then show ?thesis
    by (simp add: demo_session_def Open_def Let_def demo_fresh_eq demo_target_bytes writeFrame_def
        demo_config_def)
qed

section \<open>Every reachable state\<close>

text \<open>C3: Bounded state. In every state a session can reach, whatever the peer sends and however
  the application's calls interleave, no stream buffers more than the initial window, the accept
  queue is no longer than its depth, and the table maps an id to a stream with that id.\<close>

theorem session_bounds:
  assumes "fresh_session s" and "session_step\<^sup>*\<^sup>* s t"
  shows "(\<forall>a < length (heap t). length (buf (heap t ! a)) \<le> unat (InitialWindow (cfg t)))
    \<and> int (length (acceptCh t)) \<le> AcceptQueueDepth (cfg t)
    \<and> (\<forall>i a. streams t i = Some a \<longrightarrow> a < length (heap t) \<and> sid (heap t ! a) = i)"
  using mux.invariant [OF assms]
  by (simp add: sess_inv_def table_ok_def queue_ok_def bufs_ok_def)

theorem session_bounds_witness:
  "length (buf (heap demo_session ! 0)) \<le> 8 \<and> int (length (acceptCh demo_session)) \<le> 2"
  using session_bounds [OF demo_fresh_fresh demo_steps]
  by (simp add: demo_session_eq demo_fresh_eq demo_config_def)

text \<open>A peer decodes what a session writes. In every reachable state the bytes the session
  has written are, frame for frame, what a peer with at least the same frame limit reads back,
  with nothing left over, however the transport cuts them, and each of those frames obeys the
  structural rules.\<close>

lemma session_wire:
  assumes "fresh_session s" and "session_step\<^sup>*\<^sup>* s t"
    and "concat cs = wbytes (conn t)" and "MaxFramePayload (cfg t) \<le> m"
  shows "\<exists>fs cs'. read_frames (src_read err) m (length fs) cs = Some (fs, cs') \<and> concat cs' = []
    \<and> wbytes (conn t) = concat (map encode_frame fs) \<and> (\<forall>f\<in>set fs. validateFrame f = None)"
proof -
  from mux.invariant [OF assms(1,2)] obtain fs where
    fs: "wbytes (conn t) = concat (map encode_frame fs)"
      "\<forall>f\<in>set fs. wellformed (MaxFramePayload (cfg t)) f"
    by (auto simp: sess_inv_def wire_ok_def)
  have "\<forall>f\<in>set fs. wellformed m f" using fs(2) assms(4) wellformed_mono by blast
  with src.read_frames_encoded [of cs fs m err] assms(3) fs show ?thesis
    by (auto simp: wellformed_def)
qed

lemma session_wire_example:
  "\<exists>fs cs'. read_frames (src_read EOF) 64 (length fs) [wbytes (conn demo_session)] = Some (fs, cs')
    \<and> concat cs' = [] \<and> wbytes (conn demo_session) = concat (map encode_frame fs)"
  using session_wire [OF demo_fresh_fresh demo_steps, of "[wbytes (conn demo_session)]" 64 EOF]
  by (auto simp: demo_session_eq demo_fresh_eq demo_config_def)

section \<open>Stream ids\<close>

text \<open>C7: Stream ids are never reused. In every run of a session in which Open takes at most 2^31
  ids, whatever happens between the calls, the ids are pairwise distinct, and all of them are odd
  for the initiator and even for the other side, so the two ends never pick the same id.\<close>

theorem stream_ids_distinct:
  assumes "fresh_session s" and "opening_run s ids t" and "length ids \<le> 2 ^ 31"
  shows "distinct ids \<and> (\<forall>i\<in>set ids. odd (unat i) = IsInitiator (cfg s))"
proof -
  have par: "odd (unat (nextID s)) = IsInitiator (cfg s)"
    using New_inv [OF assms(1)] by (simp add: sess_inv_def parity_ok_def)
  have "set ids = (\<lambda>k. nextID s + 2 * of_nat k) ` {0..<length ids}"
    using opening_run_ids [OF assms(2)] by (metis set_map set_upt)
  then have "\<forall>i\<in>set ids. odd (unat i) = IsInitiator (cfg s)"
    using par by (auto simp: odd_plus_double)
  with opening_run_distinct [OF assms(2,3)] show ?thesis by blast
qed

theorem stream_ids_distinct_witness:
  "\<exists>t. opening_run demo_fresh [1, 3] t \<and> distinct [1, 3 :: u32]"
proof -
  have "opening_run demo_fresh [1] demo_session"
    using an_open [OF start, of demo_fresh demo_target]
    by (simp add: demo_session_def demo_target_bytes demo_fresh_eq)
  from an_open [OF this, of demo_target]
  have run: "opening_run demo_fresh [1, 3] (snd (Open demo_target demo_session))"
    by (simp add: demo_target_bytes demo_session_eq demo_fresh_eq)
  from stream_ids_distinct [OF demo_fresh_fresh this] run show ?thesis by auto
qed

section \<open>Inbound frames\<close>

text \<open>Streams are isolated. An inbound frame, whatever its flags and payload, leaves every
  stream whose id it does not carry exactly as it was, and changes no other table entry.\<close>

lemma frame_isolation:
  assumes "fresh_session s" and "session_step\<^sup>*\<^sup>* s t"
  shows "(\<forall>a < length (heap t). sid (heap t ! a) \<noteq> StreamID f \<longrightarrow>
      heap (snd (handleFrame f t)) ! a = heap t ! a) \<and>
    (\<forall>j. j \<noteq> StreamID f \<longrightarrow> streams (snd (handleFrame f t)) j = streams t j)"
  using same_others_handleFrame [OF mux.invariant [OF assms], of f]
  by (auto simp: same_others_def)

lemma frame_isolation_example:
  "heap (snd (handleFrame (mk_frame FlagRST 5 [1]) demo_session)) ! 0 = heap demo_session ! 0"
  using frame_isolation [OF demo_fresh_fresh demo_steps, of "mk_frame FlagRST 5 [1]"]
  by (simp add: demo_session_eq newStream_def)

text \<open>C8: The receive loop handles exactly the frames that were sent. Fed with the encodings of
  valid frames in any chunking, it handles them one by one in order, and stops at the first one
  that ends the session or, at the end of the stream, closes the session.\<close>

theorem readLoop_in_order:
  assumes "concat cs = concat (map encode_frame fs)"
    and "\<forall>f\<in>set fs. wellformed (MaxFramePayload (cfg s)) f"
  shows "\<exists>cs'. readLoop (src_read err) clk k s cs =
    Some (case handle_frames clk k fs s of
            (continue, s') \<Rightarrow> if continue then closeWithError True s' else s', cs')"
  using src.readLoop_frames [of cs fs s err clk k] assms unfolding readLoop_error_def by simp

theorem readLoop_in_order_witness:
  "\<exists>cs'. readLoop (src_read EOF) (\<lambda>_. 5) 0 demo_session [demo_data_bytes] =
    Some (closeWithError True (snd (readLoop_frame 5 demo_data demo_session)), cs')"
proof -
  have "encode_frame demo_data = demo_data_bytes"
    by (simp add: demo_data_def demo_data_bytes_def encode_frame_def frame_header_def len32_def
        put_u32_def mk_frame_def FlagDATA_def ProtocolVersion_def)
  moreover have "wellformed 64 demo_data" by (simp add: demo_data_def wellformed_def)
  moreover have "cfg demo_session = demo_config\<lparr>PingTimeout := 45000000000\<rparr>"
    by (simp add: demo_session_eq demo_fresh_eq)
  moreover have "fst (readLoop_frame 5 demo_data demo_session)"
    by (simp add: readLoop_frame_def handleFrame_def has_flag_def flag_defs demo_data_def
        demo_session_eq demo_fresh_eq pushData_def newStream_def demo_config_def split: prod.split)
  ultimately show ?thesis
    using readLoop_in_order [of "[demo_data_bytes]" "[demo_data]" demo_session EOF "\<lambda>_. 5" 0]
    by (auto simp: demo_config_def split: prod.splits)
qed

text \<open>C9: The receive loop always ends, with the session closed. On every byte stream a peer can
  send, valid or not, in every reachable state, the loop returns, and leaves the session closed
  and its connection shut.\<close>

theorem readLoop_ends_closed:
  assumes "fresh_session s" and "session_step\<^sup>*\<^sup>* s t"
  shows "\<exists>u cs'. readLoop (src_read err) clk k t cs = Some (u, cs')
    \<and> closed u \<and> done_ch u \<and> \<not> wok (conn u)"
  using src.readLoop_closes [OF TrueI mux.invariant [OF assms], of err clk k cs]
  by (auto simp: sess_inv_def life_ok_def)

theorem readLoop_ends_closed_witness:
  "\<exists>u cs'. readLoop (src_read EOF) (\<lambda>_. 5) 0 demo_session [[9, 9], []] = Some (u, cs') \<and> closed u"
  using readLoop_ends_closed [OF demo_fresh_fresh demo_steps, of EOF "\<lambda>_. 5" 0 "[[9, 9], []]"]
  by blast

end
