(* ===== verification/Stream_Properties.thy ===== *)
theory Stream_Properties
  imports Session_Properties
begin

unbundle bit_operations_syntax

text \<open>
  The properties of the stream methods and of the life cycle of a session: what \<open>Write\<close> puts on
  the wire, what a SYN, a reset and \<open>Close\<close> do to the streams and to their readers and writers.
\<close>

section \<open>Write\<close>

lemma data_frames_facts:
  assumes "0 < m"
  shows "concat (map Payload (data_frames i m p)) = p"
    "\<forall>f\<in>set (data_frames i m p). Flags f = FlagDATA \<and> StreamID f = i \<and> 0 < length (Payload f)
       \<and> length (Payload f) \<le> m"
  using concat_data_chunks [OF assms] data_chunks_length [of _ m p]
  by (auto simp: data_frames_def comp_def)

lemma write_exact_core:
  assumes "sess_inv s" and "\<not> closed s" and "wok (conn s)" and "a < length (heap s)"
    and "\<not> reset (heap s ! a)" and "sendWin (heap s ! a) = int w"
  shows "\<exists>r u fs. StreamWrite a p s = Some (r, u)
    \<and> wbytes (conn u) = wbytes (conn s) @ concat (map encode_frame fs)
    \<and> concat (map Payload fs) = take w p
    \<and> (\<forall>f\<in>set fs. Flags f = FlagDATA \<and> StreamID f = sid (heap s ! a) \<and> 0 < length (Payload f)
         \<and> length (Payload f) \<le> unat (MaxFramePayload (cfg s)))
    \<and> heap u ! a = (heap s ! a)\<lparr>sendWin := int (w - length p)\<rparr>
    \<and> r = (if length p \<le> w then Written (length p) else write_stop (heap s ! a) w)"
proof -
  have max: "0 < MaxFramePayload (cfg s)" using assms(1) by (simp add: sess_inv_def limits_ok_def)
  then have m: "0 < unat (MaxFramePayload (cfg s))" by (simp add: word_less_nat_alt)
  note res = Write_loop_result [OF assms(2-6) max, of 0 p]
  show ?thesis
    using res assms(4) data_frames_facts [OF m, of "sid (heap s ! a)" "take w p"]
    by (auto simp: StreamWrite_def after_write_def intro!: exI [of _ "data_frames (sid (heap s ! a))
        (unat (MaxFramePayload (cfg s))) (take w p)"])
qed

text \<open>C6: Write sends exactly what the window allows. With a window of w bytes, Write(p) returns;
  it sends the first min(w, len p) bytes of p, in order, as DATA frames of its stream, none empty
  and none over the frame limit, takes exactly these bytes from the window, and reports the whole
  of p as written or the number w of bytes sent before it had to stop.\<close>

theorem write_exact:
  assumes "sess_inv s" and "\<not> closed s" and "wok (conn s)" and "a < length (heap s)"
    and "\<not> reset (heap s ! a)" and "sendWin (heap s ! a) = int w"
  shows "\<exists>r u fs. StreamWrite a p s = Some (r, u)
    \<and> wbytes (conn u) = wbytes (conn s) @ concat (map encode_frame fs)
    \<and> concat (map Payload fs) = take w p
    \<and> (\<forall>f\<in>set fs. Flags f = FlagDATA \<and> StreamID f = sid (heap s ! a) \<and> 0 < length (Payload f)
         \<and> length (Payload f) \<le> unat (MaxFramePayload (cfg s)))
    \<and> heap u ! a = (heap s ! a)\<lparr>sendWin := int (w - length p)\<rparr>
    \<and> r = (if length p \<le> w then Written (length p) else write_stop (heap s ! a) w)"
  by (rule write_exact_core [OF assms])

lemma demo_session_fields:
  "\<not> closed demo_session" "wok (conn demo_session)" "length (heap demo_session) = 1"
  "heap demo_session ! 0 = newStream 1 demo_target 8" "acceptCh demo_session = []"
  "streams demo_session = [1 \<mapsto> 0]" "MaxFramePayload (cfg demo_session) = 64"
  "AcceptQueueDepth (cfg demo_session) = 2" "InitialWindow (cfg demo_session) = 8"
  by (simp_all add: demo_session_eq demo_fresh_eq demo_config_def)

theorem write_exact_witness:
  "\<exists>u fs. StreamWrite 0 [1, 2, 3, 4, 5, 6, 7, 8, 9] demo_session = Some (WriteBlocked 8, u)
    \<and> wbytes (conn u) = wbytes (conn demo_session) @ concat (map encode_frame fs)
    \<and> concat (map Payload fs) = [1, 2, 3, 4, 5, 6, 7, 8]"
  using write_exact [of demo_session 0 8 "[1, 2, 3, 4, 5, 6, 7, 8, 9]"] demo_inv
  by (auto simp: demo_session_fields newStream_def write_stop_def)

text \<open>Write does not refuse a stream whose write side was closed. After Close has sent FIN on a
  stream, a Write that fits the rest of the window still reports success and still sends DATA
  frames after the FIN: the check for a closed write side is made only when the window is empty.\<close>

lemma write_after_close_sends:
  assumes "sess_inv s" and "\<not> closed s" and "wok (conn s)" and "streams s i = Some a"
    and "\<not> reset (heap s ! a)" and "\<not> finSent (heap s ! a)" and "sendWin (heap s ! a) = int w"
    and "p \<noteq> []" and "length p \<le> w"
  shows "\<exists>c u fs. StreamClose a s = (None, c)
    \<and> wbytes (conn c) = wbytes (conn s) @ encode_frame (mk_frame FlagFIN i [])
    \<and> StreamWrite a p c = Some (Written (length p), u)
    \<and> wbytes (conn u) = wbytes (conn c) @ concat (map encode_frame fs)
    \<and> fs \<noteq> [] \<and> concat (map Payload fs) = p"
proof -
  from table_okD [OF assms(1,4)] have a: "a < length (heap s)" "sid (heap s ! a) = i" by auto
  define st where "st = (heap s ! a)\<lparr>finSent := True\<rparr>"
  define c where "c = snd (StreamClose a s)"
  have max: "0 < MaxFramePayload (cfg s)" using assms(1) by (simp add: sess_inv_def limits_ok_def)
  have c: "StreamClose a s = (None, c)"
    "wbytes (conn c) = wbytes (conn s) @ encode_frame (mk_frame FlagFIN i [])"
    "\<not> closed c" "wok (conn c)" "heap c ! a = st" "length (heap c) = length (heap s)"
    using assms(2,3,6) a
    by (simp_all add: c_def StreamClose_def Close_locked_def writeFrame_ok upd_stream_def
        removeStream_def st_def Let_def)
  have inv: "sess_inv c" using StreamClose_inv [OF assms(1) a(1)] c(1) by simp
  obtain u fs where "StreamWrite a p c = Some (Written (length p), u)"
    "wbytes (conn u) = wbytes (conn c) @ concat (map encode_frame fs)"
    "concat (map Payload fs) = p"
    using write_exact_core [OF inv c(3,4), of a w p] a(1) c(5,6) assms(5,7,9)
    by (auto simp: st_def)
  moreover from this(3) assms(8) have "fs \<noteq> []" by auto
  ultimately show ?thesis using c(1,2) by blast
qed

lemma write_after_close_sends_example:
  "\<exists>c u fs. StreamClose 0 demo_session = (None, c)
    \<and> StreamWrite 0 [1, 2] c = Some (Written 2, u)
    \<and> wbytes (conn u) = wbytes (conn c) @ concat (map encode_frame fs) \<and> fs \<noteq> []"
  using write_after_close_sends [OF demo_inv, of 1 0 8 "[1, 2]"]
  by (auto simp: demo_session_fields newStream_def)

section \<open>Inbound streams\<close>

lemma handleSYN_accept:
  assumes "ParseTarget (Payload f) = Inr t" and "streams s (StreamID f) = None"
    and "int (length (acceptCh s)) < AcceptQueueDepth (cfg s)"
  shows "handleSYN f s = (None,
    s\<lparr>heap := heap s @ [newStream (StreamID f) t (uint (InitialWindow (cfg s)))],
      streams := (streams s)(StreamID f \<mapsto> length (heap s)),
      acceptCh := acceptCh s @ [length (heap s)]\<rparr>)"
  using assms by (simp add: handleSYN_def Let_def)

text \<open>Why a SYN is refused, if it is.\<close>

definition syn_refusal :: "frame \<Rightarrow> session \<Rightarrow> byte option" where
  "syn_refusal f s =
     (case ParseTarget (Payload f) of
        Inl _ \<Rightarrow> Some ReasonProtocol
      | Inr _ \<Rightarrow>
          (if streams s (StreamID f) \<noteq> None then Some ReasonDupStream
           else if AcceptQueueDepth (cfg s) \<le> int (length (acceptCh s)) then Some ReasonBusy
           else None))"

text \<open>A SYN opens a stream or leaves the table as it was. With room in the accept queue, a SYN
  for a free id with a valid target queues a new stream for Accept, with that target and a full
  window; with a full queue, a bad target or a used id the table and the queue stay as they were,
  and the peer gets one RST that gives the reason.\<close>

lemma syn_outcome:
  assumes "sess_inv s" and "\<not> closed s" and "wok (conn s)" and "has_flag f FlagSYN"
  defines "u \<equiv> snd (handleFrame f s)"
  shows "fst (handleFrame f s) = None \<and>
    (\<forall>t. ParseTarget (Payload f) = Inr t \<and> streams s (StreamID f) = None \<and>
        int (length (acceptCh s)) < AcceptQueueDepth (cfg s) \<longrightarrow>
        acceptCh u = acceptCh s @ [length (heap s)]
        \<and> streams u = (streams s)(StreamID f \<mapsto> length (heap s))
        \<and> heap u = heap s @ [newStream (StreamID f) t (uint (InitialWindow (cfg s)))]
        \<and> conn u = conn s) \<and>
    (\<forall>why. syn_refusal f s = Some why \<longrightarrow>
        acceptCh u = acceptCh s \<and> streams u = streams s
        \<and> (\<forall>a < length (heap s). heap u ! a = heap s ! a)
        \<and> wbytes (conn u) = wbytes (conn s)
            @ encode_frame (mk_frame FlagRST (StreamID f) [why]))"
proof -
  have max: "Suc 0 \<le> unat (MaxFramePayload (cfg s))"
    using assms(1) by (simp add: sess_inv_def limits_ok_def word_less_nat_alt)
  have eq: "handleFrame f s = handleSYN f s" using assms(4) by (simp add: handleFrame_def)
  show ?thesis
  proof (cases "ParseTarget (Payload f)")
    case (Inl e)
    with assms(2,3) max show ?thesis
      by (simp add: u_def eq handleSYN_def syn_refusal_def abortStream_def writeFrame_ok)
  next
    case (Inr t)
    show ?thesis
    proof (cases "streams s (StreamID f)")
      case (Some a)
      with Inr assms(2,3) max show ?thesis
        by (simp add: u_def eq handleSYN_def syn_refusal_def abortStream_def writeFrame_ok)
    next
      case None
      show ?thesis
      proof (cases "int (length (acceptCh s)) < AcceptQueueDepth (cfg s)")
        case True
        with None Inr handleSYN_accept [OF Inr None True] show ?thesis
          by (simp add: u_def eq syn_refusal_def)
      next
        case False
        with None Inr assms(2,3) max show ?thesis
          by (auto simp: u_def eq handleSYN_def syn_refusal_def abortStream_def writeFrame_ok Let_def
              resetStream_def upd_stream_def removeStream_def nth_append fun_upd_idem)
      qed
    qed
  qed
qed

lemma syn_outcome_example:
  "acceptCh (snd (handleFrame (mk_frame FlagSYN 2 [1, 3, 1, 97, 0, 80]) demo_session)) = [1]
   \<and> wbytes (conn (snd (handleFrame (mk_frame FlagSYN 1 [1, 3, 1, 97, 0, 80]) demo_session)))
     = wbytes (conn demo_session) @ encode_frame (mk_frame FlagRST 1 [ReasonDupStream])"
proof -
  have t: "ParseTarget [1, 3, 1, 97, 0, 80] = Inr demo_target"
    by (simp add: ParseTarget_def be16_def target_consts demo_target_def)
  have fl: "has_flag (mk_frame FlagSYN i p) FlagSYN" for i p
    by (simp add: has_flag_def FlagSYN_def)
  show ?thesis
    using syn_outcome [OF demo_inv _ _ fl [of 2 "[1, 3, 1, 97, 0, 80]"]]
      syn_outcome [OF demo_inv _ _ fl [of 1 "[1, 3, 1, 97, 0, 80]"]]
    by (simp add: demo_session_fields t syn_refusal_def)
qed

section \<open>Reset and close\<close>

text \<open>A reset kills the stream but not the data it holds. A RST removes the stream from the
  table; every later Write on it fails with ErrStreamReset, and so does every Read once the buffer
  is empty, so no call on it sleeps; but a Read still returns the bytes that arrived before.\<close>

lemma reset_stream_effect:
  assumes "sess_inv s" and "streams s (StreamID f) = Some a" and "Flags f = FlagRST"
  defines "u \<equiv> snd (handleFrame f s)"
  shows "streams u (StreamID f) = None
    \<and> (\<forall>m r. fst (Write_locked m r (heap u ! a)) = WriteErr ErrStreamReset)
    \<and> (\<forall>n. buf (heap s ! a) = [] \<longrightarrow> fst (Read_locked n (heap u ! a)) = ReadErr ErrStreamReset)
    \<and> (\<forall>n. buf (heap s ! a) \<noteq> [] \<longrightarrow>
         (\<exists>c. fst (Read_locked n (heap u ! a)) = ReadData (take n (buf (heap s ! a))) c))"
proof -
  have "u = resetStream (StreamID f) s"
    using assms(3) by (simp add: u_def handleFrame_def has_flag_def flag_defs)
  with resetStream_stream [OF assms(1,2)] show ?thesis
    by (auto simp: remoteReset_def Write_locked_reset Read_locked_def Let_def min_def)
qed

lemma reset_stream_effect_example:
  "streams (snd (handleFrame (mk_frame FlagRST 1 [1]) demo_session)) 1 = None"
  using reset_stream_effect [OF demo_inv, of "mk_frame FlagRST 1 [1]" 0]
  by (simp add: demo_session_fields)

text \<open>Close ends the session for everybody. The last frame on the wire is GOAWAY(normal); the
  table is empty; a Read or a Write on any stream that was in the table never sleeps again; an
  Accept never sleeps; Open is refused without a byte sent; and a second Close does nothing.\<close>

lemma close_ends_session:
  assumes "sess_inv s" and "\<not> closed s"
  defines "u \<equiv> Close s"
  shows "closed u \<and> streams u = Map.empty
    \<and> (wok (conn s) \<longrightarrow>
        wbytes (conn u) = wbytes (conn s) @ encode_frame (mk_frame FlagGOAWAY 0 [ReasonNormal]))
    \<and> (\<forall>i a. streams s i = Some a \<longrightarrow> (\<forall>n. fst (Read_locked n (heap u ! a)) \<noteq> ReadBlock)
         \<and> (\<forall>m r. fst (Write_locked m r (heap u ! a)) \<noteq> WriteBlock))
    \<and> (\<forall>pick. fst (Accept pick u) \<noteq> AcceptBlock)
    \<and> (\<forall>t. Open t u = (Inl ErrSessionClosed, u))
    \<and> Close u = u"
proof -
  note eff = Close_effect [OF assms(1,2), where cause = False, folded Close_def, folded u_def]
  have inv: "sess_inv u" using closeWithError_inv [OF assms(1)] by (simp add: u_def Close_def)
  have "fst (Accept pick u) \<noteq> AcceptBlock" for pick
    using eff(2) by (simp add: Accept_def split: list.split)
  moreover have "Close u = u"
    using closed_closeWithError [OF inv eff(1)] by (simp add: Close_def)
  moreover have "wok (conn s) \<longrightarrow>
      wbytes (conn u) = wbytes (conn s) @ encode_frame (mk_frame FlagGOAWAY 0 [ReasonNormal])"
    using Close_wire [OF assms(1,2), where cause = False] by (simp add: u_def Close_def)
  ultimately show ?thesis
    using eff(1,3,5)
    by (auto simp: Open_def Read_locked_block_iff Write_locked_block_iff)
qed

lemma close_ends_session_example:
  "closed (Close demo_session) \<and> Close (Close demo_session) = Close demo_session"
  using close_ends_session [OF demo_inv] by (simp add: demo_session_fields)

text \<open>A stream can be born dead. When the session is closed while the receive loop still holds
  a SYN it has decoded, handling it puts a stream into the table that the close has not seen: a
  Read on it sleeps, and a second Close does not wake it.\<close>

lemma syn_after_close_unwoken:
  assumes "sess_inv s" and "\<not> closed s" and "has_flag f FlagSYN"
    and "ParseTarget (Payload f) = Inr t"
    and "int (length (acceptCh s)) < AcceptQueueDepth (cfg s)"
  defines "u \<equiv> snd (handleFrame f (Close s))" and "a \<equiv> length (heap s)"
  shows "a \<in> set (acceptCh u) \<and> streams u (StreamID f) = Some a
    \<and> fst (Read_locked n (heap u ! a)) = ReadBlock \<and> Close u = u"
proof -
  note eff = Close_effect [OF assms(1,2), where cause = False, folded Close_def]
  have cfg: "cfg (Close s) = cfg s" by (simp add: Close_def)
  have u: "handleFrame f (Close s) = handleSYN f (Close s)"
    using assms(3) by (simp add: handleFrame_def)
  have "closeOnce (Close s)" using closeWithError_inv [OF assms(1)] eff(1)
    by (simp add: Close_def sess_inv_def life_ok_def)
  with handleSYN_accept [OF assms(4), of "Close s"] assms(5) show ?thesis
    by (simp add: u_def u a_def eff cfg nth_append Read_locked_block_iff newStream_def
        Close_def [of "_\<lparr>acceptCh := _\<rparr>"] closeWithError_def)
qed

lemma syn_after_close_unwoken_example:
  "fst (Read_locked 1 (heap (snd (handleFrame (mk_frame FlagSYN 2 [1, 3, 1, 97, 0, 80])
      (Close demo_session))) ! 1)) = ReadBlock"
  using syn_after_close_unwoken [OF demo_inv, of "mk_frame FlagSYN 2 [1, 3, 1, 97, 0, 80]" demo_target 1]
  by (simp add: demo_session_fields has_flag_def FlagSYN_def ParseTarget_def be16_def target_consts
      demo_target_def)

end
