(* ===== verification/Session_Typing.thy ===== *)
theory Session_Typing
  imports Session_Properties
begin

text \<open>
  What kind of thing a stream pointer is. A pointer once handed out denotes a stream of the same
  id and the same target for ever, whatever happens to the session; the accept queue holds each
  pointer once; and the streams a peer can make the session offer have a target of the shape its
  address type calls for. The relation \<open>keeps_types\<close> between two states of a session is what every
  operation establishes; it is reflexive and transitive, so it extends to runs.
\<close>

definition queue_typed :: "session \<Rightarrow> bool" where
  "queue_typed s \<longleftrightarrow> distinct (acceptCh s) \<and>
     (\<forall>a\<in>set (acceptCh s). a < length (heap s) \<and> valid_target (Target (heap s ! a)))"

definition same_ids :: "session \<Rightarrow> session \<Rightarrow> bool" where
  "same_ids s t \<longleftrightarrow> length (heap s) \<le> length (heap t) \<and>
     (\<forall>a<length (heap s). sid (heap t ! a) = sid (heap s ! a) \<and> Target (heap t ! a) = Target (heap s ! a))"

definition keeps_types :: "session \<Rightarrow> session \<Rightarrow> bool" where
  "keeps_types s t \<longleftrightarrow> same_ids s t \<and> (queue_typed s \<longrightarrow> queue_typed t)"

lemma keeps_types_refl [simp]: "keeps_types s s"
  by (simp add: keeps_types_def same_ids_def)

lemma keeps_types_trans: "keeps_types s t \<Longrightarrow> keeps_types t u \<Longrightarrow> keeps_types s u"
  by (auto simp: keeps_types_def same_ids_def)

text \<open>An operation that leaves the queue and every stream's id and target alone.\<close>

lemma keeps_types_same:
  "same_ids s t \<Longrightarrow> acceptCh t = acceptCh s \<Longrightarrow> keeps_types s t"
  by (auto simp: keeps_types_def queue_typed_def same_ids_def)

lemma same_ids_heap: "heap t = heap s \<Longrightarrow> same_ids s t"
  by (simp add: same_ids_def)

lemma same_ids_upd:
  "sid (g (heap s ! a)) = sid (heap s ! a) \<Longrightarrow> Target (g (heap s ! a)) = Target (heap s ! a) \<Longrightarrow>
    same_ids s (upd_stream a g s)"
  by (auto simp: same_ids_def upd_stream_def nth_list_update')

lemma keeps_types_writeFrame [simp]: "keeps_types s (snd (writeFrame f t)) = keeps_types s t"
  by (simp add: keeps_types_def same_ids_def queue_typed_def)

lemma keeps_types_written: "writeFrame f t = (e, u) \<Longrightarrow> keeps_types s t \<Longrightarrow> keeps_types s u"
  using keeps_types_writeFrame [of s f t] by simp

lemma keeps_types_removeStream [simp]: "keeps_types s (removeStream i t) = keeps_types s t"
  by (simp add: keeps_types_def same_ids_def queue_typed_def removeStream_def)

lemma keeps_types_upd:
  "keeps_types s t \<Longrightarrow> sid (g (heap t ! a)) = sid (heap t ! a) \<Longrightarrow>
    Target (g (heap t ! a)) = Target (heap t ! a) \<Longrightarrow> keeps_types s (upd_stream a g t)"
  by (rule keeps_types_trans [OF _ keeps_types_same [OF same_ids_upd]]) (simp_all add: upd_stream_def)

lemma keeps_types_add:
  "keeps_types s (s\<lparr>heap := heap s @ [st], streams := m\<rparr>)"
  by (rule keeps_types_same) (simp_all add: same_ids_def nth_append)

lemma keeps_types_resetStream: "keeps_types s t \<Longrightarrow> keeps_types s (resetStream i t)"
  by (auto simp: resetStream_def remoteReset_def intro!: keeps_types_upd split: option.split)

lemma keeps_types_closeWithError: "keeps_types s (closeWithError cause s)"
  by (rule keeps_types_same)
    (auto simp: same_ids_def closeWithError_def Let_def wake_all_def sessionClosed_def)

lemma keeps_types_closing: "keeps_types s t \<Longrightarrow> keeps_types s (closeWithError cause t)"
  by (rule keeps_types_trans [OF _ keeps_types_closeWithError])

lemma keeps_types_Open: "keeps_types s (snd (Open t s))"
proof -
  let ?s1 = "s\<lparr>nextID := nextID s + 2, heap := heap s @ [newStream (nextID s) t (uint (InitialWindow (cfg s)))],
      streams := (streams s)(nextID s \<mapsto> length (heap s))\<rparr>"
  have "keeps_types s ?s1"
    by (rule keeps_types_same) (simp_all add: same_ids_def nth_append)
  moreover obtain e s2 where "writeFrame (mk_frame FlagSYN (nextID s) (AppendTarget [] t)) ?s1 = (e, s2)"
    by force
  ultimately show ?thesis
    using keeps_types_written by (cases e) (auto simp: Open_def Let_def)
qed

lemma keeps_types_Accept: "keeps_types s (snd (Accept pick s))"
  by (cases "acceptCh s") (auto simp: Accept_def keeps_types_def same_ids_def queue_typed_def)

lemma keeps_types_StreamRead: "keeps_types s (snd (StreamRead a n s))"
proof -
  obtain r st where rd: "Read_locked n (heap s ! a) = (r, st)" by force
  then have "keeps_types s (upd_stream a (\<lambda>_. st) s)"
    by (intro keeps_types_upd) (auto simp: Read_locked_def Let_def split: if_splits)
  then show ?thesis by (cases r) (simp_all add: StreamRead_def rd)
qed

lemma keeps_types_Write_round: "keeps_types s (snd (Write_round a p tot s))"
proof -
  obtain r st where w: "Write_locked (MaxFramePayload (cfg s)) (length p - tot) (heap s ! a) = (r, st)"
    by force
  then have upd: "keeps_types s (upd_stream a (\<lambda>_. st) s)"
    by (intro keeps_types_upd) (auto simp: Write_locked_def Let_def split: if_splits)
  show ?thesis
  proof (cases r)
    case (WriteChunk n)
    obtain e s2 where "writeFrame (mk_frame FlagDATA (sid st) (take n (drop tot p)))
        (upd_stream a (\<lambda>_. st) s) = (e, s2)" by force
    with keeps_types_written [OF this upd] show ?thesis
      by (cases e) (simp_all add: Write_round_def w WriteChunk)
  qed (simp_all add: Write_round_def w upd)
qed

lemma keeps_types_StreamClose: "keeps_types s (snd (StreamClose a s))"
proof -
  obtain r st where c: "Close_locked (heap s ! a) = (r, st)" by force
  then have "keeps_types s (upd_stream a (\<lambda>_. st) s)"
    by (intro keeps_types_upd) (auto simp: Close_locked_def split: if_splits)
  then show ?thesis by (cases r) (simp_all add: StreamClose_def c Let_def)
qed

lemma keeps_types_handleSYN: "keeps_types s (snd (handleSYN f s))"
proof (cases "ParseTarget (Payload f)")
  case (Inl e)
  then show ?thesis by (simp add: handleSYN_def abortStream_def)
next
  case (Inr t)
  define s1 where "s1 = s\<lparr>heap := heap s @ [newStream (StreamID f) t (uint (InitialWindow (cfg s)))],
      streams := (streams s)(StreamID f \<mapsto> length (heap s))\<rparr>"
  have s1: "keeps_types s s1" unfolding s1_def by (rule keeps_types_add)
  have "valid_target t" using ParseTarget_accepts [OF Inr] by simp
  then have "keeps_types s (s1\<lparr>acceptCh := acceptCh s1 @ [length (heap s)]\<rparr>)"
    by (auto simp: keeps_types_def same_ids_def queue_typed_def s1_def nth_append newStream_def)
  with Inr s1 show ?thesis
    by (auto simp: handleSYN_def Let_def abortStream_def keeps_types_resetStream s1_def [symmetric])
qed

lemma keeps_types_handleFIN: "keeps_types s (handleFIN i s)"
  by (auto simp: handleFIN_def remoteClosed_def Let_def intro!: keeps_types_upd split: option.split)

lemma keeps_types_handleFrame: "keeps_types s (snd (handleFrame f s))"
proof -
  have "keeps_types s (upd_stream a (\<lambda>_. st) s)" if "pushData w b (heap s ! a) = (e, st)" for a w b e st
    using that by (intro keeps_types_upd) (auto simp: pushData_def split: if_splits)
  moreover have "keeps_types s (upd_stream a (addSendWindow n) s)" for a n
    by (rule keeps_types_upd) (simp_all add: addSendWindow_def)
  ultimately show ?thesis
    by (auto simp: handleFrame_def abortStream_def keeps_types_handleSYN keeps_types_handleFIN
        keeps_types_resetStream split: option.split prod.split)
qed

lemma keeps_types_lastRecv: "keeps_types s (s\<lparr>lastRecv := t\<rparr>)"
  by (rule keeps_types_same) (simp_all add: same_ids_def)

lemma keeps_types_readLoop_frame: "keeps_types s (snd (readLoop_frame now f s))"
proof -
  obtain e s' where h: "handleFrame f (s\<lparr>lastRecv := now\<rparr>) = (e, s')" by force
  have "keeps_types s s'"
    using keeps_types_trans [OF keeps_types_lastRecv keeps_types_handleFrame, of s f now] h by simp
  with keeps_types_closing show ?thesis by (cases e) (simp_all add: readLoop_frame_def h)
qed

lemma keeps_types_tick: "keeps_types s (snd (keepAlive_tick now s))"
proof -
  obtain e s' where w: "writeFrame (mk_frame FlagPING 0 (put_u64le (word_of_int now))) s = (e, s')" by force
  from keeps_types_written [OF this keeps_types_refl] keeps_types_closing show ?thesis
    by (cases e) (auto simp: keepAlive_tick_def w keeps_types_closeWithError)
qed

lemma session_step_types: "session_step s t \<Longrightarrow> keeps_types s t"
proof (induction rule: session_step.induct)
  case (conn_lost s)
  show ?case by (rule keeps_types_same) (simp_all add: same_ids_def)
qed (simp_all add: keeps_types_Open keeps_types_Accept keeps_types_StreamRead keeps_types_Write_round
    keeps_types_StreamClose keeps_types_readLoop_frame keeps_types_tick keeps_types_closeWithError
    PingPayload_def readLoop_error_def Close_def)

lemma session_steps_types: "session_step\<^sup>*\<^sup>* s t \<Longrightarrow> keeps_types s t"
  by (induction rule: rtranclp_induct) (auto intro: keeps_types_trans session_step_types)

interpretation mux_types: machine fresh_session session_step queue_typed
proof unfold_locales
  fix s t
  show "fresh_session s \<Longrightarrow> queue_typed s"
    by (auto simp: fresh_session_def New_def Let_def queue_typed_def split: if_splits)
  show "queue_typed s \<Longrightarrow> session_step s t \<Longrightarrow> queue_typed t"
    using session_step_types by (simp add: keeps_types_def)
qed

text \<open>C10: Streams are well typed. Whatever a peer sends, in every reachable state of a session the
  accept queue holds no pointer twice; the stream that \<open>Accept\<close> returns exists, is not in the queue
  any more, and has a target whose network and address have the shape their types call for; and in
  every later state the same pointer still denotes a stream with that id and that target.\<close>

theorem accepted_streams_typed:
  assumes "fresh_session s0" and "session_step\<^sup>*\<^sup>* s0 s" and "Accept pick s = (Accepted a, s1)"
    and "session_step\<^sup>*\<^sup>* s1 t"
  shows "distinct (acceptCh s) \<and> a \<notin> set (acceptCh s1) \<and> a < length (heap s)
    \<and> valid_target (Target (heap s ! a))
    \<and> a < length (heap t) \<and> Target (heap t ! a) = Target (heap s ! a) \<and> sid (heap t ! a) = sid (heap s ! a)"
proof -
  have typed: "queue_typed s" by (rule mux_types.invariant [OF assms(1,2)])
  from assms(3) obtain q where q: "acceptCh s = a # q" "s1 = s\<lparr>acceptCh := q\<rparr>"
    by (auto simp: Accept_def split: list.splits if_splits)
  have "same_ids s1 t" using session_steps_types [OF assms(4)] by (simp add: keeps_types_def)
  with typed q show ?thesis by (auto simp: queue_typed_def same_ids_def)
qed

definition demo_syn :: frame where
  "demo_syn = mk_frame FlagSYN 2 [1, 3, 1, 97, 0, 80]"

theorem accepted_streams_typed_witness:
  "\<exists>s1. Accept True (snd (readLoop_frame 5 demo_syn demo_fresh)) = (Accepted 0, s1)
    \<and> Target (heap (Close s1) ! 0) = demo_target"
proof -
  let ?s = "snd (readLoop_frame 5 demo_syn demo_fresh)"
  have parse: "ParseTarget [1, 3, 1, 97, 0, 80] = Inr demo_target"
    by (simp add: ParseTarget_def demo_target_def target_consts be16_def)
  have s: "?s = demo_fresh\<lparr>lastRecv := 5, heap := [newStream 2 demo_target 8], streams := [2 \<mapsto> 0],
      acceptCh := [0]\<rparr>"
    by (simp add: readLoop_frame_def handleFrame_def demo_syn_def handleSYN_def parse demo_fresh_eq
        demo_config_def has_flag_def flag_defs Let_def)
  have "wellformed (MaxFramePayload (cfg demo_fresh)) demo_syn"
    by (simp add: wellformed_def demo_syn_def demo_fresh_eq demo_config_def)
  then have run: "session_step\<^sup>*\<^sup>* demo_fresh ?s" by (blast intro: inbound_frame)
  have acc: "Accept True ?s = (Accepted 0, ?s\<lparr>acceptCh := []\<rparr>)" by (simp add: s Accept_def)
  have "session_step\<^sup>*\<^sup>* (?s\<lparr>acceptCh := []\<rparr>) (Close (?s\<lparr>acceptCh := []\<rparr>))"
    by (blast intro: close_session)
  from accepted_streams_typed [OF demo_fresh_fresh run acc this] acc show ?thesis
    by (auto simp: s newStream_def)
qed

end
