(* ===== verification/Peers.thy ===== *)
theory Peers
  imports Session_Typing
begin

unbundle bit_operations_syntax

text \<open>
  Two sessions at the two ends of a connection. Each end runs the operations of its session in any
  order, and its receive loop handles, one by one, the frames the other end has written. A node is a
  session with its history: the frames it has written (read off the bytes it has put on the
  connection), the frames its receive loop has handled, for each stream pointer the bytes its
  \<open>Write\<close> calls have reported and its \<open>Read\<close> calls have returned, and whether the loop still runs.
\<close>

section \<open>The frames in a sequence of bytes\<close>

function parse_frames :: "bytes \<Rightarrow> frame list" where
  "parse_frames b =
     (if length b < HeaderSize then []
      else (let n = unat (get_u32 (take 4 (drop 6 b)))
            in \<lparr>Version = b ! 0, Flags = b ! 1, StreamID = get_u32 (take 4 (drop 2 b)),
                 Payload = take n (drop HeaderSize b)\<rparr> # parse_frames (drop (HeaderSize + n) b)))"
  by pat_completeness auto
termination
  by (relation "measure length") (auto simp: HeaderSize_def)

declare parse_frames.simps [simp del]

lemma parse_frames_Nil [simp]: "parse_frames [] = []"
  by (simp add: parse_frames.simps HeaderSize_def)

lemma parse_frames_encode [simp]:
  assumes "emittable f"
  shows "parse_frames (encode_frame f @ x) = f # parse_frames x"
proof -
  have len: "unat (len32 (Payload f)) = length (Payload f)"
    using assms by (simp add: emittable_def len32_def unat_of_nat)
  have hd: "frame_header f = [Version f, Flags f] @ put_u32 (StreamID f) @ put_u32 (len32 (Payload f))"
    using assms by (simp add: frame_header_def emittable_def)
  define b where "b = encode_frame f @ x"
  have parts: "take 4 (drop 2 b) = put_u32 (StreamID f)" "take 4 (drop 6 b) = put_u32 (len32 (Payload f))"
    "b ! 0 = Version f" "b ! 1 = Flags f" "drop HeaderSize b = Payload f @ x"
    "drop (HeaderSize + length (Payload f)) b = x" "\<not> length b < HeaderSize"
    by (simp_all add: b_def encode_frame_def hd HeaderSize_def drop_Cons')
  have "parse_frames b = f # parse_frames x"
    by (subst parse_frames.simps) (simp add: parts len Let_def del: One_nat_def)
  then show ?thesis by (simp add: b_def)
qed

lemma parse_frames_concat:
  "\<forall>f\<in>set fs. emittable f \<Longrightarrow> parse_frames (concat (map encode_frame fs)) = fs"
  by (induction fs) auto

definition new_frames :: "session \<Rightarrow> session \<Rightarrow> frame list" where
  "new_frames s t = parse_frames (drop (length (wbytes (conn s))) (wbytes (conn t)))"

text \<open>What a step of a session has put on the connection.\<close>

definition emits :: "frame list \<Rightarrow> session \<Rightarrow> session \<Rightarrow> bool" where
  "emits fs s t \<longleftrightarrow> wbytes (conn t) = wbytes (conn s) @ concat (map encode_frame fs) \<and>
     (\<forall>f\<in>set fs. emittable f)"

lemma emits_new: "emits fs s t \<Longrightarrow> new_frames s t = fs"
  by (simp add: emits_def new_frames_def parse_frames_concat)

lemma emits_none: "wbytes (conn t) = wbytes (conn s) \<Longrightarrow> emits [] s t"
  by (simp add: emits_def)

lemma emits_trans: "emits fs s t \<Longrightarrow> emits gs t u \<Longrightarrow> emits (fs @ gs) s u"
  by (auto simp: emits_def)

section \<open>The two ends\<close>

record node =
  n_ses :: session
  n_sent :: "frame list"
  n_seen :: "frame list"
  n_wrote :: "nat \<Rightarrow> bytes"
  n_got :: "nat \<Rightarrow> bytes"
  n_reading :: bool

definition fresh_node :: "node \<Rightarrow> bool" where
  "fresh_node n \<longleftrightarrow> fresh_session (n_ses n) \<and> n_sent n = [] \<and> n_seen n = [] \<and>
     n_wrote n = (\<lambda>_. []) \<and> n_got n = (\<lambda>_. []) \<and> n_reading n"

definition advance :: "session \<Rightarrow> node \<Rightarrow> node" where
  "advance s n = n\<lparr>n_ses := s, n_sent := n_sent n @ new_frames (n_ses n) s\<rparr>"

text \<open>The operations that move no data of a stream, with their results left aside.\<close>

inductive session_op :: "session \<Rightarrow> session \<Rightarrow> bool" where
  op_open: "length (AppendTarget [] t) < 2 ^ 32 \<Longrightarrow> session_op s (snd (Open t s))"
| op_accept: "session_op s (snd (Accept pick s))"
| op_close_stream: "a < length (heap s) \<Longrightarrow> session_op s (snd (StreamClose a s))"
| op_ping: "length p < 2 ^ 32 \<Longrightarrow> session_op s (snd (PingPayload p s))"
| op_tick: "0 < KeepAlive (cfg s) \<Longrightarrow> session_op s (snd (keepAlive_tick now s))"
| op_read_error: "session_op s (readLoop_error s)"
| op_close: "session_op s (Close s)"
| op_lost: "session_op s (s\<lparr>conn := (conn s)\<lparr>wok := False\<rparr>\<rparr>)"

inductive node_step :: "node \<Rightarrow> node \<Rightarrow> bool" where
  do_op: "session_op (n_ses n) s \<Longrightarrow> node_step n (advance s n)"
| do_write: "a < length (heap (n_ses n)) \<Longrightarrow> tot < length p \<Longrightarrow> length p < 2 ^ 32 \<Longrightarrow>
    Write_round a p tot (n_ses n) = (r, s) \<Longrightarrow>
    node_step n ((advance s n)\<lparr>n_wrote := (n_wrote n)(a := n_wrote n a @
      (case r of Continue t \<Rightarrow> take (t - tot) (drop tot p) | Stop _ \<Rightarrow> []))\<rparr>)"
| do_read: "a < length (heap (n_ses n)) \<Longrightarrow> StreamRead a k (n_ses n) = (r, s) \<Longrightarrow>
    node_step n ((advance s n)\<lparr>n_got := (n_got n)(a := n_got n a @
      (case r of ReadData xs _ \<Rightarrow> xs | _ \<Rightarrow> []))\<rparr>)"

definition deliver_frame :: "int \<Rightarrow> frame \<Rightarrow> node \<Rightarrow> node" where
  "deliver_frame now f n =
     (case readLoop_frame now f (n_ses n) of
        (continue, s) \<Rightarrow> (advance s n)\<lparr>n_seen := n_seen n @ [f], n_reading := continue\<rparr>)"

text \<open>The next frame for a node is the first one its peer has written that it has not handled.\<close>

inductive peers_step :: "node \<times> node \<Rightarrow> node \<times> node \<Rightarrow> bool" where
  left: "node_step x x' \<Longrightarrow> peers_step (x, y) (x', y)"
| right: "node_step y y' \<Longrightarrow> peers_step (x, y) (x, y')"
| to_right: "n_sent x = n_seen y @ f # rest \<Longrightarrow> n_reading y \<Longrightarrow> wellformed (MaxFramePayload (cfg (n_ses y))) f \<Longrightarrow>
    peers_step (x, y) (x, deliver_frame now f y)"
| to_left: "n_sent y = n_seen x @ f # rest \<Longrightarrow> n_reading x \<Longrightarrow> wellformed (MaxFramePayload (cfg (n_ses x))) f \<Longrightarrow>
    peers_step (x, y) (deliver_frame now f x, y)"

definition fresh_peers :: "node \<times> node \<Rightarrow> bool" where
  "fresh_peers p \<longleftrightarrow> fresh_node (fst p) \<and> fresh_node (snd p) \<and>
     IsInitiator (cfg (n_ses (fst p))) \<noteq> IsInitiator (cfg (n_ses (snd p)))"

section \<open>Frames by what they are to the receive loop\<close>

definition is_syn :: "frame \<Rightarrow> bool" where "is_syn f \<longleftrightarrow> has_flag f FlagSYN"

definition is_data :: "frame \<Rightarrow> bool" where "is_data f \<longleftrightarrow> \<not> has_flag f FlagSYN \<and> has_flag f FlagDATA"

definition is_win :: "frame \<Rightarrow> bool" where "is_win f \<longleftrightarrow> Flags f = FlagWIN"

definition control :: "frame \<Rightarrow> bool" where
  "control f \<longleftrightarrow> Flags f \<in> {FlagFIN, FlagRST, FlagPING, FlagPONG, FlagGOAWAY}"

definition neutral :: "frame \<Rightarrow> bool" where "neutral f \<longleftrightarrow> is_win f \<or> control f"

lemma neutralD: "neutral f \<Longrightarrow> \<not> is_syn f \<and> \<not> is_data f"
  by (auto simp: neutral_def control_def is_win_def is_syn_def is_data_def has_flag_def flag_defs)

lemma control_no_win: "control f \<Longrightarrow> \<not> is_win f"
  by (auto simp: control_def is_win_def flag_defs)

definition data_of :: "u32 \<Rightarrow> frame list \<Rightarrow> bytes" where
  "data_of i fs = concat (map Payload (filter (\<lambda>f. is_data f \<and> StreamID f = i) fs))"

lemma data_of_simps [simp]:
  "data_of i [] = []"
  "data_of i (f # fs) = (if is_data f \<and> StreamID f = i then Payload f else []) @ data_of i fs"
  "data_of i (fs @ gs) = data_of i fs @ data_of i gs"
  by (simp_all add: data_of_def)

lemma data_of_none: "\<forall>f\<in>set fs. is_data f \<longrightarrow> StreamID f \<noteq> i \<Longrightarrow> data_of i fs = []"
  by (induction fs) auto

lemma kinds [simp]:
  "is_syn (mk_frame FlagSYN i p)" "\<not> is_data (mk_frame FlagSYN i p)" "\<not> is_win (mk_frame FlagSYN i p)"
  "is_data (mk_frame FlagDATA i p)" "\<not> is_syn (mk_frame FlagDATA i p)" "\<not> is_win (mk_frame FlagDATA i p)"
  "is_win (mk_frame FlagWIN i p)"
  "control (mk_frame FlagFIN i p)" "control (mk_frame FlagRST i p)"
  "control (mk_frame FlagPING i p)" "control (mk_frame FlagPONG i p)" "control (mk_frame FlagGOAWAY i p)"
  by (simp_all add: is_syn_def is_data_def is_win_def control_def has_flag_def flag_defs)

end
