(* ===== verification/Peers_Effects.thy ===== *)
theory Peers_Effects
  imports Peers
begin

unbundle bit_operations_syntax

text \<open>
  What each operation of a session does, as the other end can tell: which frames it writes, and
  what becomes of the ids, targets, buffers, windows and table entries of the streams. An operation
  that is \<open>quiet\<close> writes neither SYN, DATA nor WIN and at most takes streams out of the table; every
  operation is quiet, or one visible effect followed by something quiet. A \<open>mild\<close> one may also
  change send windows and write WIN frames.
\<close>

definition calm :: "session \<Rightarrow> session \<Rightarrow> bool" where
  "calm s t \<longleftrightarrow> cfg t = cfg s \<and> nextID t = nextID s \<and> length (heap t) = length (heap s) \<and>
     (\<forall>a<length (heap s). sid (heap t ! a) = sid (heap s ! a) \<and> Target (heap t ! a) = Target (heap s ! a)
       \<and> buf (heap t ! a) = buf (heap s ! a)) \<and>
     streams t \<subseteq>\<^sub>m streams s"

definition mild :: "session \<Rightarrow> session \<Rightarrow> bool" where
  "mild s t \<longleftrightarrow> calm s t \<and> (\<exists>fs. emits fs s t \<and> (\<forall>f\<in>set fs. neutral f))"

definition quiet :: "session \<Rightarrow> session \<Rightarrow> bool" where
  "quiet s t \<longleftrightarrow> calm s t \<and> (\<forall>a<length (heap s). sendWin (heap t ! a) = sendWin (heap s ! a)) \<and>
     (\<exists>fs. emits fs s t \<and> (\<forall>f\<in>set fs. control f))"

lemma quiet_mild: "quiet s t \<Longrightarrow> mild s t"
  by (auto simp: quiet_def mild_def neutral_def)

lemma calm_refl [simp]: "calm s s"
  by (simp add: calm_def)

lemma calm_trans: "calm s t \<Longrightarrow> calm t u \<Longrightarrow> calm s u"
  by (auto simp: calm_def intro: map_le_trans)

lemma quietI: "calm s t \<Longrightarrow> \<forall>a<length (heap s). sendWin (heap t ! a) = sendWin (heap s ! a) \<Longrightarrow>
    emits fs s t \<Longrightarrow> \<forall>f\<in>set fs. control f \<Longrightarrow> quiet s t"
  by (auto simp: quiet_def)

lemma quiet_silent: "calm s t \<Longrightarrow> \<forall>a<length (heap s). sendWin (heap t ! a) = sendWin (heap s ! a) \<Longrightarrow>
    wbytes (conn t) = wbytes (conn s) \<Longrightarrow> quiet s t"
  using quietI [OF _ _ emits_none] by simp

lemma quiet_refl [simp]: "quiet s s"
  by (simp add: quiet_silent)

lemma quiet_trans:
  assumes "quiet s t" and "quiet t u"
  shows "quiet s u"
proof -
  from assms(1) obtain fs where fs: "emits fs s t" "\<forall>f\<in>set fs. control f" by (auto simp: quiet_def)
  from assms(2) obtain gs where gs: "emits gs t u" "\<forall>f\<in>set gs. control f" by (auto simp: quiet_def)
  moreover have "calm s u" using assms by (auto simp: quiet_def intro: calm_trans)
  moreover have "\<forall>a<length (heap s). sendWin (heap u ! a) = sendWin (heap s ! a)"
    using assms by (auto simp: quiet_def calm_def)
  ultimately show ?thesis using fs(2) gs(2) by (intro quietI [OF _ _ emits_trans [OF fs(1) gs(1)]]) auto
qed

section \<open>The building blocks\<close>

lemma emits_writeFrame:
  assumes "emittable f"
  shows "emits (if fst (writeFrame f s) = None then [f] else []) s (snd (writeFrame f s))"
  by (cases rule: writeFrame_cases [OF assms, of s]) (use assms in \<open>simp_all add: emits_def\<close>)

lemma calm_writeFrame [simp]: "calm s (snd (writeFrame f s))"
  by (simp add: calm_def)

lemma quiet_writeFrame: "emittable f \<Longrightarrow> control f \<Longrightarrow> quiet s (snd (writeFrame f s))"
  by (rule quietI [OF calm_writeFrame _ emits_writeFrame]) simp_all

lemma quiet_written: "writeFrame f t = (e, u) \<Longrightarrow> emittable f \<Longrightarrow> control f \<Longrightarrow> quiet s t \<Longrightarrow> quiet s u"
  using quiet_trans [OF _ quiet_writeFrame [of f t]] by simp

lemma quiet_upd:
  "sid (g (heap s ! a)) = sid (heap s ! a) \<Longrightarrow> Target (g (heap s ! a)) = Target (heap s ! a) \<Longrightarrow>
    buf (g (heap s ! a)) = buf (heap s ! a) \<Longrightarrow> sendWin (g (heap s ! a)) = sendWin (heap s ! a) \<Longrightarrow>
    quiet s (upd_stream a g s)"
  by (rule quiet_silent) (auto simp: calm_def nth_list_update')

lemma quiet_remove: "quiet s (removeStream i s)"
  by (rule quiet_silent) (auto simp: calm_def removeStream_def map_le_def)

lemma quiet_reset: "quiet s (resetStream i s)"
  using quiet_trans [OF quiet_remove quiet_upd]
  by (auto simp: resetStream_def remoteReset_def quiet_remove split: option.split)

lemma quiet_abort: "quiet s (abortStream i r s)"
  by (simp add: abortStream_def quiet_writeFrame emittable_mk_frame)

lemma quiet_close: "quiet s (closeWithError c s)"
proof (cases "closeOnce s")
  case True
  then show ?thesis by (simp add: closeWithError_def)
next
  case False
  define f where "f = mk_frame FlagGOAWAY 0 [if c then ReasonProtocol else ReasonNormal]"
  define s1 where "s1 = snd (writeFrame f (s\<lparr>closeOnce := True\<rparr>))"
  have "quiet s (s\<lparr>closeOnce := True\<rparr>)" by (rule quiet_silent) (simp_all add: calm_def)
  moreover have "quiet (s\<lparr>closeOnce := True\<rparr>) s1"
    unfolding s1_def f_def by (rule quiet_writeFrame) (simp_all add: emittable_mk_frame)
  moreover have "quiet s1 (closeWithError c s)"
    using False
    by (intro quiet_silent)
      (auto simp: calm_def closeWithError_def Let_def s1_def f_def wake_all_def sessionClosed_def)
  ultimately show ?thesis by (blast intro: quiet_trans)
qed

lemma quiet_Accept: "quiet s (snd (Accept pick s))"
  by (rule quiet_silent) (auto simp: Accept_def calm_def split: list.split)

lemma quiet_StreamClose: "quiet s (snd (StreamClose a s))"
proof -
  obtain r st where c: "Close_locked (heap s ! a) = (r, st)" by force
  show ?thesis
  proof (cases r)
    case None
    with c show ?thesis by (simp add: StreamClose_def)
  next
    case (Some both)
    define s1 where "s1 = upd_stream a (\<lambda>_. st) s"
    have "quiet s s1"
      using c unfolding s1_def by (intro quiet_upd) (auto simp: Close_locked_def split: if_splits)
    then have "quiet s (if both then removeStream (sid st) s1 else s1)"
      using quiet_trans [OF _ quiet_remove] by simp
    then show ?thesis
      using quiet_trans [OF _ quiet_writeFrame]
      by (auto simp: StreamClose_def c Some s1_def Let_def emittable_mk_frame)
  qed
qed

lemma quiet_tick: "quiet s (snd (keepAlive_tick now s))"
proof -
  obtain e s' where w: "writeFrame (mk_frame FlagPING 0 (put_u64le (word_of_int now))) s = (e, s')" by force
  have "quiet s s'"
    by (rule quiet_written [OF w]) (simp_all add: emittable_mk_frame put_u64le_def)
  with quiet_trans [OF _ quiet_close] quiet_close show ?thesis
    by (cases e) (auto simp: keepAlive_tick_def w)
qed

section \<open>Opening, writing, reading\<close>

text \<open>A stream is added, in the table under its id or not, and something is written.\<close>

definition adds_stream :: "u32 \<Rightarrow> target \<Rightarrow> session \<Rightarrow> session \<Rightarrow> bool" where
  "adds_stream i t s s' \<longleftrightarrow> cfg s' = cfg s \<and> heap s' = heap s @ [newStream i t (uint (InitialWindow (cfg s)))] \<and>
     (\<forall>j. j \<noteq> i \<longrightarrow> streams s' j = streams s j) \<and> streams s' i \<in> {None, Some (length (heap s))}"

lemma Open_effect:
  assumes "length (AppendTarget [] t) < 2 ^ 32"
  obtains (shut) "snd (Open t s) = s"
  | (added) fs where "adds_stream (nextID s) t s (snd (Open t s))" "nextID (snd (Open t s)) = nextID s + 2"
      "emits fs s (snd (Open t s))" "set fs \<subseteq> {mk_frame FlagSYN (nextID s) (AppendTarget [] t)}"
      "length fs \<le> 1"
proof (cases "closed s")
  case True
  then show ?thesis using shut by (simp add: Open_def)
next
  case False
  let ?f = "mk_frame FlagSYN (nextID s) (AppendTarget [] t)"
  define s1 where "s1 = s\<lparr>nextID := nextID s + 2,
      heap := heap s @ [newStream (nextID s) t (uint (InitialWindow (cfg s)))],
      streams := (streams s)(nextID s \<mapsto> length (heap s))\<rparr>"
  have "emittable ?f" using assms by (simp add: emittable_mk_frame)
  obtain e s2 where w: "writeFrame ?f s1 = (e, s2)" by force
  from emits_writeFrame [OF \<open>emittable ?f\<close>, of s1, unfolded w]
  have "emits (if e = None then [?f] else []) s1 s2" by simp
  then have em: "emits (if e = None then [?f] else []) s s2" by (simp add: emits_def s1_def)
  from False w have open': "snd (Open t s) = (if e = None then s2 else removeStream (nextID s) s2)"
    by (cases e) (simp_all add: Open_def Let_def s1_def)
  from writeFrame_fields [of ?f s1, unfolded w snd_conv]
  have s2: "cfg s2 = cfg s" "heap s2 = heap s1" "streams s2 = streams s1" "nextID s2 = nextID s + 2"
    by (simp_all add: s1_def)
  have "nextID (removeStream (nextID s) s2) = nextID s + 2" by (simp add: removeStream_def s2(4))
  show ?thesis
  proof (rule added)
    show "adds_stream (nextID s) t s (snd (Open t s))" "nextID (snd (Open t s)) = nextID s + 2"
      using s2 \<open>nextID (removeStream (nextID s) s2) = nextID s + 2\<close>
      by (auto simp: open' adds_stream_def s1_def)
    show "emits (if e = None then [?f] else []) s (snd (Open t s))"
      using em by (auto simp: open' emits_def)
  qed auto
qed

lemma Write_effect:
  assumes "a < length (heap s)" and "tot < length p" and "length p < 2 ^ 32"
    and "Write_round a p tot s = (r, s')"
  shows "calm s s'" and "emits (case r of
      Continue t \<Rightarrow> [mk_frame FlagDATA (sid (heap s ! a)) (take (t - tot) (drop tot p))] | Stop _ \<Rightarrow> []) s s'"
    and "0 \<le> sendWin (heap s ! a) \<Longrightarrow> 0 \<le> sendWin (heap s' ! a) \<and>
      sendWin (heap s' ! a) + int (length (case r of Continue t \<Rightarrow> take (t - tot) (drop tot p) | Stop _ \<Rightarrow> []))
        \<le> sendWin (heap s ! a)"
    and "\<forall>b<length (heap s). b \<noteq> a \<longrightarrow> heap s' ! b = heap s ! b"
proof -
  obtain out st where lk: "Write_locked (MaxFramePayload (cfg s)) (length p - tot) (heap s ! a) = (out, st)"
    by force
  define s1 where "s1 = upd_stream a (\<lambda>_. st) s"
  have "Target st = Target (heap s ! a)"
    using lk by (auto simp: Write_locked_def Let_def split: if_splits)
  with Write_locked_fields [OF lk] have s1: "calm s s1" "sid st = sid (heap s ! a)"
    by (auto simp: s1_def calm_def nth_list_update')
  have heap1: "heap s1 = (heap s)[a := st]" "conn s1 = conn s" by (simp_all add: s1_def)
  have "calm s s' \<and> emits (case r of
      Continue t \<Rightarrow> [mk_frame FlagDATA (sid (heap s ! a)) (take (t - tot) (drop tot p))] | Stop _ \<Rightarrow> []) s s' \<and>
    (0 \<le> sendWin (heap s ! a) \<longrightarrow> 0 \<le> sendWin (heap s' ! a) \<and>
      sendWin (heap s' ! a) + int (length (case r of Continue t \<Rightarrow> take (t - tot) (drop tot p) | Stop _ \<Rightarrow> []))
        \<le> sendWin (heap s ! a)) \<and>
    (\<forall>b<length (heap s). b \<noteq> a \<longrightarrow> heap s' ! b = heap s ! b)"
  proof (cases out)
    case (WriteChunk n)
    let ?f = "mk_frame FlagDATA (sid st) (take n (drop tot p))"
    obtain e s2 where w: "writeFrame ?f s1 = (e, s2)" by force
    have "emittable ?f" using assms(3) by (simp add: emittable_mk_frame)
    from emits_writeFrame [OF this, of s1, unfolded w] have "emits (if e = None then [?f] else []) s1 s2"
      by simp
    then have em: "emits (if e = None then [?f] else []) s s2" by (simp add: emits_def heap1)
    have calm: "calm s s2" using calm_trans [OF s1(1) calm_writeFrame, of ?f] by (simp add: w)
    have heap2: "heap s2 = (heap s)[a := st]" using writeFrame_fields(2) [of ?f s1] by (simp add: w heap1)
    note chunk = Write_locked_chunk [OF lk [unfolded WriteChunk]]
    have win: "sendWin st = sendWin (heap s ! a) - int n" "0 \<le> sendWin st"
      using chunk by (cases "heap s ! a", simp)+
    have rs: "(r, s') = (case e of Some err \<Rightarrow> (Stop (WriteFailed tot err), s2) | None \<Rightarrow> (Continue (tot + n), s2))"
      using assms(4) by (simp add: Write_round_def lk WriteChunk w s1_def [symmetric] split: option.splits)
    show ?thesis
      using rs em calm win s1(2) assms(1) by (cases e) (simp_all add: heap2)
  next
    case WritePanic
    have "\<not> 0 \<le> sendWin (heap s ! a)"
      using Write_locked_no_panic [of "heap s ! a" "MaxFramePayload (cfg s)" "length p - tot"] lk WritePanic by auto
    then show ?thesis using assms(4) s1 by (auto simp: Write_round_def lk WritePanic emits_def heap1 s1_def)
  qed (use assms(4) s1 in \<open>auto simp: Write_round_def lk emits_def\<close>)
  then show "calm s s'" "emits (case r of
      Continue t \<Rightarrow> [mk_frame FlagDATA (sid (heap s ! a)) (take (t - tot) (drop tot p))] | Stop _ \<Rightarrow> []) s s'"
    "0 \<le> sendWin (heap s ! a) \<Longrightarrow> 0 \<le> sendWin (heap s' ! a) \<and>
      sendWin (heap s' ! a) + int (length (case r of Continue t \<Rightarrow> take (t - tot) (drop tot p) | Stop _ \<Rightarrow> []))
        \<le> sendWin (heap s ! a)"
    "\<forall>b<length (heap s). b \<noteq> a \<longrightarrow> heap s' ! b = heap s ! b"
    by simp_all
qed

text \<open>\<open>Read\<close>: the bytes leave the buffer, then the credit is written.\<close>

lemma Read_effect:
  assumes "sess_inv s" and "a < length (heap s)" and "StreamRead a k s = (r, s')"
  obtains s1 gs where "calm s1 s'" "\<forall>b<length (heap s1). sendWin (heap s' ! b) = sendWin (heap s1 ! b)"
    "emits gs s1 s'" "gs = [] \<or> (\<exists>u. gs = [mk_frame FlagWIN (sid (heap s ! a)) (put_u32 u)] \<and>
      unat u = length (case r of ReadData xs _ \<Rightarrow> xs | _ \<Rightarrow> []))" "s1 = upd_stream a (\<lambda>st. st\<lparr>buf := buf (heap s1 ! a)\<rparr>) s"
    "buf (heap s ! a) = (case r of ReadData xs _ \<Rightarrow> xs | _ \<Rightarrow> []) @ buf (heap s1 ! a)"
proof -
  have same: "upd_stream a (\<lambda>st. st\<lparr>buf := buf (heap s ! a)\<rparr>) s = s" by (simp add: upd_stream_def)
  obtain x st where rd: "Read_locked k (heap s ! a) = (x, st)" by force
  show ?thesis
  proof (cases "k \<noteq> 0 \<and> (\<exists>xs u. x = ReadData xs u)")
    case True
    then obtain xs u where x: "x = ReadData xs u" by blast
    from bufs_okD [OF assms(1,2)] unat_u32_bound [of "InitialWindow (cfg s)"]
    have "length (buf (heap s ! a)) < 2 ^ 32" "recvUnacked (heap s ! a) = 0" by simp_all
    with Read_locked_data [of k "heap s ! a" xs u st] rd x
    have st: "buf (heap s ! a) = xs @ buf st" "st = (heap s ! a)\<lparr>buf := buf st\<rparr>" and u: "unat u = length xs"
      by simp_all
    let ?s1 = "upd_stream a (\<lambda>_. st) s"
    have sidst: "sid st = sid (heap s ! a)" using rd by (auto simp: Read_locked_def Let_def split: if_splits)
    let ?f = "mk_frame FlagWIN (sid st) (put_u32 u)"
    have s': "s' = snd (writeFrame ?f ?s1)" and r: "r = ReadData xs u"
      using assms(3) True by (auto simp: StreamRead_def rd x appendU32_def)
    have f: "emittable ?f" by (simp add: emittable_mk_frame)
    show ?thesis
    proof (rule that [of ?s1 "if fst (writeFrame ?f ?s1) = None then [?f] else []"])
      show "emits (if fst (writeFrame ?f ?s1) = None then [?f] else []) ?s1 s'"
        unfolding s' by (rule emits_writeFrame [OF f])
      show "(if fst (writeFrame ?f ?s1) = None then [?f] else []) = [] \<or>
          (\<exists>u. (if fst (writeFrame ?f ?s1) = None then [?f] else []) = [mk_frame FlagWIN (sid (heap s ! a)) (put_u32 u)]
            \<and> unat u = length (case r of ReadData xs _ \<Rightarrow> xs | _ \<Rightarrow> []))"
        using u r by (auto simp: sidst intro: exI [of _ u])
    qed (use st assms(2) r s' in \<open>simp_all add: upd_stream_def\<close>)
  next
    case False
    then have "s' = s" "(case r of ReadData xs _ \<Rightarrow> xs | _ \<Rightarrow> []) = []"
      using assms(3) by (cases x; auto simp: StreamRead_def rd split: if_splits)+
    then show ?thesis using that [of s "[]"] same by (simp add: emits_def)
  qed
qed

section \<open>Inbound frames\<close>

lemma quiet_lastRecv: "quiet s (s\<lparr>lastRecv := t\<rparr>)"
  by (rule quiet_silent) (simp_all add: calm_def)

lemma quiet_after_frame:
  "handleFrame f (s\<lparr>lastRecv := now\<rparr>) = (e, s') \<Longrightarrow> quiet s' (snd (readLoop_frame now f s))"
  using quiet_trans [OF quiet_close quiet_close] by (cases e) (simp_all add: readLoop_frame_def)

lemma quiet_FIN: "quiet s (handleFIN i s)"
proof (cases "streams s i")
  case (Some a)
  have "quiet s (upd_stream a (\<lambda>st. st\<lparr>finRecv := True\<rparr>) s)" by (rule quiet_upd) simp_all
  from quiet_trans [OF this quiet_remove] this Some show ?thesis
    by (simp add: handleFIN_def remoteClosed_def Let_def upd_stream_def)
qed (simp add: handleFIN_def)

lemma win_flags: "is_win f \<Longrightarrow> \<not> has_flag f FlagSYN \<and> \<not> has_flag f FlagDATA \<and> \<not> has_flag f FlagFIN \<and>
    \<not> has_flag f FlagRST \<and> has_flag f FlagWIN"
  by (simp add: is_win_def has_flag_def flag_defs)

lemma control_cases:
  assumes "control f"
  obtains (fin) "handleFrame f s = (None, handleFIN (StreamID f) s)"
  | (rst) "handleFrame f s = (None, resetStream (StreamID f) s)"
  | (ping) "Flags f = FlagPING" "handleFrame f s = writeFrame (mk_frame FlagPONG 0 (Payload f)) s"
  | (pong) "handleFrame f s = (None, s)"
  | (goaway) "Flags f = FlagGOAWAY" "handleFrame f s = (Some ErrSessionClosed, s)"
proof -
  from assms consider "Flags f = FlagFIN" | "Flags f = FlagRST" | "Flags f = FlagPING" | "Flags f = FlagPONG"
    | "Flags f = FlagGOAWAY" by (auto simp: control_def)
  then show ?thesis
  proof cases
    case 1 then show ?thesis by (intro fin) (simp add: handleFrame_def has_flag_def flag_defs)
  next
    case 2 then show ?thesis by (intro rst) (simp add: handleFrame_def has_flag_def flag_defs)
  next
    case 3 then show ?thesis by (intro ping) (simp_all add: handleFrame_def has_flag_def flag_defs)
  next
    case 4 then show ?thesis by (intro pong) (simp add: handleFrame_def has_flag_def flag_defs)
  next
    case 5 then show ?thesis by (intro goaway) (simp_all add: handleFrame_def has_flag_def flag_defs)
  qed
qed

lemma control_effect:
  assumes "control f" and "length (Payload f) < 2 ^ 32"
  shows "quiet s (snd (readLoop_frame now f s))"
proof -
  let ?s = "s\<lparr>lastRecv := now\<rparr>"
  obtain e s' where h: "handleFrame f ?s = (e, s')" by force
  have pong: "quiet ?s (snd (writeFrame (mk_frame FlagPONG 0 (Payload f)) ?s))"
    using assms(2) by (simp add: quiet_writeFrame emittable_mk_frame)
  have "quiet ?s (snd (handleFrame f ?s))"
    by (cases rule: control_cases [OF assms(1), of ?s]) (simp_all add: quiet_FIN quiet_reset pong)
  with h quiet_after_frame [OF h] quiet_lastRecv [of s now] show ?thesis by (auto intro: quiet_trans)
qed

lemma control_continues:
  assumes "control f" and "Flags f \<noteq> FlagGOAWAY" and "length (Payload f) \<le> unat (MaxFramePayload (cfg s))"
    and "Flags f = FlagPING \<Longrightarrow> \<not> closed s \<and> wok (conn s)"
  shows "fst (readLoop_frame now f s)"
  by (cases rule: control_cases [OF assms(1), of "s\<lparr>lastRecv := now\<rparr>"])
    (use assms in \<open>simp_all add: readLoop_frame_def writeFrame_ok\<close>)

lemma win_effect:
  assumes "is_win f"
  shows "readLoop_frame now f s =
    (True, case streams s (StreamID f) of
             None \<Rightarrow> s\<lparr>lastRecv := now\<rparr>
           | Some a \<Rightarrow> upd_stream a (addSendWindow (uint (get_u32 (Payload f)))) (s\<lparr>lastRecv := now\<rparr>))"
  using win_flags [OF assms] by (simp add: readLoop_frame_def handleFrame_def split: option.split)

lemma win_mild:
  assumes "is_win f"
  shows "mild s (snd (readLoop_frame now f s))"
proof -
  have "calm s (upd_stream a (addSendWindow n) (s\<lparr>lastRecv := now\<rparr>))" for a n
    by (auto simp: calm_def addSendWindow_def nth_list_update')
  moreover have "calm s (s\<lparr>lastRecv := now\<rparr>)" by (simp add: calm_def)
  ultimately show ?thesis
    unfolding win_effect [OF assms] mild_def
    by (intro conjI exI [of _ "[]"] emits_none) (simp_all split: option.split)
qed

lemma data_effect:
  assumes "is_data f"
  obtains (dropped) "quiet s (snd (readLoop_frame now f s))"
      "streams s (StreamID f) = None \<or> \<not> fst (readLoop_frame now f s)"
  | (pushed) a where "streams s (StreamID f) = Some a"
      "snd (readLoop_frame now f s) = upd_stream a (\<lambda>st. st\<lparr>buf := buf st @ Payload f\<rparr>) (s\<lparr>lastRecv := now\<rparr>)"
proof (cases "streams s (StreamID f)")
  case None
  then have "handleFrame f (s\<lparr>lastRecv := now\<rparr>) = (None, abortStream (StreamID f) ReasonBusy (s\<lparr>lastRecv := now\<rparr>))"
    using assms by (simp add: handleFrame_def is_data_def)
  with quiet_trans [OF quiet_lastRecv quiet_abort] None show ?thesis
    by (intro dropped) (simp_all add: readLoop_frame_def)
next
  case (Some a)
  let ?s = "s\<lparr>lastRecv := now\<rparr>"
  obtain e st where p: "pushData (InitialWindow (cfg s)) (Payload f) (heap s ! a) = (e, st)" by force
  then have h: "handleFrame f ?s = (e, upd_stream a (\<lambda>_. st) ?s)"
    using assms Some by (simp add: handleFrame_def is_data_def)
  show ?thesis
  proof (cases e)
    case None
    then have "st = (heap s ! a)\<lparr>buf := buf (heap s ! a) @ Payload f\<rparr>"
      using p by (auto simp: pushData_def split: if_splits)
    with h None Some show ?thesis
      by (intro pushed) (simp_all add: readLoop_frame_def upd_stream_def)
  next
    case (Some err)
    then have "st = heap s ! a" using p by (auto simp: pushData_def split: if_splits)
    then have eq: "upd_stream a (\<lambda>_. st) ?s = ?s" by (simp add: upd_stream_def)
    show ?thesis
    proof (rule dropped)
      show "quiet s (snd (readLoop_frame now f s))"
        using quiet_trans [OF quiet_lastRecv quiet_after_frame [OF h [unfolded eq]]] .
      show "streams s (StreamID f) = None \<or> \<not> fst (readLoop_frame now f s)"
        by (simp add: readLoop_frame_def h Some)
    qed
  qed
qed

lemma syn_effect:
  assumes "is_syn f"
  obtains (refused) "quiet s (snd (readLoop_frame now f s))"
  | (added) t s1 where "ParseTarget (Payload f) = Inr t" "adds_stream (StreamID f) t s s1" "nextID s1 = nextID s"
      "emits [] s s1" "quiet s1 (snd (readLoop_frame now f s))" "sess_inv s \<Longrightarrow> sess_inv s1"
      "conn s1 = conn s" "closed s1 = closed s"
proof -
  let ?s = "s\<lparr>lastRecv := now\<rparr>"
  have h: "snd (readLoop_frame now f s) = snd (handleSYN f ?s)"
    using assms by (auto simp: readLoop_frame_def handleFrame_def is_syn_def handleSYN_def Let_def split: sum.split)
  show ?thesis
  proof (cases "ParseTarget (Payload f)")
    case (Inl e)
    with quiet_trans [OF quiet_lastRecv quiet_abort] show ?thesis
      by (intro refused) (simp add: h handleSYN_def)
  next
    case (Inr t)
    show ?thesis
    proof (cases "streams s (StreamID f)")
      case (Some a)
      with Inr quiet_trans [OF quiet_lastRecv quiet_abort] show ?thesis
        by (intro refused) (simp add: h handleSYN_def)
    next
      case None
      define s1 where "s1 = ?s\<lparr>heap := heap s @ [newStream (StreamID f) t (uint (InitialWindow (cfg s)))],
          streams := (streams s)(StreamID f \<mapsto> length (heap s))\<rparr>"
      have "quiet s1 (s1\<lparr>acceptCh := q\<rparr>)" for q by (rule quiet_silent) (simp_all add: calm_def)
      moreover have "quiet s1 (abortStream (StreamID f) ReasonBusy (resetStream (StreamID f) s1))"
        by (rule quiet_trans [OF quiet_reset quiet_abort])
      ultimately have "quiet s1 (snd (handleSYN f ?s))"
        using Inr None by (simp add: handleSYN_def Let_def s1_def [symmetric])
      moreover have "sess_inv s1" if "sess_inv s"
        using add_stream_inv [of ?s "StreamID f" t] that by (simp add: s1_def)
      ultimately show ?thesis
        using Inr by (intro added [of t s1]) (auto simp: h, auto simp: s1_def adds_stream_def emits_def)
    qed
  qed
qed

end
