(* ===== verification/Peers_Inv.thy ===== *)
theory Peers_Inv
  imports Peers_Effects "HOL-Library.Sublist"
begin

unbundle bit_operations_syntax

text \<open>
  What two connected sessions keep. For each end: the ids of its streams are distinct, those of its
  own parity come from its counter, a SYN is the first frame of its id and names a stream opened
  here, DATA is only written for streams it has, and the bytes its \<open>Write\<close> calls reported are the
  DATA it has written. Between the ends: the receiver's streams of the peer's parity come from SYNs
  it has handled, and what a stream has delivered and holds is the start of the DATA handled for its
  id, and all of it while the stream is in the table.
\<close>

definition own :: "session \<Rightarrow> u32 \<Rightarrow> bool" where
  "own s i \<longleftrightarrow> odd (unat i) = IsInitiator (cfg s)"

text \<open>\<open>f\<close> is no SYN of the id of an earlier SYN or DATA frame \<open>g\<close>.\<close>

definition in_order :: "frame \<Rightarrow> frame \<Rightarrow> bool" where
  "in_order g f \<longleftrightarrow> \<not> (is_syn f \<and> StreamID g = StreamID f \<and> (is_syn g \<or> is_data g))"

definition ids :: "session \<Rightarrow> u32 list" where "ids s = map sid (heap s)"

definition tags :: "session \<Rightarrow> (u32 \<times> target) list" where
  "tags s = map (\<lambda>st. (sid st, Target st)) (heap s)"

definition ids_ok :: "session \<Rightarrow> bool" where
  "ids_ok s \<longleftrightarrow> distinct (ids s) \<and>
     (\<exists>b k. k \<le> length (ids s) \<and> nextID s = b + 2 * of_nat k \<and>
       (\<forall>i\<in>set (ids s). own s i \<longrightarrow> (\<exists>j<k. i = b + 2 * of_nat j)))"

definition sent_ok :: "session \<Rightarrow> frame list \<Rightarrow> bool" where
  "sent_ok s fs \<longleftrightarrow> sorted_wrt in_order fs \<and> (\<forall>f\<in>set fs. is_syn f \<or> is_data f \<or> neutral f) \<and>
     (\<forall>f\<in>set fs. is_syn f \<longrightarrow> own s (StreamID f) \<and>
       (\<exists>t. (StreamID f, t) \<in> set (tags s) \<and> Payload f = AppendTarget [] t)) \<and>
     (\<forall>f\<in>set fs. is_data f \<longrightarrow> StreamID f \<in> set (ids s))"

definition node_ok :: "node \<Rightarrow> bool" where
  "node_ok n \<longleftrightarrow> sess_inv (n_ses n) \<and> ids_ok (n_ses n) \<and> sent_ok (n_ses n) (n_sent n) \<and>
     wbytes (conn (n_ses n)) = concat (map encode_frame (n_sent n)) \<and> (\<forall>f\<in>set (n_sent n). emittable f) \<and>
     (\<forall>a\<ge>length (heap (n_ses n)). n_wrote n a = [] \<and> n_got n a = []) \<and>
     (\<forall>a<length (heap (n_ses n)). n_wrote n a = data_of (sid (heap (n_ses n) ! a)) (n_sent n))"

text \<open>What \<open>y\<close> has made of the frames \<open>fs\<close> that its peer has written.\<close>

definition seen_ok :: "frame list \<Rightarrow> node \<Rightarrow> bool" where
  "seen_ok fs y \<longleftrightarrow> prefix (n_seen y) fs \<and>
     (\<forall>(i, t)\<in>set (tags (n_ses y)). \<not> own (n_ses y) i \<longrightarrow>
       (\<exists>f\<in>set (n_seen y). is_syn f \<and> StreamID f = i \<and> ParseTarget (Payload f) = Inr t)) \<and>
     (\<forall>b<length (heap (n_ses y)).
       prefix (n_got y b @ buf (heap (n_ses y) ! b)) (data_of (sid (heap (n_ses y) ! b)) (n_seen y)) \<and>
       (n_reading y \<longrightarrow> streams (n_ses y) (sid (heap (n_ses y) ! b)) = Some b \<longrightarrow>
         n_got y b @ buf (heap (n_ses y) ! b) = data_of (sid (heap (n_ses y) ! b)) (n_seen y)))"

definition peers_ok :: "node \<times> node \<Rightarrow> bool" where
  "peers_ok p \<longleftrightarrow> node_ok (fst p) \<and> node_ok (snd p) \<and>
     seen_ok (n_sent (fst p)) (snd p) \<and> seen_ok (n_sent (snd p)) (fst p) \<and>
     IsInitiator (cfg (n_ses (fst p))) \<noteq> IsInitiator (cfg (n_ses (snd p)))"

lemmas node_defs = node_ok_def ids_ok_def sent_ok_def

section \<open>Facts\<close>

lemma seen_ok_more: "seen_ok fs y \<Longrightarrow> seen_ok (fs @ gs) y"
  by (auto simp: seen_ok_def)

lemma in_order_neutral [simp]: "neutral f \<Longrightarrow> in_order g f" "neutral g \<Longrightarrow> in_order g f"
  by (auto simp: in_order_def dest: neutralD)

lemma sorted_neutral: "\<forall>f\<in>set fs. neutral f \<Longrightarrow> sorted_wrt in_order fs"
  by (induction fs) auto

lemma data_of_neutral [simp]: "\<forall>f\<in>set fs. neutral f \<Longrightarrow> data_of i fs = []"
  by (rule data_of_none) (auto dest: neutralD)

lemma own_cfg: "cfg t = cfg s \<Longrightarrow> own t = own s"
  by (simp add: own_def fun_eq_iff)

text \<open>Calm steps keep the ids and, with neutral frames, what has been sent.\<close>

lemma calmD:
  assumes "calm s t"
  shows "ids t = ids s" "tags t = tags s" "own t = own s" "nextID t = nextID s"
    "length (heap t) = length (heap s)" "\<And>i a. streams t i = Some a \<Longrightarrow> streams s i = Some a"
    "\<And>a. a < length (heap s) \<Longrightarrow> sid (heap t ! a) = sid (heap s ! a) \<and> buf (heap t ! a) = buf (heap s ! a)"
  using assms own_cfg [of t s]
  by (auto simp: calm_def ids_def tags_def map_le_def dom_def intro!: nth_equalityI)

lemma ids_ok_calm: "calm s t \<Longrightarrow> ids_ok s \<Longrightarrow> ids_ok t"
  by (simp add: ids_ok_def calmD)

lemma sent_ok_calm:
  assumes "calm s t" and "sent_ok s fs" and "\<forall>f\<in>set gs. neutral f"
  shows "sent_ok t (fs @ gs)"
  using assms(2,3)
  by (auto simp: sent_ok_def calmD [OF assms(1)] sorted_wrt_append sorted_neutral dest: neutralD)

text \<open>A node whose session makes a mild step.\<close>

lemma mild_node:
  assumes "mild (n_ses n) s" and "node_ok n" and "sess_inv s"
  shows "node_ok (advance s n)"
proof -
  from assms(1) obtain fs where calm: "calm (n_ses n) s" and fs: "emits fs (n_ses n) s" "\<forall>f\<in>set fs. neutral f"
    by (auto simp: mild_def)
  from fs(1) have "advance s n = n\<lparr>n_ses := s, n_sent := n_sent n @ fs\<rparr>" by (simp add: advance_def emits_new)
  with assms(2,3) fs ids_ok_calm [OF calm] sent_ok_calm [OF calm _ fs(2)] calmD [OF calm] show ?thesis
    by (auto simp: node_ok_def emits_def)
qed

lemma mild_seen:
  assumes "mild (n_ses n) s" and "seen_ok fs n"
  shows "seen_ok fs (advance s n)"
proof -
  from assms(1) have calm: "calm (n_ses n) s" by (simp add: mild_def)
  from assms(2) show ?thesis
    by (auto simp: seen_ok_def advance_def calmD(2,3,5) [OF calm] calmD(7) [OF calm] dest: calmD(6) [OF calm])
qed

end
