(* ===== verification/Peers_Steps.thy ===== *)
theory Peers_Steps
  imports Peers_Inv
begin

unbundle bit_operations_syntax

text \<open>
  Every step of two connected sessions keeps \<open>peers_ok\<close>, as long as neither has had \<open>2 ^ 31\<close>
  streams: after that many the id counter of a session wraps around.
\<close>

section \<open>Writing and reading\<close>

lemma node_okD:
  assumes "node_ok n"
  shows "sess_inv (n_ses n)" "ids_ok (n_ses n)" "sent_ok (n_ses n) (n_sent n)" "distinct (ids (n_ses n))"
    "\<And>a. length (heap (n_ses n)) \<le> a \<Longrightarrow> n_wrote n a = [] \<and> n_got n a = []"
    "\<And>a. a < length (heap (n_ses n)) \<Longrightarrow> n_wrote n a = data_of (sid (heap (n_ses n) ! a)) (n_sent n)"
  using assms by (simp_all add: node_ok_def ids_ok_def)

lemma sid_inj:
  "distinct (ids s) \<Longrightarrow> a < length (heap s) \<Longrightarrow> b < length (heap s) \<Longrightarrow>
    sid (heap s ! a) = sid (heap s ! b) \<longleftrightarrow> a = b"
  by (auto simp: ids_def distinct_conv_nth)

lemma sid_in_ids: "a < length (heap s) \<Longrightarrow> sid (heap s ! a) \<in> set (ids s)"
  by (simp add: ids_def)

lemma write_node:
  assumes "node_ok n" and "a < length (heap (n_ses n))" and "tot < length p" and "length p < 2 ^ 32"
    and "Write_round a p tot (n_ses n) = (r, s)" and "sess_inv s"
  shows "node_ok ((advance s n)\<lparr>n_wrote := (n_wrote n)(a := n_wrote n a @
      (case r of Continue t \<Rightarrow> take (t - tot) (drop tot p) | Stop _ \<Rightarrow> []))\<rparr>)"
proof -
  note ok = node_okD [OF assms(1)]
  define i where "i = sid (heap (n_ses n) ! a)"
  define d where "d = (case r of Continue t \<Rightarrow> take (t - tot) (drop tot p) | Stop _ \<Rightarrow> [])"
  define fs where "fs = (case r of Continue t \<Rightarrow> [mk_frame FlagDATA i d] | Stop _ \<Rightarrow> [])"
  have calm: "calm (n_ses n) s" by (rule Write_effect(1) [OF assms(2-5)])
  from Write_effect(2) [OF assms(2-5)] have em: "emits fs (n_ses n) s"
    by (auto simp: fs_def d_def i_def split: round_out.split)
  have data: "data_of j fs = (if j = i then d else [])" for j
    by (simp add: fs_def d_def split: round_out.split)
  have kind: "\<forall>f\<in>set fs. is_data f \<and> \<not> is_syn f \<and> StreamID f = i"
    by (simp add: fs_def split: round_out.split)
  have adv: "advance s n = n\<lparr>n_ses := s, n_sent := n_sent n @ fs\<rparr>"
    using em by (simp add: advance_def emits_new)
  have "sorted_wrt in_order fs" by (simp add: fs_def split: round_out.split)
  with kind ok(3) sid_in_ids [OF assms(2)] have sent: "sent_ok s (n_sent n @ fs)"
    by (auto simp: sent_ok_def sorted_wrt_append calmD(1-3) [OF calm] in_order_def i_def)
  have "((n_wrote n)(a := n_wrote n a @ d)) b = data_of (sid (heap s ! b)) (n_sent n @ fs)"
    if "b < length (heap s)" for b
    using that ok(6) [of b] ok(6) [of a] ok(4) assms(2) sid_inj [of "n_ses n" b a]
    by (simp add: calmD(5) [OF calm] calmD(7) [OF calm] data i_def)
  moreover have "wbytes (conn s) = concat (map encode_frame (n_sent n @ fs)) \<and> (\<forall>f\<in>set (n_sent n @ fs). emittable f)"
    using em assms(1) by (auto simp: emits_def node_ok_def)
  ultimately show ?thesis
    using assms(2,6) ok(5) sent ids_ok_calm [OF calm ok(2)]
    by (simp add: node_ok_def adv calmD(5) [OF calm] d_def [symmetric])
qed

lemma write_seen:
  assumes "seen_ok fs n" and "calm (n_ses n) s"
  shows "seen_ok fs ((advance s n)\<lparr>n_wrote := w\<rparr>)"
  using assms(1)
  by (auto simp: seen_ok_def advance_def calmD(2,3,5) [OF assms(2)] calmD(7) [OF assms(2)]
      dest: calmD(6) [OF assms(2)])

text \<open>Taking bytes out of a buffer, before the credit is written.\<close>

lemma upd_buf_fields:
  "a < length (heap s) \<Longrightarrow> ids (upd_stream a (\<lambda>st. st\<lparr>buf := x\<rparr>) s) = ids s"
  "a < length (heap s) \<Longrightarrow> tags (upd_stream a (\<lambda>st. st\<lparr>buf := x\<rparr>) s) = tags s"
  by (auto simp: ids_def tags_def nth_list_update' intro!: nth_equalityI)

lemma own_upd [simp]: "own (upd_stream a g s) = own s"
  by (simp add: own_def fun_eq_iff)

lemma read_node:
  assumes "node_ok n" and "seen_ok fs n" and "a < length (heap (n_ses n))"
    and "StreamRead a k (n_ses n) = (r, s)" and "sess_inv s"
  defines "n' \<equiv> (advance s n)\<lparr>n_got := (n_got n)(a := n_got n a @ (case r of ReadData xs _ \<Rightarrow> xs | _ \<Rightarrow> []))\<rparr>"
  shows "node_ok n' \<and> seen_ok fs n'"
proof -
  note ok = node_okD [OF assms(1)]
  let ?s = "n_ses n"
  define xs where "xs = (case r of ReadData xs _ \<Rightarrow> xs | _ \<Rightarrow> [])"
  obtain s1 gs where c: "calm s1 s" and "\<forall>b<length (heap s1). sendWin (heap s ! b) = sendWin (heap s1 ! b)"
    and em: "emits gs s1 s"
    and gs: "gs = [] \<or> (\<exists>u. gs = [mk_frame FlagWIN (sid (heap ?s ! a)) (put_u32 u)] \<and> unat u = length xs)"
    and s1: "s1 = upd_stream a (\<lambda>st. st\<lparr>buf := buf (heap s1 ! a)\<rparr>) ?s"
    and b: "buf (heap ?s ! a) = xs @ buf (heap s1 ! a)"
    by (rule Read_effect [OF ok(1) assms(3,4), folded xs_def])
  from gs have "\<forall>g\<in>set gs. neutral g" by (auto simp: neutral_def)
  with c em have q: "mild s1 s" by (auto simp: mild_def)
  define x where "x = buf (heap s1 ! a)"
  have s1': "s1 = upd_stream a (\<lambda>st. st\<lparr>buf := x\<rparr>) ?s" using s1 unfolding x_def .
  have b': "buf (heap ?s ! a) = xs @ x" using b unfolding x_def .
  define n1 where "n1 = n\<lparr>n_ses := s1, n_got := (n_got n)(a := n_got n a @ xs)\<rparr>"
  have same: "ids s1 = ids ?s" "tags s1 = tags ?s" "own s1 = own ?s" "conn s1 = conn ?s"
    "nextID s1 = nextID ?s" "streams s1 = streams ?s" "length (heap s1) = length (heap ?s)"
    "heap s1 = (heap ?s)[a := (heap ?s ! a)\<lparr>buf := x\<rparr>]"
    unfolding s1' using upd_buf_fields [OF assms(3)] by simp_all
  have "sess_inv s1"
    using bufs_okD [OF ok(1) assms(3)] b' ok(1) unfolding s1' upd_stream_def
    by (intro upd_stream_inv [of ?s "(heap ?s ! a)\<lparr>buf := x\<rparr>" a, unfolded upd_stream_def]) simp_all
  then have n1: "node_ok n1"
    using assms(1,3) by (auto simp: node_defs n1_def same nth_list_update')
  have seen: "seen_ok fs n1"
    using assms(2,3) b' by (auto simp: seen_ok_def n1_def same nth_list_update')
  have "n' = advance s n1"
    by (simp add: n'_def n1_def advance_def new_frames_def same xs_def)
  with n1 seen q assms(5) show ?thesis by (simp add: n1_def mild_node mild_seen)
qed

section \<open>New streams\<close>

lemma nextID_fresh:
  assumes "sess_inv s" and "ids_ok s" and "length (heap s) < 2 ^ 31"
  shows "nextID s \<notin> set (ids s)" and "own s (nextID s)"
proof -
  show o: "own s (nextID s)" using assms(1) by (simp add: sess_inv_def parity_ok_def own_def)
  from assms(2) obtain b k where k: "k \<le> length (ids s)" "nextID s = b + 2 * of_nat k"
    and o': "\<forall>i\<in>set (ids s). own s i \<longrightarrow> (\<exists>j<k. i = b + 2 * of_nat j)"
    by (auto simp: ids_ok_def)
  show "nextID s \<notin> set (ids s)"
  proof
    assume "nextID s \<in> set (ids s)"
    with o o' obtain j where "j < k" "b + 2 * of_nat k = b + 2 * (of_nat j :: u32)"
      unfolding k(2) by blast
    with double_of_nat_inj [of k j] k(1) assms(3) show False by (simp add: ids_def)
  qed
qed

lemma adds_streamD:
  assumes "adds_stream i t s s'"
  shows "ids s' = ids s @ [i]" "tags s' = tags s @ [(i, t)]" "own s' = own s"
    "length (heap s') = Suc (length (heap s))"
    "\<And>a. a < length (heap s) \<Longrightarrow> heap s' ! a = heap s ! a" "sid (heap s' ! length (heap s)) = i"
    "buf (heap s' ! length (heap s)) = []"
  using assms
  by (auto simp: adds_stream_def ids_def tags_def own_def newStream_def nth_append fun_eq_iff)

lemma added_streams: "adds_stream i t s s' \<Longrightarrow> streams s' j = Some a \<Longrightarrow> a = length (heap s) \<or> streams s j = Some a"
  by (cases "j = i") (auto simp: adds_stream_def)

lemma ids_ok_add:
  assumes "ids_ok s" and "i \<notin> set (ids s)" and "adds_stream i t s s'"
    and "if own s i then i = nextID s \<and> nextID s' = nextID s + 2 else nextID s' = nextID s"
  shows "ids_ok s'"
proof -
  from assms(1) obtain b k where k: "k \<le> length (ids s)" "nextID s = b + 2 * of_nat k"
    "\<forall>i\<in>set (ids s). own s i \<longrightarrow> (\<exists>j<k. i = b + 2 * of_nat j)" and d: "distinct (ids s)"
    by (auto simp: ids_ok_def)
  note add = adds_streamD [OF assms(3)]
  show ?thesis
  proof (cases "own s i")
    case True
    with assms(4) k have "nextID s' = b + 2 * of_nat (Suc k)" "i = b + 2 * of_nat k"
      by (simp_all add: algebra_simps)
    with k d assms(2) show ?thesis unfolding ids_ok_def add
      by (intro conjI exI [of _ b] exI [of _ "Suc k"]) (auto intro: less_SucI)
  next
    case False
    with assms(2,4) k d show ?thesis unfolding ids_ok_def add
      by (intro conjI exI [of _ b] exI [of _ k]) auto
  qed
qed

lemma sent_ids:
  assumes "sent_ok s fs" and "i \<notin> set (ids s)" and "f \<in> set fs" and "StreamID f = i"
  shows "\<not> is_syn f \<and> \<not> is_data f"
  using assms by (force simp: sent_ok_def tags_def ids_def)

lemma add_node:
  assumes "node_ok n" and "adds_stream i t (n_ses n) s" and "emits fs (n_ses n) s" and "sess_inv s"
    and "i \<notin> set (ids (n_ses n))"
    and "if own (n_ses n) i then i = nextID (n_ses n) \<and> nextID s = nextID (n_ses n) + 2
         else nextID s = nextID (n_ses n)"
    and "fs = [] \<or> own (n_ses n) i \<and> fs = [mk_frame FlagSYN i (AppendTarget [] t)]"
  shows "node_ok (advance s n)"
proof -
  note ok = node_okD [OF assms(1)] and add = adds_streamD [OF assms(2)]
  note new = sent_ids [OF ok(3) assms(5)]
  have adv: "advance s n = n\<lparr>n_ses := s, n_sent := n_sent n @ fs\<rparr>"
    using assms(3) by (simp add: advance_def emits_new)
  have data: "data_of j fs = []" for j using assms(7) by (auto intro: data_of_none)
  have "sorted_wrt in_order (n_sent n @ fs)"
    using ok(3) new assms(7) by (auto simp: sent_ok_def sorted_wrt_append in_order_def)
  then have sent: "sent_ok s (n_sent n @ fs)"
    using ok(3) assms(7) by (auto simp: sent_ok_def add(1-3))
  have none: "data_of i (n_sent n) = []"
    by (rule data_of_none) (use new in blast)
  have "n_wrote n a = data_of (sid (heap s ! a)) (n_sent n @ fs)" if "a < length (heap s)" for a
  proof (cases "a = length (heap (n_ses n))")
    case True
    with ok(5) none show ?thesis by (simp add: add(6) data)
  next
    case False
    with that ok(6) show ?thesis by (simp add: add(4,5) data)
  qed
  moreover have "wbytes (conn s) = concat (map encode_frame (n_sent n @ fs)) \<and> (\<forall>f\<in>set (n_sent n @ fs). emittable f)"
    using assms(1,3) by (auto simp: emits_def node_ok_def)
  ultimately show ?thesis
    using assms(4) ids_ok_add [OF ok(2) assms(5,2,6)] sent ok(5)
    by (simp add: node_ok_def adv add(4))
qed

lemma add_seen:
  assumes "node_ok n" and "seen_ok fs n" and "adds_stream i t (n_ses n) s" and "data_of i (n_seen n) = []"
    and "own (n_ses n) i \<or> (\<exists>f\<in>set (n_seen n). is_syn f \<and> StreamID f = i \<and> ParseTarget (Payload f) = Inr t)"
  shows "seen_ok fs (advance s n)"
proof -
  note ok = node_okD [OF assms(1)] and add = adds_streamD [OF assms(3)]
  have "prefix (n_got n b @ buf (heap s ! b)) (data_of (sid (heap s ! b)) (n_seen n)) \<and>
      (n_reading n \<longrightarrow> streams s (sid (heap s ! b)) = Some b \<longrightarrow>
        n_got n b @ buf (heap s ! b) = data_of (sid (heap s ! b)) (n_seen n))"
    if "b < length (heap s)" for b
  proof (cases "b = length (heap (n_ses n))")
    case True
    with ok(5) assms(4) show ?thesis by (simp add: add(6,7))
  next
    case False
    with that have "b < length (heap (n_ses n))" by (simp add: add(4))
    with assms(2) added_streams [OF assms(3), of "sid (heap s ! b)" b] show ?thesis by (auto simp: seen_ok_def add(5))
  qed
  with assms(2,5) show ?thesis by (auto simp: seen_ok_def advance_def add(2,3))
qed

end
