(* ===== verification/Peers_Properties.thy ===== *)
theory Peers_Properties
  imports Peers_Steps
begin

unbundle bit_operations_syntax

text \<open>
  Two connected sessions: the invariant holds in every reachable state, and with it what the
  application at one end has read of a stream is the start of what the application at the other
  end has written to it, whatever else the two sessions do.
\<close>

section \<open>Operations of one end\<close>

lemma session_op_step: "session_op s t \<Longrightarrow> session_step s t"
  by (induction rule: session_op.induct) (auto intro: session_step.intros)

text \<open>An id of one's own that no stream has had is not in the frames of the peer.\<close>

lemma own_id_unseen:
  assumes "node_ok x" and "node_ok y" and "seen_ok (n_sent x) y" and "seen_ok (n_sent y) x"
    and "IsInitiator (cfg (n_ses x)) \<noteq> IsInitiator (cfg (n_ses y))"
    and "own (n_ses x) i" and "i \<notin> set (ids (n_ses x))"
  shows "data_of i (n_seen x) = []"
proof (rule data_of_none, intro ballI impI notI)
  fix f
  assume f: "f \<in> set (n_seen x)" "is_data f" "StreamID f = i"
  have "f \<in> set (n_sent y)" using assms(4) f(1) by (auto simp: seen_ok_def dest: set_mono_prefix)
  with f node_okD(3) [OF assms(2)] have "i \<in> set (ids (n_ses y))" by (auto simp: sent_ok_def)
  then obtain t where "(i, t) \<in> set (tags (n_ses y))" by (auto simp: ids_def tags_def)
  moreover have "\<not> own (n_ses y) i" using assms(5,6) by (auto simp: own_def)
  ultimately obtain g where "g \<in> set (n_seen y)" "is_syn g" "StreamID g = i"
    using assms(3) by (force simp: seen_ok_def)
  moreover have "set (n_seen y) \<subseteq> set (n_sent x)"
    using assms(3) by (auto simp: seen_ok_def dest: set_mono_prefix)
  ultimately have "i \<in> set (ids (n_ses x))"
    using sent_ids [OF node_okD(3) [OF assms(1)]] by blast
  with assms(7) show False by simp
qed

lemma node_step_ok:
  assumes "node_step x x'" and "peers_ok (x, y)" and "length (heap (n_ses x)) < 2 ^ 31"
  shows "peers_ok (x', y)"
proof -
  from assms(2) have ok: "node_ok x" "node_ok y" "seen_ok (n_sent x) y" "seen_ok (n_sent y) x"
    and par: "IsInitiator (cfg (n_ses x)) \<noteq> IsInitiator (cfg (n_ses y))" by (simp_all add: peers_ok_def)
  note x = node_okD [OF ok(1)]
  have goal: "peers_ok (x', y)"
    if "node_ok x'" "seen_ok (n_sent y) x'" "\<exists>fs. n_sent x' = n_sent x @ fs" "cfg (n_ses x') = cfg (n_ses x)"
    using that ok(2,3) par seen_ok_more by (auto simp: peers_ok_def)
  from assms(1) show ?thesis
  proof cases
    case (do_op s)
    have inv: "sess_inv s" using session_step_inv [OF session_op_step] do_op(2) x(1) by blast
    have q: "peers_ok (advance s x, y)" if "quiet (n_ses x) s"
      using goal [of] mild_node [OF quiet_mild [OF that] ok(1) inv] mild_seen [OF quiet_mild [OF that] ok(4)] that do_op(1)
      by (auto simp: advance_def quiet_def calm_def)
    from do_op(2) show ?thesis
    proof cases
      case (op_open t)
      from op_open(2) show ?thesis
      proof (cases rule: Open_effect [of t "n_ses x"])
        case shut
        then show ?thesis using q op_open(1) do_op(1) by simp
      next
        case (added fs)
        note fresh = nextID_fresh [OF x(1,2) assms(3)]
        have fs: "fs = [] \<or> own (n_ses x) (nextID (n_ses x)) \<and>
            fs = [mk_frame FlagSYN (nextID (n_ses x)) (AppendTarget [] t)]"
          using added(4,5) fresh(2) by (cases fs) auto
        have "node_ok (advance s x)"
          using add_node [OF ok(1) added(1,3) inv [unfolded op_open(1)] fresh(1) _ fs] added(2) fresh(2) op_open(1)
          by simp
        moreover have "seen_ok (n_sent y) (advance s x)"
          using add_seen [OF ok(1,4) added(1)] own_id_unseen [OF ok par fresh(2,1)] fresh(2) op_open(1) by simp
        ultimately show ?thesis
          using added(1) op_open(1) by (intro goal) (auto simp: do_op(1) advance_def adds_stream_def)
      qed
    next
      case op_lost
      have "quiet (n_ses x) s" unfolding op_lost by (rule quiet_silent) (simp_all add: calm_def)
      then show ?thesis using q do_op(1) by simp
    qed (use q do_op(1) in \<open>auto simp: quiet_Accept quiet_StreamClose PingPayload_def quiet_writeFrame
        emittable_mk_frame quiet_tick quiet_close readLoop_error_def Close_def\<close>)
  next
    case (do_write a tot p r s)
    have "sess_inv s"
      using session_step_inv [OF session_step.write_stream [of a "n_ses x" tot p]] do_write x(1) by simp
    from write_node [OF ok(1) do_write(2-5) this] Write_effect [OF do_write(2-5)] write_seen [OF ok(4)]
    show ?thesis by (intro goal) (auto simp: do_write(1) advance_def calm_def)
  next
    case (do_read a k r s)
    have "sess_inv s"
      using session_step_inv [OF session_step.read_stream [of a "n_ses x" k]] do_read x(1) by simp
    moreover have "cfg s = cfg (n_ses x)"
      using Read_effect [OF x(1) do_read(2,3)] by (metis calm_def quiet_def upd_stream_fields(1))
    ultimately show ?thesis
      using read_node [OF ok(1,4) do_read(2,3)] by (intro goal) (auto simp: do_read(1) advance_def)
  qed
qed

section \<open>An inbound frame\<close>

lemma seen_step_neutral:
  assumes "seen_ok fs y" and "prefix (n_seen y @ [f]) fs" and "\<not> is_data f" and "n_reading y"
  shows "seen_ok fs (y\<lparr>n_seen := n_seen y @ [f], n_reading := c\<rparr>)"
  using assms by (auto simp: seen_ok_def)

lemma seen_step_dropped:
  assumes "seen_ok fs y" and "prefix (n_seen y @ [f]) fs" and "n_reading y"
    and "streams (n_ses y) (StreamID f) = None \<or> \<not> c"
  shows "seen_ok fs (y\<lparr>n_seen := n_seen y @ [f], n_reading := c\<rparr>)"
proof -
  have "prefix p (data_of i (n_seen y @ [f]))" if "prefix p (data_of i (n_seen y))" for p i
    using that by (simp add: prefix_prefix)
  with assms show ?thesis by (auto simp: seen_ok_def simp del: data_of_simps(3)) auto
qed

text \<open>A SYN that arrives is of an id the receiver has no stream and no data of.\<close>

lemma inbound_syn:
  assumes "peers_ok (x, y)" and "n_sent x = n_seen y @ f # rest" and "is_syn f"
  shows "\<not> own (n_ses y) (StreamID f)" and "StreamID f \<notin> set (ids (n_ses y))"
    and "data_of (StreamID f) (n_seen y @ [f]) = []"
proof -
  from assms(1) have xs: "sent_ok (n_ses x) (n_sent x)" and seen: "seen_ok (n_sent x) y"
    by (auto simp: peers_ok_def node_ok_def)
  have none: "\<forall>g\<in>set (n_seen y). StreamID g = StreamID f \<longrightarrow> \<not> is_syn g \<and> \<not> is_data g"
    using xs assms(3) by (auto simp: sent_ok_def assms(2) sorted_wrt_append in_order_def)
  show own: "\<not> own (n_ses y) (StreamID f)" using assms xs by (auto simp: sent_ok_def own_def peers_ok_def)
  show "StreamID f \<notin> set (ids (n_ses y))"
  proof
    assume "StreamID f \<in> set (ids (n_ses y))"
    then obtain t' where "(StreamID f, t') \<in> set (tags (n_ses y))" by (auto simp: ids_def tags_def)
    with seen own none show False by (force simp: seen_ok_def)
  qed
  show "data_of (StreamID f) (n_seen y @ [f]) = []"
    using none assms(3) by (intro data_of_none) (auto simp: is_data_def is_syn_def)
qed

lemma deliver_ok:
  assumes "peers_ok (x, y)" and "n_sent x = n_seen y @ f # rest" and "n_reading y"
    and "wellformed (MaxFramePayload (cfg (n_ses y))) f"
  shows "peers_ok (x, deliver_frame now f y)"
proof -
  from assms(1) have ok: "node_ok x" "node_ok y" "seen_ok (n_sent x) y" "seen_ok (n_sent y) x"
    and par: "IsInitiator (cfg (n_ses x)) \<noteq> IsInitiator (cfg (n_ses y))" by (simp_all add: peers_ok_def)
  note y = node_okD [OF ok(2)] and xs = node_okD(3) [OF ok(1)]
  obtain c s where rl: "readLoop_frame now f (n_ses y) = (c, s)" by force
  define y1 where "y1 = y\<lparr>n_seen := n_seen y @ [f], n_reading := c\<rparr>"
  have y': "deliver_frame now f y = advance s y1"
    by (simp add: deliver_frame_def rl y1_def advance_def)
  have inv: "sess_inv s" using readLoop_frame_inv [OF y(1) assms(4), of now] by (simp add: rl)
  have n1: "node_ok y1" using ok(2) by (simp add: node_ok_def y1_def)
  have pre: "prefix (n_seen y @ [f]) (n_sent x)" by (simp add: assms(2))
  have f: "f \<in> set (n_sent x)" by (simp add: assms(2))
  have goal: "peers_ok (x, advance s y1)"
    if "node_ok (advance s y1)" "seen_ok (n_sent x) (advance s y1)" "cfg s = cfg (n_ses y)"
    using that ok(1,4) par seen_ok_more
    by (auto simp: peers_ok_def advance_def y1_def)
  have mild: "peers_ok (x, advance s y1)" if "mild (n_ses y) s" "seen_ok (n_sent x) y1"
    using goal mild_node [OF _ n1 inv] mild_seen [OF _ that(2)] that(1)
    by (auto simp: y1_def mild_def calm_def)
  note quiet = mild [OF quiet_mild]
  consider (ctl) "control f" | (win) "is_win f" | (data) "is_data f" | (syn) "is_syn f" using xs f by (auto simp: sent_ok_def neutral_def)
  then show ?thesis unfolding y'
  proof cases
    case ctl
    have "length (Payload f) < 2 ^ 32" using assms(4) sendable_length unfolding wellformed_def by blast
    with control_effect [OF ctl, of "n_ses y" now] seen_step_neutral [OF ok(3) pre _ assms(3)] neutralD [of f] ctl
    show "peers_ok (x, advance s y1)" by (intro quiet) (simp_all add: rl y1_def neutral_def)
  next
    case win
    with win_mild [OF win, of "n_ses y" now] seen_step_neutral [OF ok(3) pre _ assms(3)] neutralD [of f] win
    show "peers_ok (x, advance s y1)" by (intro mild) (simp_all add: rl y1_def neutral_def)
  next
    case data
    then show "peers_ok (x, advance s y1)"
    proof (cases rule: data_effect [of f "n_ses y" now])
      case dropped
      with seen_step_dropped [OF ok(3) pre assms(3)] show ?thesis by (intro quiet) (auto simp: rl y1_def)
    next
      case (pushed a)
      have a: "a < length (heap (n_ses y))" "sid (heap (n_ses y) ! a) = StreamID f"
        using table_okD [OF y(1) pushed(1)] by simp_all
      let ?b = "buf (heap (n_ses y) ! a) @ Payload f"
      have s: "s = upd_stream a (\<lambda>st. st\<lparr>buf := ?b\<rparr>) ((n_ses y)\<lparr>lastRecv := now\<rparr>)"
        using pushed(2) by (simp add: rl upd_stream_def)
      have same: "ids s = ids (n_ses y)" "tags s = tags (n_ses y)" "own s = own (n_ses y)"
        "conn s = conn (n_ses y)" "nextID s = nextID (n_ses y)" "streams s = streams (n_ses y)"
        "length (heap s) = length (heap (n_ses y))" "cfg s = cfg (n_ses y)"
        "heap s = (heap (n_ses y))[a := (heap (n_ses y) ! a)\<lparr>buf := ?b\<rparr>]"
        unfolding s using a(1) by (auto simp: ids_def tags_def own_def nth_list_update' intro!: nth_equalityI)
      have adv: "advance s y1 = y1\<lparr>n_ses := s\<rparr>" by (simp add: advance_def new_frames_def same y1_def)
      have "node_ok (y1\<lparr>n_ses := s\<rparr>)"
        using ok(2) inv a(1) by (auto simp: node_defs y1_def same nth_list_update')
      moreover have d: "n_got y a @ buf (heap (n_ses y) ! a) = data_of (StreamID f) (n_seen y)"
        using ok(3) pushed(1) a assms(3) by (auto simp: seen_ok_def)
      have eq: "n_got y a @ ?b = data_of (StreamID f) (n_seen y @ [f])"
        unfolding data_of_simps(3) append_assoc [symmetric] d using data by simp
      have "prefix (n_got y b @ buf (heap s ! b)) (data_of (sid (heap s ! b)) (n_seen y @ [f])) \<and>
          (streams s (sid (heap s ! b)) = Some b \<longrightarrow>
            n_got y b @ buf (heap s ! b) = data_of (sid (heap s ! b)) (n_seen y @ [f]))"
        if "b < length (heap s)" for b
      proof (cases "b = a")
        case True
        then have "n_got y b @ buf (heap s ! b) = data_of (sid (heap s ! b)) (n_seen y @ [f])"
          using eq a unfolding same(9) by simp
        then show ?thesis by simp
      next
        case False
        with that ok(3) a assms(3) sid_inj [OF y(4), of b a] show ?thesis
          by (auto simp: seen_ok_def same)
      qed
      then have "seen_ok (n_sent x) (y1\<lparr>n_ses := s\<rparr>)"
        using ok(3) pre by (auto simp: seen_ok_def y1_def same(2,3))
      ultimately show ?thesis using same(8) goal by (simp add: adv)
    qed
  next
    case syn
    note inb = inbound_syn [OF assms(1,2) syn]
    have nd: "\<not> is_data f" using syn by (simp add: is_data_def is_syn_def)
    have seen: "seen_ok (n_sent x) y1" unfolding y1_def by (rule seen_step_neutral [OF ok(3) pre nd assms(3)])
    from syn show "peers_ok (x, advance s y1)"
    proof (cases rule: syn_effect [of f "n_ses y" now])
      case refused
      with seen show ?thesis by (intro quiet) (simp_all add: rl)
    next
      case (added t s1)
      have "sess_inv s1" by (rule added(6) [OF y(1)])
      then have "node_ok (advance s1 y1) \<and> seen_ok (n_sent x) (advance s1 y1)"
        using add_node [OF n1, of "StreamID f" t s1 "[]"] add_seen [OF n1 seen, of "StreamID f" t s1] added syn inb
        by (simp add: y1_def)
      moreover have "advance s (advance s1 y1) = advance s y1"
        using added(4) by (simp add: advance_def emits_def new_frames_def y1_def)
      ultimately show ?thesis
        using mild_node [of "advance s1 y1" s] mild_seen [of "advance s1 y1" s] quiet_mild [OF added(5)] added(2,5) inv
        by (intro goal) (auto simp: rl advance_def quiet_def calm_def adds_stream_def)
    qed
  qed
qed

section \<open>Every reachable state\<close>

definition few_streams :: "node \<times> node \<Rightarrow> bool" where
  "few_streams p \<longleftrightarrow> length (heap (n_ses (fst p))) < 2 ^ 31 \<and> length (heap (n_ses (snd p))) < 2 ^ 31"

lemma peers_ok_swap: "peers_ok (x, y) \<longleftrightarrow> peers_ok (y, x)"
  by (auto simp: peers_ok_def)

lemma deliver_grows: "length (heap (n_ses n)) \<le> length (heap (n_ses (deliver_frame now f n)))"
  using keeps_types_readLoop_frame [of "n_ses n" now f]
  by (cases "readLoop_frame now f (n_ses n)")
    (simp add: deliver_frame_def advance_def keeps_types_def same_ids_def)

lemma node_step_grows: "node_step n n' \<Longrightarrow> length (heap (n_ses n)) \<le> length (heap (n_ses n'))"
proof (induction rule: node_step.induct)
  case (do_op n s)
  from session_step_types [OF session_op_step [OF do_op]] show ?case
    by (simp add: advance_def keeps_types_def same_ids_def)
next
  case (do_write a n tot p r s)
  from keeps_types_Write_round [of "n_ses n" a p tot] do_write(4) show ?case
    by (simp add: advance_def keeps_types_def same_ids_def)
next
  case (do_read a n k r s)
  from keeps_types_StreamRead [of "n_ses n" a k] do_read(2) show ?case
    by (simp add: advance_def keeps_types_def same_ids_def)
qed

lemma few_streams_back: "peers_step p q \<Longrightarrow> few_streams q \<Longrightarrow> few_streams p"
  by (induction rule: peers_step.induct)
    (auto simp: few_streams_def dest!: node_step_grows intro: le_less_trans [OF deliver_grows])

lemma fresh_session_fields: "fresh_session s \<Longrightarrow> heap s = [] \<and> wbytes (conn s) = []"
  by (auto simp: fresh_session_def New_def Let_def split: if_splits)

lemma fresh_node_ok: "fresh_node n \<Longrightarrow> node_ok n \<and> seen_ok [] n \<and> n_sent n = []"
  using New_inv [of "n_ses n"] fresh_session_fields [of "n_ses n"]
  by (auto simp: fresh_node_def node_defs seen_ok_def ids_def tags_def intro!: exI [of _ 0])

interpretation peersm: machine fresh_peers peers_step "\<lambda>p. few_streams p \<longrightarrow> peers_ok p"
proof unfold_locales
  fix p q
  show "few_streams p \<longrightarrow> peers_ok p" if "fresh_peers p"
    using that fresh_node_ok [of "fst p"] fresh_node_ok [of "snd p"]
    by (auto simp: fresh_peers_def peers_ok_def)
  show "few_streams q \<longrightarrow> peers_ok q" if "few_streams p \<longrightarrow> peers_ok p" "peers_step p q"
    using that(2,1) few_streams_back [OF that(2)]
    by (cases rule: peers_step.cases)
      (auto simp: few_streams_def dest: node_step_ok deliver_ok peers_ok_swap [THEN iffD1]
        intro: peers_ok_swap [THEN iffD1])
qed

lemma delivered:
  assumes "peers_ok (x, y)" and "a < length (heap (n_ses x))" and "b < length (heap (n_ses y))"
    and "sid (heap (n_ses x) ! a) = sid (heap (n_ses y) ! b)"
  shows "prefix (n_got y b) (n_wrote x a) \<and>
    (n_reading y \<and> streams (n_ses y) (sid (heap (n_ses y) ! b)) = Some b \<longrightarrow>
      n_wrote x a = n_got y b @ buf (heap (n_ses y) ! b)
        @ data_of (sid (heap (n_ses y) ! b)) (drop (length (n_seen y)) (n_sent x)))"
proof -
  let ?i = "sid (heap (n_ses y) ! b)"
  from assms(1) have w: "n_wrote x a = data_of ?i (n_sent x)" and seen: "seen_ok (n_sent x) y"
    using node_okD(6) [OF _ assms(2)] assms(4) by (auto simp: peers_ok_def)
  obtain rest where rest: "n_sent x = n_seen y @ rest" using seen by (auto simp: seen_ok_def prefix_def)
  have "prefix (n_got y b @ buf (heap (n_ses y) ! b)) (data_of ?i (n_seen y))"
    using seen assms(3) by (simp add: seen_ok_def)
  then have "prefix (n_got y b) (n_wrote x a)"
    by (auto simp: w rest prefix_def)
  moreover have "n_wrote x a = n_got y b @ buf (heap (n_ses y) ! b) @ data_of ?i rest"
    if "n_reading y" "streams (n_ses y) ?i = Some b"
  proof -
    have "n_got y b @ buf (heap (n_ses y) ! b) = data_of ?i (n_seen y)"
      using seen assms(3) that by (simp add: seen_ok_def)
    then show ?thesis by (simp add: w rest flip: append_assoc)
  qed
  ultimately show ?thesis by (simp add: rest)
qed

lemma same_target:
  assumes "peers_ok (x, y)" and "a < length (heap (n_ses x))" and "b < length (heap (n_ses y))"
    and "sid (heap (n_ses x) ! a) = sid (heap (n_ses y) ! b)" and "own (n_ses x) (sid (heap (n_ses x) ! a))"
  shows "ParseTarget (AppendTarget [] (Target (heap (n_ses x) ! a))) = Inr (Target (heap (n_ses y) ! b))"
proof -
  let ?i = "sid (heap (n_ses y) ! b)"
  from assms(1) have x: "node_ok x" and seen: "seen_ok (n_sent x) y" by (simp_all add: peers_ok_def)
  have "(?i, Target (heap (n_ses y) ! b)) \<in> set (tags (n_ses y))" using assms(3) by (auto simp: tags_def)
  moreover have "\<not> own (n_ses y) ?i" using assms(1,4,5) by (auto simp: peers_ok_def own_def)
  ultimately obtain f where f: "f \<in> set (n_seen y)" "is_syn f" "StreamID f = ?i"
    "ParseTarget (Payload f) = Inr (Target (heap (n_ses y) ! b))"
    using seen by (force simp: seen_ok_def)
  have "f \<in> set (n_sent x)" using seen f(1) by (auto simp: seen_ok_def dest: set_mono_prefix)
  with f node_okD(3) [OF x] obtain t where t: "(?i, t) \<in> set (tags (n_ses x))" "Payload f = AppendTarget [] t"
    by (force simp: sent_ok_def)
  from t(1) obtain c where "c < length (heap (n_ses x))" "sid (heap (n_ses x) ! c) = ?i" "Target (heap (n_ses x) ! c) = t"
    by (auto simp: tags_def in_set_conv_nth)
  with sid_inj [OF node_okD(4) [OF x], of c a] assms(2,4) have "Target (heap (n_ses x) ! a) = t" by auto
  with f(4) t(2) show ?thesis by simp
qed

text \<open>C1: End to end. Two sessions run on the two ends of a connection, each with any number of
  streams, its application opening, writing, reading and closing them, its timers, losses of the
  connection and the frames of its peer, in any interleaving. For the two stream objects of one id,
  one at each end: what the application has read at either end is the start of what \<open>Write\<close> has
  reported at the other; while the stream is in the reader's table and its receive loop runs,
  nothing is lost: read, buffered and on the connection are together exactly what was written; the
  stream the peer sees has the target that the opener's SYN carries, which is the one asked for if
  that is a valid target; and the frames on the connection are
  those whose encodings the session has written.\<close>

theorem streams_end_to_end:
  assumes "fresh_peers p" and "peers_step\<^sup>*\<^sup>* p (x, y)" and "few_streams (x, y)"
    and "a < length (heap (n_ses x))" and "b < length (heap (n_ses y))"
    and "sid (heap (n_ses x) ! a) = i" and "sid (heap (n_ses y) ! b) = i"
  shows "prefix (n_got y b) (n_wrote x a) \<and> prefix (n_got x a) (n_wrote y b)
    \<and> (n_reading y \<and> streams (n_ses y) i = Some b \<longrightarrow>
        n_wrote x a = n_got y b @ buf (heap (n_ses y) ! b) @ data_of i (drop (length (n_seen y)) (n_sent x)))
    \<and> (odd (unat i) = IsInitiator (cfg (n_ses x)) \<longrightarrow>
        ParseTarget (AppendTarget [] (Target (heap (n_ses x) ! a))) = Inr (Target (heap (n_ses y) ! b))
        \<and> (valid_target (Target (heap (n_ses x) ! a)) \<longrightarrow> Target (heap (n_ses y) ! b) = Target (heap (n_ses x) ! a)))
    \<and> wbytes (conn (n_ses x)) = concat (map encode_frame (n_sent x)) \<and> prefix (n_seen y) (n_sent x)"
proof -
  have ok: "peers_ok (x, y)" using peersm.invariant [OF assms(1,2)] assms(3) by blast
  then have "peers_ok (y, x)" using peers_ok_swap by blast
  have "Target (heap (n_ses y) ! b) = Target (heap (n_ses x) ! a)"
    if "valid_target (Target (heap (n_ses x) ! a))"
      "ParseTarget (AppendTarget [] (Target (heap (n_ses x) ! a))) = Inr (Target (heap (n_ses y) ! b))"
    using Parse_AppendTarget [OF that(1), of "[]"] that(2) by simp
  with \<open>peers_ok (y, x)\<close> ok show ?thesis
    using delivered [OF ok assms(4,5)] delivered [OF \<open>peers_ok (y, x)\<close> assms(5,4)] same_target [OF ok assms(4,5)]
      assms(6,7)
    by (simp add: own_def) (simp add: peers_ok_def node_ok_def seen_ok_def)
qed

section \<open>A run\<close>

definition demo_opener :: node where
  "demo_opener = \<lparr>n_ses = demo_fresh, n_sent = [], n_seen = [], n_wrote = (\<lambda>_. []), n_got = (\<lambda>_. []),
     n_reading = True\<rparr>"

definition demo_responder :: node where
  "demo_responder = demo_opener\<lparr>n_ses := the (New \<lparr>wbytes = [], wok = True\<rparr> (demo_config\<lparr>IsInitiator := False\<rparr>) 0)\<rparr>"

definition resp_session :: session where
  "resp_session = demo_fresh\<lparr>cfg := (cfg demo_fresh)\<lparr>IsInitiator := False\<rparr>, nextID := 2\<rparr>"

lemma demo_responder_ses: "n_ses demo_responder = resp_session"
  by (simp add: demo_responder_def resp_session_def demo_fresh_eq New_def demo_config_def withDefaults_def Let_def)

lemma demo_peers_fresh: "fresh_peers (demo_opener, demo_responder)"
proof -
  have "fresh_session (n_ses demo_responder)"
    unfolding fresh_session_def
    by (rule exI [of _ "\<lparr>wbytes = [], wok = True\<rparr>"], rule exI [of _ "demo_config\<lparr>IsInitiator := False\<rparr>"],
        rule exI [of _ 0])
      (simp add: demo_responder_def New_def demo_config_def withDefaults_def Let_def)
  then show ?thesis
    using demo_fresh_fresh
    by (simp add: fresh_peers_def fresh_node_def demo_responder_ses)
      (simp add: demo_opener_def demo_responder_def resp_session_def demo_fresh_eq demo_config_def)
qed

definition demo_syn1 :: frame where "demo_syn1 = mk_frame FlagSYN 1 [1, 3, 1, 97, 0, 80]"

definition demo_data1 :: frame where "demo_data1 = mk_frame FlagDATA 1 [7, 8, 9]"

text \<open>The opener opens a stream and writes three bytes, the responder handles both frames and reads.\<close>

definition resp_session2 :: session where
  "resp_session2 = resp_session\<lparr>lastRecv := 5, heap := [newStream 1 demo_target 8], streams := [1 \<mapsto> 0],
     acceptCh := [0]\<rparr>"

definition opener_session2 :: session where
  "opener_session2 = demo_session\<lparr>heap := [(newStream 1 demo_target 8)\<lparr>sendWin := 5\<rparr>],
     conn := (conn demo_session)\<lparr>wbytes := wbytes (conn demo_session) @ encode_frame demo_data1\<rparr>\<rparr>"

lemma demo_run1: "readLoop_frame 5 demo_syn1 resp_session = (True, resp_session2)"
proof -
  have parse: "ParseTarget [1, 3, 1, 97, 0, 80] = Inr demo_target"
    by (simp add: ParseTarget_def demo_target_def target_consts be16_def)
  show ?thesis
    by (simp add: readLoop_frame_def handleFrame_def demo_syn1_def handleSYN_def parse resp_session_def
        resp_session2_def demo_fresh_eq demo_config_def has_flag_def flag_defs Let_def)
qed

lemma demo_run2: "Write_round 0 [7, 8, 9] 0 demo_session = (Continue 3, opener_session2)"
  by (simp add: Write_round_def demo_session_eq demo_fresh_eq newStream_def Write_locked_def
      demo_config_def Let_def upd_stream_def writeFrame_def opener_session2_def demo_data1_def)

lemma demo_run3: "readLoop_frame 6 demo_data1 resp_session2 =
    (True, resp_session2\<lparr>lastRecv := 6, heap := [(newStream 1 demo_target 8)\<lparr>buf := [7, 8, 9]\<rparr>]\<rparr>)"
  by (simp add: readLoop_frame_def handleFrame_def demo_data1_def resp_session_def resp_session2_def
      demo_fresh_eq demo_config_def has_flag_def flag_defs pushData_def upd_stream_def newStream_def)

definition demo_x :: node where
  "demo_x = demo_opener\<lparr>n_ses := opener_session2, n_sent := [demo_syn1, demo_data1],
     n_wrote := (\<lambda>_. [])(0 := [7, 8, 9])\<rparr>"

lemma demo_x_nodes:
  "node_step demo_opener (advance demo_session demo_opener)" "node_step (advance demo_session demo_opener) demo_x"
proof -
  have "emits [demo_syn1] demo_fresh demo_session"
    by (simp add: emits_def demo_session_eq demo_fresh_eq demo_syn1_def emittable_mk_frame)
  then have 1: "advance demo_session demo_opener = demo_opener\<lparr>n_ses := demo_session, n_sent := [demo_syn1]\<rparr>"
    by (simp add: advance_def emits_new demo_opener_def)
  have "session_op demo_fresh demo_session"
    unfolding demo_session_def by (rule op_open) (simp add: demo_target_bytes)
  then have s1: "node_step demo_opener (advance demo_session demo_opener)"
    by (intro do_op) (simp add: demo_opener_def)
  have "emits [demo_data1] demo_session opener_session2"
    by (simp add: emits_def opener_session2_def demo_data1_def emittable_mk_frame)
  then have 2: "(advance opener_session2 (demo_opener\<lparr>n_ses := demo_session, n_sent := [demo_syn1]\<rparr>))
      \<lparr>n_wrote := (\<lambda>_. [])(0 := [7, 8, 9])\<rparr> = demo_x"
    by (simp add: advance_def emits_new demo_x_def)
  have "node_step (demo_opener\<lparr>n_ses := demo_session, n_sent := [demo_syn1]\<rparr>) demo_x"
    using do_write [of 0 "demo_opener\<lparr>n_ses := demo_session, n_sent := [demo_syn1]\<rparr>" 0 "[7, 8, 9]"
        "Continue 3" opener_session2] demo_run2 2
    by (simp add: demo_session_eq demo_opener_def)
  with s1 show "node_step demo_opener (advance demo_session demo_opener)"
    "node_step (advance demo_session demo_opener) demo_x" unfolding 1 by simp_all
qed

lemma demo_x_run: "peers_step\<^sup>*\<^sup>* (demo_opener, y) (demo_x, y)"
  using demo_x_nodes by (meson left converse_rtranclp_into_rtranclp rtranclp.rtrancl_refl)

definition demo_y :: node where
  "demo_y = demo_responder\<lparr>n_ses := resp_session2\<lparr>lastRecv := 6,
     heap := [(newStream 1 demo_target 8)\<lparr>buf := [7, 8, 9]\<rparr>]\<rparr>, n_seen := [demo_syn1, demo_data1]\<rparr>"

definition demo_y1 :: node where
  "demo_y1 = demo_responder\<lparr>n_ses := resp_session2, n_seen := [demo_syn1]\<rparr>"

lemma demo_deliver1: "deliver_frame 5 demo_syn1 demo_responder = demo_y1"
proof -
  have "new_frames resp_session resp_session2 = []"
    by (simp add: new_frames_def resp_session2_def)
  then show ?thesis
    by (simp add: deliver_frame_def demo_responder_ses demo_run1 advance_def demo_y1_def)
      (simp add: demo_responder_def demo_opener_def)
qed

lemma demo_deliver2: "deliver_frame 6 demo_data1 demo_y1 = demo_y"
  by (simp add: deliver_frame_def demo_run3 advance_def new_frames_def demo_y_def demo_y1_def)
    (simp add: demo_responder_def demo_opener_def)

lemma demo_deliverable:
  "n_sent demo_x = n_seen demo_responder @ demo_syn1 # [demo_data1]" "n_reading demo_responder"
  "wellformed (MaxFramePayload (cfg (n_ses demo_responder))) demo_syn1"
  "n_sent demo_x = n_seen demo_y1 @ demo_data1 # []" "n_reading demo_y1"
  "wellformed (MaxFramePayload (cfg (n_ses demo_y1))) demo_data1"
proof -
  show "n_sent demo_x = n_seen demo_responder @ demo_syn1 # [demo_data1]" "n_reading demo_responder"
    by (simp_all add: demo_x_def demo_responder_def demo_opener_def)
  show "wellformed (MaxFramePayload (cfg (n_ses demo_responder))) demo_syn1"
    by (simp add: demo_responder_def New_def demo_config_def withDefaults_def Let_def wellformed_def demo_syn1_def)
  show "n_sent demo_x = n_seen demo_y1 @ demo_data1 # []" "n_reading demo_y1"
    by (simp_all add: demo_x_def demo_y1_def demo_responder_def demo_opener_def)
  show "wellformed (MaxFramePayload (cfg (n_ses demo_y1))) demo_data1"
    by (simp add: demo_y1_def resp_session2_def resp_session_def demo_fresh_eq demo_config_def wellformed_def
        demo_data1_def)
qed

lemma demo_y1_step: "peers_step (demo_x, demo_responder) (demo_x, demo_y1)"
  using to_right [OF demo_deliverable(1-3), of 5] by (simp add: demo_deliver1)

lemma demo_y_run: "peers_step\<^sup>*\<^sup>* (demo_x, demo_responder) (demo_x, demo_y)"
  using to_right [OF demo_deliverable(4-6), of 6] demo_y1_step
  by (metis demo_deliver2 converse_rtranclp_into_rtranclp r_into_rtranclp)

theorem streams_end_to_end_witness:
  "\<exists>y. peers_step\<^sup>*\<^sup>* (demo_opener, demo_responder) (demo_x, y) \<and> n_got y 0 = [7, 8, 9]
    \<and> prefix (n_got y 0) (n_wrote demo_x 0)"
proof -
  obtain r s where rd: "StreamRead 0 8 (n_ses demo_y) = (r, s)" by force
  define y where "y = (advance s demo_y)\<lparr>n_got := (n_got demo_y)(0 := n_got demo_y 0 @
      (case r of ReadData xs _ \<Rightarrow> xs | _ \<Rightarrow> []))\<rparr>"
  have "node_step demo_y y"
    unfolding y_def by (rule do_read [OF _ rd]) (simp add: demo_y_def)
  then have run: "peers_step\<^sup>*\<^sup>* (demo_opener, demo_responder) (demo_x, y)"
    using demo_x_run demo_y_run by (meson right rtranclp.rtrancl_into_rtrancl rtranclp_trans)
  from rd have got: "r = ReadData [7, 8, 9] 3" and s: "heap s = [newStream 1 demo_target 8]"
    by (auto simp: StreamRead_def Read_locked_def demo_y_def newStream_def upd_stream_def Let_def)
  have len: "few_streams (demo_x, y)"
    by (simp add: few_streams_def y_def advance_def s demo_x_def opener_session2_def)
  have "prefix (n_got y 0) (n_wrote demo_x 0)"
    using streams_end_to_end [OF demo_peers_fresh run len, of 0 0 1]
    by (simp add: y_def advance_def s newStream_def demo_x_def opener_session2_def)
  then show ?thesis
    using run by (intro exI [of _ y]) (simp add: y_def got demo_y_def demo_responder_def demo_opener_def)
qed

end
