(* ===== verification/Peers_Window.thy ===== *)
theory Peers_Window
  imports Peers_Properties
begin

unbundle bit_operations_syntax

text \<open>
  Flow control between two connected sessions. For a stream object at one end, its send window, the
  DATA of its id on the connection, the bytes the other end holds for it and the credits on their
  way back add up to at most its initial window. Theory Peers_Credit draws the conclusions.
\<close>

definition unseen :: "node \<Rightarrow> node \<Rightarrow> frame list" where
  "unseen x y = drop (length (n_seen y)) (n_sent x)"

definition credit_of :: "u32 \<Rightarrow> frame list \<Rightarrow> nat" where
  "credit_of i fs = sum_list (map (\<lambda>f. unat (get_u32 (Payload f))) (filter (\<lambda>f. is_win f \<and> StreamID f = i) fs))"

definition held :: "u32 \<Rightarrow> session \<Rightarrow> nat" where
  "held i s = (\<Sum>b<length (heap s). if sid (heap s ! b) = i then length (buf (heap s ! b)) else 0)"

text \<open>What \<open>x\<close> has sent of a stream and not got back as credit.\<close>

definition outstanding :: "u32 \<Rightarrow> node \<Rightarrow> node \<Rightarrow> nat" where
  "outstanding i x y = length (data_of i (unseen x y)) + held i (n_ses y) + credit_of i (unseen y x)"

definition window_ok :: "node \<Rightarrow> node \<Rightarrow> bool" where
  "window_ok x y \<longleftrightarrow> (\<forall>a<length (heap (n_ses x)). 0 \<le> sendWin (heap (n_ses x) ! a) \<and>
     sendWin (heap (n_ses x) ! a) + int (outstanding (sid (heap (n_ses x) ! a)) x y)
       \<le> uint (InitialWindow (cfg (n_ses x))))"

definition credited :: "node \<Rightarrow> bool" where
  "credited n \<longleftrightarrow> (\<forall>f\<in>set (n_sent n). is_win f \<longrightarrow> StreamID f \<in> set (ids (n_ses n))) \<and>
     (\<forall>b<length (heap (n_ses n)). credit_of (sid (heap (n_ses n) ! b)) (n_sent n) \<le> length (n_got n b))"

definition flow_ok :: "node \<times> node \<Rightarrow> bool" where
  "flow_ok p \<longleftrightarrow> credited (fst p) \<and> credited (snd p) \<and> window_ok (fst p) (snd p) \<and> window_ok (snd p) (fst p)"

lemma flow_ok_swap: "flow_ok (x, y) \<longleftrightarrow> flow_ok (y, x)"
  by (auto simp: flow_ok_def)

section \<open>Sums\<close>

lemma credit_of_simps [simp]:
  "credit_of i [] = 0"
  "credit_of i (f # fs) = (if is_win f \<and> StreamID f = i then unat (get_u32 (Payload f)) else 0) + credit_of i fs"
  "credit_of i (fs @ gs) = credit_of i fs + credit_of i gs"
  by (simp_all add: credit_of_def)

lemma credit_of_none: "\<forall>f\<in>set fs. is_win f \<longrightarrow> StreamID f \<noteq> i \<Longrightarrow> credit_of i fs = 0"
  by (induction fs) auto

lemma credit_of_drop: "credit_of i (drop k fs) \<le> credit_of i fs"
proof -
  have "credit_of i fs = credit_of i (take k fs) + credit_of i (drop k fs)"
    by (metis append_take_drop_id credit_of_simps(3))
  then show ?thesis by simp
qed

lemma data_of_drop: "data_of i fs = [] \<Longrightarrow> data_of i (drop k fs) = []"
  by (metis append_is_Nil_conv append_take_drop_id data_of_simps(3))

lemma held_at: "distinct (ids s) \<Longrightarrow> b < length (heap s) \<Longrightarrow> held (sid (heap s ! b)) s = length (buf (heap s ! b))"
proof -
  assume s: "distinct (ids s)" "b < length (heap s)"
  have "held (sid (heap s ! b)) s = (\<Sum>c<length (heap s). if c = b then length (buf (heap s ! c)) else 0)"
    unfolding held_def using sid_inj [OF s(1)] s(2) by (intro sum.cong) auto
  then show ?thesis using s(2) by simp
qed

lemma held_absent: "i \<notin> set (ids s) \<Longrightarrow> held i s = 0"
  unfolding held_def using sid_in_ids [of _ s] by (intro sum.neutral) auto

lemma held_calm: "calm s t \<Longrightarrow> held i t = held i s"
  unfolding held_def by (rule sum.cong) (auto simp: calm_def)

lemma held_add: "adds_stream j t s s' \<Longrightarrow> held i s' = held i s"
  using adds_streamD(4-7) [of j t s s'] by (auto simp: held_def intro: sum.cong)

lemma unseen_sent:
  "prefix (n_seen y) (n_sent x) \<Longrightarrow> n_sent x' = n_sent x @ fs \<Longrightarrow> unseen x' y = unseen x y @ fs"
  by (auto simp: unseen_def prefix_def)

lemma window_ok_le:
  assumes "window_ok x y" and "length (heap (n_ses x')) = length (heap (n_ses x))"
    and "cfg (n_ses x') = cfg (n_ses x)"
    and "\<And>a. a < length (heap (n_ses x)) \<Longrightarrow> sid (heap (n_ses x') ! a) = sid (heap (n_ses x) ! a) \<and>
      0 \<le> sendWin (heap (n_ses x') ! a) \<and>
      sendWin (heap (n_ses x') ! a) + int (outstanding (sid (heap (n_ses x) ! a)) x' y')
        \<le> sendWin (heap (n_ses x) ! a) + int (outstanding (sid (heap (n_ses x) ! a)) x y)"
  shows "window_ok x' y'"
  unfolding window_ok_def
proof (intro allI impI)
  fix a
  assume "a < length (heap (n_ses x'))"
  then have a: "a < length (heap (n_ses x))" using assms(2) by simp
  with assms(1) have "sendWin (heap (n_ses x) ! a) + int (outstanding (sid (heap (n_ses x) ! a)) x y)
      \<le> uint (InitialWindow (cfg (n_ses x)))" by (simp add: window_ok_def)
  with assms(4) [OF a] assms(3) show "0 \<le> sendWin (heap (n_ses x') ! a) \<and>
      sendWin (heap (n_ses x') ! a) + int (outstanding (sid (heap (n_ses x') ! a)) x' y')
        \<le> uint (InitialWindow (cfg (n_ses x')))" by auto
qed

lemma window_ok_less:
  assumes "window_ok x y" and "\<And>i. outstanding i x y' \<le> outstanding i x y"
  shows "window_ok x y'"
proof (rule window_ok_le [OF assms(1)])
  fix a
  assume "a < length (heap (n_ses x))"
  then show "sid (heap (n_ses x) ! a) = sid (heap (n_ses x) ! a) \<and> 0 \<le> sendWin (heap (n_ses x) ! a) \<and>
      sendWin (heap (n_ses x) ! a) + int (outstanding (sid (heap (n_ses x) ! a)) x y')
        \<le> sendWin (heap (n_ses x) ! a) + int (outstanding (sid (heap (n_ses x) ! a)) x y)"
    using assms(1) assms(2) [of "sid (heap (n_ses x) ! a)"] by (simp add: window_ok_def)
qed simp_all

text \<open>A stream of which the peer has sent nothing has nothing and has returned nothing.\<close>

lemma untouched:
  assumes "node_ok y" and "seen_ok (n_sent x) y" and "credited y" and "data_of i (n_sent x) = []"
  shows "held i (n_ses y) = 0" and "credit_of i (n_sent y) = 0"
proof -
  have "held i (n_ses y) = 0 \<and> credit_of i (n_sent y) = 0"
  proof (cases "i \<in> set (ids (n_ses y))")
    case False
    with assms(3) show ?thesis by (auto simp: held_absent credited_def intro: credit_of_none)
  next
    case True
    then obtain b where b: "b < length (heap (n_ses y))" "sid (heap (n_ses y) ! b) = i"
      by (auto simp: ids_def in_set_conv_nth)
    obtain rest where "n_sent x = n_seen y @ rest" using assms(2) by (auto simp: seen_ok_def prefix_def)
    then have "data_of i (n_seen y) = []" using assms(4) by simp
    with assms(2) b have "n_got y b = []" "buf (heap (n_ses y) ! b) = []" by (auto simp: seen_ok_def)
    with assms(3) b held_at [OF node_okD(4) [OF assms(1)] b(1)] show ?thesis by (auto simp: credited_def)
  qed
  then show "held i (n_ses y) = 0" "credit_of i (n_sent y) = 0" by simp_all
qed

section \<open>Quiet steps\<close>

lemma advance_ses [simp]: "n_ses (advance s n) = s"
  by (simp add: advance_def)

lemma window_okD: "window_ok x y \<Longrightarrow> a < length (heap (n_ses x)) \<Longrightarrow> 0 \<le> sendWin (heap (n_ses x) ! a)"
  by (simp add: window_ok_def)

lemma quiet_out:
  assumes "quiet (n_ses x) s" and "prefix (n_seen y) (n_sent x)"
  shows "outstanding i (advance s x) y = outstanding i x y" "outstanding i y (advance s x) = outstanding i y x"
proof -
  from assms(1) obtain fs where calm: "calm (n_ses x) s" and fs: "emits fs (n_ses x) s" "\<forall>f\<in>set fs. control f"
    by (auto simp: quiet_def)
  have "n_sent (advance s x) = n_sent x @ fs" using fs(1) by (simp add: advance_def emits_new)
  then have un: "unseen (advance s x) y = unseen x y @ fs" "unseen y (advance s x) = unseen y x"
    using unseen_sent [OF assms(2), of "advance s x" fs] by (simp_all add: unseen_def advance_def)
  have none: "data_of i fs = []" "credit_of i fs = 0" for i
    using fs(2) control_no_win by (auto simp: neutral_def intro: credit_of_none)
  show "outstanding i (advance s x) y = outstanding i x y" "outstanding i y (advance s x) = outstanding i y x"
    by (simp_all add: outstanding_def un none) (simp add: held_calm [OF calm])
qed

lemma quiet_flow:
  assumes "quiet (n_ses x) s" and "flow_ok (x, y)" and "prefix (n_seen y) (n_sent x)"
  shows "flow_ok (advance s x, y)"
proof -
  from assms(1) obtain fs where calm: "calm (n_ses x) s" and fs: "emits fs (n_ses x) s" "\<forall>f\<in>set fs. control f"
    and win: "\<forall>a<length (heap (n_ses x)). sendWin (heap s ! a) = sendWin (heap (n_ses x) ! a)"
    by (auto simp: quiet_def)
  have adv: "advance s x = x\<lparr>n_ses := s, n_sent := n_sent x @ fs\<rparr>" using fs(1) by (simp add: advance_def emits_new)
  have none: "data_of i fs = []" "credit_of i fs = 0" for i
    using fs(2) control_no_win by (auto simp: neutral_def intro: credit_of_none)
  note out = quiet_out [OF assms(1,3)]
  have "window_ok (advance s x) y"
    using assms(2) win calm window_okD [of x y]
    by (intro window_ok_le [of x y "advance s x"]) (auto simp: flow_ok_def out calm_def)
  moreover have "window_ok y (advance s x)"
    using assms(2) by (auto simp: flow_ok_def window_ok_def out)
  moreover have "credited (advance s x)"
    using assms(2) none fs(2) control_no_win
    by (auto simp: flow_ok_def credited_def adv calmD(1,5) [OF calm] calmD(7) [OF calm])
  ultimately show ?thesis using assms(2) by (simp add: flow_ok_def)
qed

section \<open>Writing, reading, new streams\<close>

text \<open>What a round of \<open>Write\<close> adds to a stream's DATA.\<close>

definition framed :: "bytes \<Rightarrow> nat \<Rightarrow> round_out \<Rightarrow> bytes" where
  "framed p tot r = (case r of Continue t \<Rightarrow> take (t - tot) (drop tot p) | Stop _ \<Rightarrow> [])"

lemma write_parts:
  assumes "prefix (n_seen y) (n_sent x)" and "a < length (heap (n_ses x))" and "tot < length p" and "length p < 2 ^ 32"
    and "Write_round a p tot (n_ses x) = (r, s)"
  obtains fs where "(advance s x)\<lparr>n_wrote := w\<rparr> = x\<lparr>n_ses := s, n_sent := n_sent x @ fs, n_wrote := w\<rparr>"
    "\<forall>f\<in>set fs. \<not> is_win f" "\<And>j. credit_of j fs = 0"
    "\<And>j. outstanding j ((advance s x)\<lparr>n_wrote := w\<rparr>) y
      = outstanding j x y + (if j = sid (heap (n_ses x) ! a) then length (framed p tot r) else 0)"
    "\<And>j. outstanding j y ((advance s x)\<lparr>n_wrote := w\<rparr>) = outstanding j y x"
proof -
  note eff = Write_effect [OF assms(2-5)]
  define i where "i = sid (heap (n_ses x) ! a)"
  define d where "d = framed p tot r"
  define fs where "fs = (case r of Continue t \<Rightarrow> [mk_frame FlagDATA i d] | Stop _ \<Rightarrow> [])"
  have em: "emits fs (n_ses x) s"
    using eff(2) by (auto simp: fs_def d_def framed_def i_def split: round_out.splits)
  have data: "data_of j fs = (if j = i then d else [])" "credit_of j fs = 0" for j
    by (simp_all add: fs_def d_def framed_def split: round_out.split)
  have no_win: "\<forall>f\<in>set fs. \<not> is_win f" by (simp add: fs_def split: round_out.split)
  let ?x = "(advance s x)\<lparr>n_wrote := w\<rparr>"
  have adv: "?x = x\<lparr>n_ses := s, n_sent := n_sent x @ fs, n_wrote := w\<rparr>"
    using em by (simp add: advance_def emits_new)
  have un: "unseen ?x y = unseen x y @ fs" "unseen y ?x = unseen y x"
    using unseen_sent [OF assms(1), of ?x fs] by (simp_all add: adv unseen_def)
  have "outstanding j ?x y = outstanding j x y + (if j = i then length d else 0)"
    "outstanding j y ?x = outstanding j y x" for j
    by (simp_all add: outstanding_def un data) (simp add: advance_def held_calm [OF eff(1)])
  with that adv no_win data(2) show ?thesis unfolding i_def d_def by blast
qed

lemma write_flow:
  assumes "node_ok x" and "flow_ok (x, y)" and "prefix (n_seen y) (n_sent x)"
    and "a < length (heap (n_ses x))" and "tot < length p" and "length p < 2 ^ 32"
    and "Write_round a p tot (n_ses x) = (r, s)"
  shows "flow_ok ((advance s x)\<lparr>n_wrote := w\<rparr>, y)"
proof -
  note ok = node_okD [OF assms(1)] and eff = Write_effect [OF assms(4-7), folded framed_def]
  define i where "i = sid (heap (n_ses x) ! a)"
  define d where "d = framed p tot r"
  let ?x = "(advance s x)\<lparr>n_wrote := w\<rparr>"
  obtain fs where adv: "?x = x\<lparr>n_ses := s, n_sent := n_sent x @ fs, n_wrote := w\<rparr>"
    and no_win: "\<forall>f\<in>set fs. \<not> is_win f" and data: "\<And>j. credit_of j fs = 0"
    and out: "\<And>j. outstanding j ?x y = outstanding j x y + (if j = i then length d else 0)"
      "\<And>j. outstanding j y ?x = outstanding j y x"
    using write_parts [OF assms(3-7), of w] unfolding i_def d_def by blast
  have pos: "0 \<le> sendWin (heap (n_ses x) ! b)" if "b < length (heap (n_ses x))" for b
    using assms(2) that by (simp add: flow_ok_def window_ok_def)
  have win: "0 \<le> sendWin (heap s ! b) \<and>
      sendWin (heap s ! b) + int (if sid (heap (n_ses x) ! b) = i then length d else 0) \<le> sendWin (heap (n_ses x) ! b)"
    if "b < length (heap (n_ses x))" for b
  proof (cases "b = a")
    case True
    with eff(3) pos that show ?thesis by (simp add: i_def d_def)
  next
    case False
    then have "sid (heap (n_ses x) ! b) \<noteq> i" using that sid_inj [OF ok(4) that assms(4)] by (simp add: i_def)
    with False eff(4) that pos show ?thesis by simp
  qed
  have cfg: "cfg s = cfg (n_ses x)" using eff(1) by (simp add: calm_def)
  have "window_ok ?x y"
    using assms(2) win
    by (intro window_ok_le [of x y ?x]) (auto simp: flow_ok_def out cfg calmD(5) [OF eff(1)] calmD(7) [OF eff(1)])
  moreover have "window_ok y ?x" using assms(2) by (auto simp: flow_ok_def window_ok_def out)
  moreover have "credited ?x"
    using assms(2) data no_win
    by (auto simp: flow_ok_def credited_def adv calmD(1,5) [OF eff(1)] calmD(7) [OF eff(1)])
  ultimately show ?thesis using assms(2) by (simp add: flow_ok_def)
qed

definition read_bytes :: "read_out \<Rightarrow> bytes" where
  "read_bytes r = (case r of ReadData xs _ \<Rightarrow> xs | _ \<Rightarrow> [])"

lemma read_parts:
  assumes "node_ok x" and "prefix (n_seen y) (n_sent x)" and "a < length (heap (n_ses x))"
    and "StreamRead a k (n_ses x) = (r, s)" and "x' = (advance s x)\<lparr>n_got := g\<rparr>"
  obtains gs where "x' = x\<lparr>n_ses := s, n_sent := n_sent x @ gs, n_got := g\<rparr>" "gs = new_frames (n_ses x) s"
    "gs = [] \<or> (\<exists>u. gs = [mk_frame FlagWIN (sid (heap (n_ses x) ! a)) (put_u32 u)] \<and> unat u = length (read_bytes r))"
    "length (heap s) = length (heap (n_ses x))" "cfg s = cfg (n_ses x)" "ids s = ids (n_ses x)"
    "streams s \<subseteq>\<^sub>m streams (n_ses x)"
    "\<forall>b<length (heap (n_ses x)). sid (heap s ! b) = sid (heap (n_ses x) ! b) \<and>
      sendWin (heap s ! b) = sendWin (heap (n_ses x) ! b)"
    "\<forall>j. outstanding j x' y = outstanding j x y"
    "\<forall>j. outstanding j y x' + (if j = sid (heap (n_ses x) ! a) then length (read_bytes r) else 0)
      = outstanding j y x + credit_of j gs"
proof -
  note ok = node_okD [OF assms(1)]
  let ?s = "n_ses x"
  define i where "i = sid (heap ?s ! a)"
  define xs where "xs = read_bytes r"
  let ?x = "(advance s x)\<lparr>n_got := g\<rparr>"
  obtain s1 gs where c: "calm s1 s" and w: "\<forall>b<length (heap s1). sendWin (heap s ! b) = sendWin (heap s1 ! b)"
    and em: "emits gs s1 s"
    and gs: "gs = [] \<or> (\<exists>u. gs = [mk_frame FlagWIN (sid (heap ?s ! a)) (put_u32 u)] \<and> unat u = length xs)"
    and s1: "s1 = upd_stream a (\<lambda>st. st\<lparr>buf := buf (heap s1 ! a)\<rparr>) ?s"
    and b: "buf (heap ?s ! a) = xs @ buf (heap s1 ! a)"
    by (rule Read_effect [OF ok(1) assms(3,4), folded read_bytes_def, folded xs_def])
  define z where "z = buf (heap s1 ! a)"
  have s1': "s1 = upd_stream a (\<lambda>st. st\<lparr>buf := z\<rparr>) ?s" using s1 unfolding z_def .
  have same: "ids s1 = ids ?s" "conn s1 = conn ?s" "cfg s1 = cfg ?s" "length (heap s1) = length (heap ?s)"
    "heap s1 = (heap ?s)[a := (heap ?s ! a)\<lparr>buf := z\<rparr>]"
    unfolding s1' using upd_buf_fields [OF assms(3)] by simp_all
  have em': "emits gs ?s s" using em by (simp add: emits_def same)
  have adv: "?x = x\<lparr>n_ses := s, n_sent := n_sent x @ gs, n_got := g\<rparr>"
    using em' by (simp add: advance_def emits_new)
  have un: "unseen ?x y = unseen x y @ gs" "unseen y ?x = unseen y x"
    using unseen_sent [OF assms(2), of ?x gs] by (simp_all add: adv unseen_def)
  have nodata: "data_of j gs = []" for j using gs by (auto simp: is_win_def is_data_def has_flag_def flag_defs)
  have held1: "held j s1 + (if j = i then length xs else 0) = held j ?s" for j
  proof (cases "j = i")
    case True
    have "held i s1 = length z"
      using held_at [of s1 a] ok(4) assms(3) by (simp add: same i_def)
    moreover have "held i ?s = length (buf (heap ?s ! a))" using held_at [OF ok(4) assms(3)] by (simp add: i_def)
    ultimately show ?thesis using True b by (simp add: z_def)
  next
    case False
    have "held j s1 = held j ?s"
      unfolding held_def same(4)
      by (rule sum.cong) (use False assms(3) in \<open>auto simp: same(5) nth_list_update' i_def\<close>)
    with False show ?thesis by simp
  qed
  have fields: "length (heap s) = length (heap ?s)" "cfg s = cfg ?s" "ids s = ids ?s"
    "\<And>b. b < length (heap ?s) \<Longrightarrow> sid (heap s ! b) = sid (heap ?s ! b) \<and> sendWin (heap s ! b) = sendWin (heap ?s ! b)"
    using calmD(5,7) [OF c] calmD(1) [OF c] c w assms(3) by (auto simp: same nth_list_update' calm_def)
  have f4: "\<forall>b<length (heap ?s). sid (heap s ! b) = sid (heap ?s ! b) \<and> sendWin (heap s ! b) = sendWin (heap ?s ! b)"
    using fields(4) by blast
  have o1: "\<forall>j. outstanding j ?x y = outstanding j x y"
    by (simp add: outstanding_def un nodata; simp add: advance_def)
  have o2: "\<forall>j. outstanding j y ?x + (if j = i then length xs else 0) = outstanding j y x + credit_of j gs"
  proof
    fix j
    show "outstanding j y ?x + (if j = i then length xs else 0) = outstanding j y x + credit_of j gs"
      using held1 [of j] by (simp add: outstanding_def un nodata) (simp add: advance_def held_calm [OF c] split: if_splits)
  qed
  have st: "streams s \<subseteq>\<^sub>m streams ?s" using c s1' by (simp add: calm_def)
  have new: "gs = new_frames ?s s" using em' by (simp add: emits_new)
  show ?thesis
    by (rule that [of gs, unfolded assms(5), folded i_def xs_def])
      (rule adv new gs [folded i_def] fields(1-3) st f4 o1 o2)+
qed

lemma read_flow:
  assumes "node_ok x" and "flow_ok (x, y)" and "prefix (n_seen y) (n_sent x)"
    and "a < length (heap (n_ses x))" and "StreamRead a k (n_ses x) = (r, s)"
  shows "flow_ok ((advance s x)\<lparr>n_got := (n_got x)(a := n_got x a @ (case r of ReadData xs _ \<Rightarrow> xs | _ \<Rightarrow> []))\<rparr>, y)"
proof -
  note ok = node_okD [OF assms(1)]
  let ?s = "n_ses x"
  define i where "i = sid (heap ?s ! a)"
  define xs where "xs = read_bytes r"
  let ?x = "(advance s x)\<lparr>n_got := (n_got x)(a := n_got x a @ xs)\<rparr>"
  obtain gs where adv: "?x = x\<lparr>n_ses := s, n_sent := n_sent x @ gs, n_got := (n_got x)(a := n_got x a @ xs)\<rparr>"
    and gs: "gs = [] \<or> (\<exists>u. gs = [mk_frame FlagWIN i (put_u32 u)] \<and> unat u = length xs)"
    and fields: "length (heap s) = length (heap ?s)" "cfg s = cfg ?s" "ids s = ids ?s"
      "\<forall>b<length (heap ?s). sid (heap s ! b) = sid (heap ?s ! b) \<and> sendWin (heap s ! b) = sendWin (heap ?s ! b)"
    and o: "\<forall>j. outstanding j ?x y = outstanding j x y"
      "\<forall>j. outstanding j y ?x + (if j = i then length xs else 0) = outstanding j y x + credit_of j gs"
    by (rule read_parts [OF assms(1,3-5) refl, where g = "(n_got x)(a := n_got x a @ xs)", folded i_def xs_def])
  have credit: "credit_of j gs \<le> (if j = i then length xs else 0)" for j using gs by auto
  have out: "outstanding j ?x y = outstanding j x y" "outstanding j y ?x \<le> outstanding j y x" for j
    using o(1) spec [OF o(2), of j] credit [of j] by (simp_all split: if_splits)
  have "window_ok ?x y"
    using assms(2) window_okD [of x y]
    by (intro window_ok_le [of x y ?x]) (auto simp: flow_ok_def out fields)
  moreover have "window_ok y ?x"
    by (rule window_ok_less [OF _ out(2)]) (use assms(2) in \<open>simp add: flow_ok_def\<close>)
  moreover have "credited ?x"
    unfolding credited_def
  proof (intro conjI ballI impI allI)
    fix f
    assume "f \<in> set (n_sent ?x)" "is_win f"
    then show "StreamID f \<in> set (ids (n_ses ?x))"
      using assms(2) gs sid_in_ids [OF assms(4)] by (auto simp: adv flow_ok_def credited_def fields(3) i_def)
  next
    fix b
    assume "b < length (heap (n_ses ?x))"
    then have "b < length (heap ?s)" "credit_of (sid (heap ?s ! b)) (n_sent x) \<le> length (n_got x b)"
      using assms(2) by (auto simp: adv fields flow_ok_def credited_def)
    with credit [of "sid (heap ?s ! b)"] sid_inj [OF ok(4) _ assms(4), of b]
    show "credit_of (sid (heap (n_ses ?x) ! b)) (n_sent ?x) \<le> length (n_got ?x b)"
      by (auto simp: adv fields i_def split: if_splits)
  qed
  ultimately show ?thesis using assms(2) by (simp add: flow_ok_def xs_def read_bytes_def)
qed

text \<open>A stream is added at \<open>x\<close>; what \<open>x\<close> writes with it is no DATA and no WIN.\<close>

lemma add_out:
  assumes "prefix (n_seen y) (n_sent x)" and "adds_stream i t (n_ses x) s" and "emits fs (n_ses x) s"
    and "\<forall>f\<in>set fs. is_syn f \<and> \<not> is_data f \<and> \<not> is_win f"
  shows "outstanding j (advance s x) y = outstanding j x y" "outstanding j y (advance s x) = outstanding j y x"
proof -
  have adv: "advance s x = x\<lparr>n_ses := s, n_sent := n_sent x @ fs\<rparr>" using assms(3) by (simp add: advance_def emits_new)
  have un: "unseen (advance s x) y = unseen x y @ fs" "unseen y (advance s x) = unseen y x"
    using unseen_sent [OF assms(1), of "advance s x" fs] by (simp_all add: adv unseen_def)
  have none: "data_of j fs = []" "credit_of j fs = 0" for j
    using assms(4) by (auto intro: data_of_none credit_of_none)
  show "outstanding j (advance s x) y = outstanding j x y" "outstanding j y (advance s x) = outstanding j y x"
    by (simp_all add: outstanding_def un none) (simp add: held_add [OF assms(2)])
qed

lemma add_flow:
  assumes "node_ok x" and "node_ok y" and "seen_ok (n_sent x) y" and "flow_ok (x, y)"
    and "adds_stream i t (n_ses x) s" and "emits fs (n_ses x) s" and "\<forall>f\<in>set fs. is_syn f \<and> \<not> is_data f \<and> \<not> is_win f"
    and "i \<notin> set (ids (n_ses x))"
  shows "flow_ok (advance s x, y)"
proof -
  note add = adds_streamD [OF assms(5)]
  have pre: "prefix (n_seen y) (n_sent x)" using assms(3) by (simp add: seen_ok_def)
  have adv: "advance s x = x\<lparr>n_ses := s, n_sent := n_sent x @ fs\<rparr>" using assms(6) by (simp add: advance_def emits_new)
  have none: "credit_of j fs = 0" for j
    using assms(7) by (auto intro: credit_of_none)
  note out = add_out [OF pre assms(5-7)]
  have nodata: "data_of i (n_sent x) = []"
    by (rule data_of_none) (use sent_ids [OF node_okD(3) [OF assms(1)] assms(8)] in blast)
  have cy: "credited y" using assms(4) by (simp add: flow_ok_def)
  have "data_of i (unseen x y) = []" unfolding unseen_def by (rule data_of_drop [OF nodata])
  moreover have "credit_of i (unseen y x) = 0"
    using untouched(2) [OF assms(2,3) cy nodata] credit_of_drop [of i "length (n_seen x)" "n_sent y"]
    by (simp add: unseen_def)
  ultimately have zero: "outstanding i x y = 0"
    using untouched(1) [OF assms(2,3) cy nodata] by (simp add: outstanding_def)
  have cfg: "cfg s = cfg (n_ses x)" using assms(5) by (simp add: adds_stream_def)
  have "0 \<le> sendWin (heap s ! a) \<and> sendWin (heap s ! a) + int (outstanding (sid (heap s ! a)) x y)
      \<le> uint (InitialWindow (cfg s))" if "a < length (heap s)" for a
  proof (cases "a = length (heap (n_ses x))")
    case True
    then have "heap s ! a = newStream i t (uint (InitialWindow (cfg s)))"
      using assms(5) by (simp add: adds_stream_def nth_append)
    then show ?thesis using zero by (simp add: newStream_def)
  next
    case False
    with that have "a < length (heap (n_ses x))" by (simp add: add(4))
    with assms(4) show ?thesis by (simp add: add(5) cfg flow_ok_def window_ok_def)
  qed
  then have "window_ok (advance s x) y" by (simp add: window_ok_def out)
  moreover have "window_ok y (advance s x)" using assms(4) by (auto simp: flow_ok_def window_ok_def out)
  moreover have "credited (advance s x)"
    unfolding credited_def
  proof (intro conjI ballI impI allI)
    fix f
    assume "f \<in> set (n_sent (advance s x))" "is_win f"
    then show "StreamID f \<in> set (ids (n_ses (advance s x)))"
      using assms(4,7) by (auto simp: adv add(1) flow_ok_def credited_def)
  next
    fix b
    assume b: "b < length (heap (n_ses (advance s x)))"
    show "credit_of (sid (heap (n_ses (advance s x)) ! b)) (n_sent (advance s x)) \<le> length (n_got (advance s x) b)"
    proof (cases "b = length (heap (n_ses x))")
      case True
      have "credit_of i (n_sent x) = 0"
        using assms(4,8) by (auto simp: flow_ok_def credited_def intro: credit_of_none)
      with True show ?thesis by (simp add: adv none add(6))
    next
      case False
      with b have "b < length (heap (n_ses x))" by (simp add: adv add(4))
      with assms(4) show ?thesis by (simp add: adv none add(5) flow_ok_def credited_def)
    qed
  qed
  ultimately show ?thesis using assms(4) by (simp add: flow_ok_def)
qed

section \<open>An inbound frame\<close>

lemma held_upd:
  assumes "distinct (ids s)" and "a < length (heap s)"
  shows "held i (upd_stream a (\<lambda>st. st\<lparr>buf := buf st @ p\<rparr>) s)
    = held i s + (if i = sid (heap s ! a) then length p else 0)"
proof (cases "i = sid (heap s ! a)")
  case True
  let ?s = "upd_stream a (\<lambda>st. st\<lparr>buf := buf st @ p\<rparr>) s"
  have "ids ?s = ids s" using assms(2) by (auto simp: ids_def nth_list_update' intro!: nth_equalityI)
  with held_at [of ?s a] assms have "held (sid (heap s ! a)) ?s = length (buf (heap s ! a)) + length p" by simp
  with held_at [OF assms] True show ?thesis by simp
next
  case False
  have "held i (upd_stream a (\<lambda>st. st\<lparr>buf := buf st @ p\<rparr>) s) = held i s"
    unfolding held_def by (rule sum.cong) (use False assms(2) in \<open>auto simp: nth_list_update'\<close>)
  with False show ?thesis by simp
qed

lemma held_lastRecv: "held i (s\<lparr>lastRecv := t\<rparr>) = held i s" and ids_lastRecv: "ids (s\<lparr>lastRecv := t\<rparr>) = ids s"
  using held_calm [of s "s\<lparr>lastRecv := t\<rparr>"] calmD(1) [of s "s\<lparr>lastRecv := t\<rparr>"] by (simp_all add: calm_def)

text \<open>A frame leaves the connection.\<close>

lemma seen_out:
  assumes "n_sent x = n_seen y @ f # rest"
  shows "outstanding i x y = (if is_data f \<and> StreamID f = i then length (Payload f) else 0)
      + outstanding i x (y\<lparr>n_seen := n_seen y @ [f], n_reading := c\<rparr>)"
    and "outstanding i y x = (if is_win f \<and> StreamID f = i then unat (get_u32 (Payload f)) else 0)
      + outstanding i (y\<lparr>n_seen := n_seen y @ [f], n_reading := c\<rparr>) x"
  using assms by (simp_all add: outstanding_def unseen_def)

lemma deliver_flow:
  assumes "peers_ok (x, y)" and "flow_ok (x, y)" and "n_sent x = n_seen y @ f # rest"
    and "wellformed (MaxFramePayload (cfg (n_ses y))) f"
  shows "flow_ok (x, deliver_frame now f y)"
proof -
  from assms(1) have ok: "node_ok x" "node_ok y" "seen_ok (n_sent x) y" "seen_ok (n_sent y) x" by (simp_all add: peers_ok_def)
  from assms(2) have fl: "credited x" "credited y" "window_ok x y" "window_ok y x" by (simp_all add: flow_ok_def)
  note y = node_okD [OF ok(2)]
  obtain c s where rl: "readLoop_frame now f (n_ses y) = (c, s)" by force
  define y1 where "y1 = y\<lparr>n_seen := n_seen y @ [f], n_reading := c\<rparr>"
  have y': "deliver_frame now f y = advance s y1"
    by (simp add: deliver_frame_def rl y1_def advance_def)
  have y1: "n_ses y1 = n_ses y" "node_ok y1" "seen_ok (n_sent y1) x" "prefix (n_seen x) (n_sent y1)"
    using ok(2,4) by (simp_all add: y1_def node_ok_def seen_ok_def)
  note out = seen_out [OF assms(3), of _ c, folded y1_def]
  have "window_ok x y1" by (rule window_ok_less [OF fl(3)]) (simp add: out(1))
  moreover have "window_ok y1 x"
    using window_okD [OF fl(4)] by (intro window_ok_le [OF fl(4)]) (simp_all add: y1(1) out(2))
  moreover have "credited y1" using fl(2) by (simp add: credited_def y1_def)
  ultimately have f1: "flow_ok (y1, x)" using fl(1) by (simp add: flow_ok_def)
  have quiet: "flow_ok (x, advance s y1)" if "quiet (n_ses y) s"
    using quiet_flow [of y1 s x] that f1 y1 flow_ok_swap by simp
  have "f \<in> set (n_sent x)" by (simp add: assms(3))
  with node_okD(3) [OF ok(1)] consider (ctl) "control f" | (win) "is_win f" | (data) "is_data f" | (syn) "is_syn f"
    by (auto simp: sent_ok_def neutral_def)
  then show ?thesis unfolding y'
  proof cases
    case ctl
    have "length (Payload f) < 2 ^ 32" using assms(4) sendable_length unfolding wellformed_def by blast
    with control_effect [OF ctl, of "n_ses y" now] show "flow_ok (x, advance s y1)" by (intro quiet) (simp add: rl)
  next
    case win
    show "flow_ok (x, advance s y1)"
    proof (cases "streams (n_ses y) (StreamID f)")
      case None
      with win_effect [OF win, of now "n_ses y"] rl show ?thesis by (intro quiet) (simp add: quiet_lastRecv)
    next
      case (Some a)
      have a: "a < length (heap (n_ses y))" "sid (heap (n_ses y) ! a) = StreamID f"
        using table_okD [OF y(1) Some] by simp_all
      define u where "u = uint (get_u32 (Payload f))"
      have bound: "0 \<le> sendWin (heap (n_ses y) ! a)" "sendWin (heap (n_ses y) ! a) + u
          + int (outstanding (StreamID f) y1 x) \<le> uint (InitialWindow (cfg (n_ses y)))"
        using fl(4) a out(2) [of "StreamID f"] win by (auto simp: window_ok_def u_def)
      have "uint (InitialWindow (cfg (n_ses y))) < 2 ^ 32" using uint_lt2p [where 'a = 32] by simp
      moreover have "(2 :: int) ^ 32 < 2 ^ 63" by simp
      ultimately have small: "sendWin (heap (n_ses y) ! a) + u < 2 ^ 63" using bound by linarith
      have s: "s = upd_stream a (\<lambda>st. st\<lparr>sendWin := sendWin (heap (n_ses y) ! a) + u\<rparr>) ((n_ses y)\<lparr>lastRecv := now\<rparr>)"
        using win_effect [OF win, of now "n_ses y"] rl Some addSendWindow_small [OF bound(1) _ small]
        by (simp add: u_def upd_stream_def)
      have adv: "advance s y1 = y1\<lparr>n_ses := s\<rparr>" by (simp add: advance_def new_frames_def s y1(1) )
      have same: "ids s = ids (n_ses y)" "length (heap s) = length (heap (n_ses y))" "cfg s = cfg (n_ses y)"
        "held i s = held i (n_ses y)" for i
        unfolding s using a(1)
        by (auto simp: ids_def held_def nth_list_update' intro!: nth_equalityI sum.cong)
      have heap: "heap s = (heap (n_ses y))[a := (heap (n_ses y) ! a)\<lparr>sendWin := sendWin (heap (n_ses y) ! a) + u\<rparr>]"
        unfolding s by simp
      have o: "outstanding i x (y1\<lparr>n_ses := s\<rparr>) = outstanding i x y1" "outstanding i (y1\<lparr>n_ses := s\<rparr>) x = outstanding i y1 x" for i
        by (simp_all add: outstanding_def unseen_def same y1(1))
      have "window_ok (y1\<lparr>n_ses := s\<rparr>) x"
      proof (rule window_ok_le [OF fl(4)])
        fix b
        assume b: "b < length (heap (n_ses y))"
        show "sid (heap (n_ses (y1\<lparr>n_ses := s\<rparr>)) ! b) = sid (heap (n_ses y) ! b) \<and>
            0 \<le> sendWin (heap (n_ses (y1\<lparr>n_ses := s\<rparr>)) ! b) \<and>
            sendWin (heap (n_ses (y1\<lparr>n_ses := s\<rparr>)) ! b) + int (outstanding (sid (heap (n_ses y) ! b)) (y1\<lparr>n_ses := s\<rparr>) x)
              \<le> sendWin (heap (n_ses y) ! b) + int (outstanding (sid (heap (n_ses y) ! b)) y x)"
        proof (cases "b = a")
          case True
          with a bound(1) win out(2) [of "StreamID f"] show ?thesis by (simp add: heap o u_def)
        next
          case False
          with b window_okD [OF fl(4) b] show ?thesis by (simp add: heap o out(2))
        qed
      qed (simp_all add: same)
      moreover have "window_ok x (y1\<lparr>n_ses := s\<rparr>)"
        using f1 by (simp add: flow_ok_def window_ok_def o)
      moreover have "credited (y1\<lparr>n_ses := s\<rparr>)"
        using f1 a(1) by (auto simp: flow_ok_def credited_def same y1(1) heap nth_list_update')
      ultimately show ?thesis using fl(1) by (simp add: flow_ok_def adv)
    qed
  next
    case data
    then show "flow_ok (x, advance s y1)"
    proof (cases rule: data_effect [of f "n_ses y" now])
      case dropped
      then show ?thesis by (intro quiet) (simp add: rl)
    next
      case (pushed a)
      have a: "a < length (heap (n_ses y))" "sid (heap (n_ses y) ! a) = StreamID f"
        using table_okD [OF y(1) pushed(1)] by simp_all
      have s: "s = upd_stream a (\<lambda>st. st\<lparr>buf := buf st @ Payload f\<rparr>) ((n_ses y)\<lparr>lastRecv := now\<rparr>)"
        using pushed(2) by (simp add: rl)
      have adv: "advance s y1 = y1\<lparr>n_ses := s\<rparr>" by (simp add: advance_def new_frames_def s y1(1))
      have same: "ids s = ids (n_ses y)" "length (heap s) = length (heap (n_ses y))" "cfg s = cfg (n_ses y)"
        "\<And>b. b < length (heap (n_ses y)) \<Longrightarrow> sid (heap s ! b) = sid (heap (n_ses y) ! b) \<and>
          sendWin (heap s ! b) = sendWin (heap (n_ses y) ! b)"
        unfolding s using a(1) by (auto simp: ids_def nth_list_update' intro!: nth_equalityI)
      have "held i s = held i (n_ses y) + (if i = StreamID f then length (Payload f) else 0)" for i
        using held_upd [of "(n_ses y)\<lparr>lastRecv := now\<rparr>" a i "Payload f"] y(4) a
        unfolding s by (simp add: ids_lastRecv held_lastRecv)
      then have o: "outstanding i x (y1\<lparr>n_ses := s\<rparr>) = outstanding i x y" "outstanding i (y1\<lparr>n_ses := s\<rparr>) x = outstanding i y1 x" for i
        using data by (simp_all add: outstanding_def unseen_def y1(1)) (simp add: y1_def assms(3))
      have "window_ok x (y1\<lparr>n_ses := s\<rparr>)" using fl(3) by (simp add: window_ok_def o)
      moreover have "window_ok (y1\<lparr>n_ses := s\<rparr>) x"
        using f1 by (auto simp: flow_ok_def window_ok_def o same y1(1))
      moreover have "credited (y1\<lparr>n_ses := s\<rparr>)"
        using f1 by (auto simp: flow_ok_def credited_def same y1(1))
      ultimately show ?thesis using fl(1) by (simp add: flow_ok_def adv)
    qed
  next
    case syn
    then show "flow_ok (x, advance s y1)"
    proof (cases rule: syn_effect [of f "n_ses y" now])
      case refused
      then show ?thesis by (intro quiet) (simp add: rl)
    next
      case (added t s1)
      have "flow_ok (advance s1 y1, x)"
        by (rule add_flow [OF y1(2) ok(1) y1(3) f1, of "StreamID f" t s1 "[]"])
          (use added inbound_syn(2) [OF assms(1,3) syn] in \<open>simp_all add: y1(1)\<close>)
      moreover have "prefix (n_seen x) (n_sent (advance s1 y1))"
        using y1(4) by (simp add: advance_def)
      moreover have "advance s (advance s1 y1) = advance s y1"
        using added(4) by (simp add: advance_def emits_def new_frames_def y1_def)
      ultimately show ?thesis
        using quiet_flow [of "advance s1 y1" s x] added(5) rl flow_ok_swap by simp
    qed
  qed
qed

section \<open>Every reachable state\<close>

lemma node_step_flow:
  assumes "node_step x x'" and "peers_ok (x, y)" and "flow_ok (x, y)" and "length (heap (n_ses x)) < 2 ^ 31"
  shows "flow_ok (x', y)"
proof -
  from assms(2) have ok: "node_ok x" "node_ok y" "seen_ok (n_sent x) y" by (simp_all add: peers_ok_def)
  have pre: "prefix (n_seen y) (n_sent x)" using ok(3) by (simp add: seen_ok_def)
  note x = node_okD [OF ok(1)]
  from assms(1) show ?thesis
  proof cases
    case (do_op s)
    have q: "flow_ok (advance s x, y)" if "quiet (n_ses x) s" by (rule quiet_flow [OF that assms(3) pre])
    from do_op(2) show ?thesis
    proof cases
      case (op_open t)
      from op_open(2) show ?thesis
      proof (cases rule: Open_effect [of t "n_ses x"])
        case shut
        then show ?thesis using q op_open(1) do_op(1) by simp
      next
        case (added fs)
        have "\<forall>f\<in>set fs. is_syn f \<and> \<not> is_data f \<and> \<not> is_win f" using added(4) by auto
        from add_flow [OF ok assms(3) added(1,3) this nextID_fresh(1) [OF x(1,2) assms(4)]]
        show ?thesis by (simp add: do_op(1) op_open(1))
      qed
    next
      case op_lost
      have "quiet (n_ses x) s" unfolding op_lost by (rule quiet_silent) (simp_all add: calm_def)
      then show ?thesis using q do_op(1) by simp
    qed (use q do_op(1) in \<open>auto simp: quiet_Accept quiet_StreamClose PingPayload_def quiet_writeFrame
        emittable_mk_frame quiet_tick quiet_close readLoop_error_def Close_def\<close>)
  next
    case (do_write a tot p r s)
    from write_flow [OF ok(1) assms(3) pre do_write(2-5)] show ?thesis by (simp add: do_write(1))
  next
    case (do_read a k r s)
    from read_flow [OF ok(1) assms(3) pre do_read(2,3)] show ?thesis by (simp add: do_read(1))
  qed
qed

lemma fresh_flow: "fresh_peers p \<Longrightarrow> flow_ok p"
  using fresh_session_fields
  by (auto simp: fresh_peers_def fresh_node_def flow_ok_def credited_def window_ok_def)

lemma peers_step_flow:
  assumes "peers_step p q" and "peers_ok p" and "flow_ok p" and "few_streams p"
  shows "flow_ok q"
  using assms
proof (induction rule: peers_step.induct)
  case (left x x' y)
  then show ?case by (auto simp: few_streams_def intro: node_step_flow)
next
  case (right y y' x)
  then have "flow_ok (y', x)"
    by (intro node_step_flow [of y y' x]) (auto simp: few_streams_def dest: peers_ok_swap [THEN iffD1] flow_ok_swap [THEN iffD1])
  then show ?case using flow_ok_swap by blast
next
  case (to_right x y f rest now)
  then show ?case by (intro deliver_flow)
next
  case (to_left y x f rest now)
  then have "flow_ok (y, deliver_frame now f x)"
    by (intro deliver_flow) (auto dest: peers_ok_swap [THEN iffD1] flow_ok_swap [THEN iffD1])
  then show ?case using flow_ok_swap by blast
qed

interpretation windowm: machine fresh_peers peers_step "\<lambda>p. few_streams p \<longrightarrow> peers_ok p \<and> flow_ok p"
proof unfold_locales
  fix p q
  show "few_streams p \<longrightarrow> peers_ok p \<and> flow_ok p" if "fresh_peers p"
    using peersm.inv_init [OF that] fresh_flow [OF that] by blast
  show "few_streams q \<longrightarrow> peers_ok q \<and> flow_ok q" if "few_streams p \<longrightarrow> peers_ok p \<and> flow_ok p" "peers_step p q"
    using peersm.inv_step [of p q] peers_step_flow [OF that(2)] few_streams_back [OF that(2)] that by blast
qed

text \<open>The frames a session has written are within its own limit.\<close>

lemma sent_wellformed:
  assumes "node_ok x" and "f \<in> set (n_sent x)" and "MaxFramePayload (cfg (n_ses x)) \<le> m"
  shows "wellformed m f"
proof -
  from node_okD(1) [OF assms(1)] obtain fs where fs: "wbytes (conn (n_ses x)) = concat (map encode_frame fs)"
    "\<forall>f\<in>set fs. wellformed (MaxFramePayload (cfg (n_ses x))) f"
    by (auto simp: sess_inv_def wire_ok_def)
  have "\<forall>f\<in>set fs. emittable f"
    using fs(2) sendable_length by (auto simp: wellformed_def emittable_def sendable_def)
  moreover have "concat (map encode_frame (n_sent x)) = concat (map encode_frame fs)" "\<forall>f\<in>set (n_sent x). emittable f"
    using assms(1) fs(1) by (simp_all add: node_ok_def emits_def)
  ultimately have "n_sent x = fs" by (metis parse_frames_concat)
  with fs(2) assms(2,3) wellformed_mono show ?thesis by blast
qed

end
