(* ===== verification/Peers_Credit.thy ===== *)
theory Peers_Credit
  imports Peers_Window
begin

unbundle bit_operations_syntax

text \<open>
  No credit is lost between two connected sessions: theory Peers_Window bounds the window of a stream
  and what is under way by its initial window; here they are shown to add up to it, for as long as
  both sessions can write and the stream is in their tables. With both, what the two ends of a
  connection make of each other's frames.
\<close>

section \<open>Sessions that can write\<close>

definition alive :: "session \<Rightarrow> bool" where
  "alive s \<longleftrightarrow> wok (conn s) \<and> \<not> closed s"

lemma alive_fields [simp]:
  "alive (s\<lparr>lastRecv := t\<rparr>) = alive s" "alive (upd_stream a g s) = alive s" "alive (removeStream i s) = alive s"
  "alive (s\<lparr>heap := h\<rparr>) = alive s" "alive (s\<lparr>streams := m\<rparr>) = alive s" "alive (s\<lparr>acceptCh := q\<rparr>) = alive s"
  "alive (s\<lparr>nextID := i\<rparr>) = alive s"
  by (simp_all add: alive_def upd_stream_def removeStream_def)

lemma wok_conn_write [simp]: "wok (snd (conn_write b c)) = wok c"
  by (simp add: conn_write_def)

lemma wok_WriteFrame: "wok (snd (WriteFrame conn_write f m c)) = wok c"
  using wok_conn_write [of "frame_header f" c] wok_conn_write [of "Payload f" "snd (conn_write (frame_header f) c)"]
  by (auto simp: WriteFrame_def simp del: wok_conn_write split: prod.split option.split)

lemma alive_writeFrame [simp]: "alive (snd (writeFrame f s)) = alive s"
  using wok_WriteFrame [of f "MaxFramePayload (cfg s)" "conn s"]
  by (auto simp: alive_def writeFrame_def split: prod.split)

lemma alive_written: "writeFrame f s = (e, t) \<Longrightarrow> alive t = alive s"
  using alive_writeFrame [of f s] by simp

lemma alive_abort [simp]: "alive (abortStream i r s) = alive s" and alive_reset [simp]: "alive (resetStream i s) = alive s"
  by (simp_all add: abortStream_def resetStream_def split: option.split)

lemma alive_close: "alive (closeWithError c s) \<Longrightarrow> alive s"
  by (simp add: closeWithError_def Let_def wake_all_def alive_def split: if_splits)

lemma dead_close: "sess_inv s \<Longrightarrow> \<not> alive (closeWithError c s)"
  by (simp add: alive_def closeWithError_closed)

text \<open>No operation brings a session back.\<close>

lemma alive_handleFrame: "alive (snd (handleFrame f s)) = alive s"
  by (simp add: handleFrame_def handleSYN_def handleFIN_def remoteClosed_def Let_def
      split: option.split sum.split prod.split)

lemma alive_readLoop_frame: "alive (snd (readLoop_frame now f s)) \<Longrightarrow> alive s"
  using alive_handleFrame [of f "s\<lparr>lastRecv := now\<rparr>"]
  by (auto simp: readLoop_frame_def split: prod.splits option.splits dest!: alive_close)

lemma alive_op: "session_op s t \<Longrightarrow> alive t \<Longrightarrow> alive s"
proof (induction rule: session_op.induct)
  case (op_open t s)
  then show ?case
    by (auto simp: Open_def Let_def split: prod.splits option.splits if_splits dest: alive_written)
next
  case (op_close_stream a s)
  then show ?case by (auto simp: StreamClose_def Let_def split: prod.splits option.splits if_splits)
next
  case (op_tick s now)
  then show ?case
    by (auto simp: keepAlive_tick_def split: prod.splits option.splits if_splits dest!: alive_close dest: alive_written)
qed (auto simp: Accept_def PingPayload_def readLoop_error_def Close_def alive_def [of "_\<lparr>conn := _\<rparr>"]
    split: list.splits if_splits dest: alive_close)

lemma alive_write: "Write_round a p tot s = (r, t) \<Longrightarrow> alive t = alive s"
  by (auto simp: Write_round_def split: prod.splits write_out.splits option.splits dest: alive_written)

lemma alive_read: "StreamRead a k s = (r, t) \<Longrightarrow> alive t = alive s"
  by (auto simp: StreamRead_def split: prod.splits read_out.splits if_splits)

section \<open>What is written and read exactly\<close>

lemma Write_exact:
  assumes "a < length (heap s)" and "tot < length p" and "length p < 2 ^ 32"
    and "Write_round a p tot s = (r, s')" and "alive s" and "0 \<le> sendWin (heap s ! a)"
  shows "sendWin (heap s' ! a) + int (length (framed p tot r)) = sendWin (heap s ! a)"
proof -
  obtain out st where lk: "Write_locked (MaxFramePayload (cfg s)) (length p - tot) (heap s ! a) = (out, st)" by force
  show ?thesis
  proof (cases out)
    case (WriteChunk n)
    note chunk = Write_locked_chunk [OF lk [unfolded WriteChunk]]
    let ?s = "upd_stream a (\<lambda>_. st) s"
    have "writeFrame (mk_frame FlagDATA (sid st) (take n (drop tot p))) ?s
      = (None, ?s\<lparr>conn := (conn s)\<lparr>wbytes := wbytes (conn s) @ encode_frame (mk_frame FlagDATA (sid st) (take n (drop tot p)))\<rparr>\<rparr>)"
      using assms(5) chunk by (subst writeFrame_ok) (auto simp: alive_def)
    with assms(4) have "r = Continue (tot + n)" "heap s' = (heap s)[a := st]"
      by (auto simp: Write_round_def lk WriteChunk)
    with chunk assms(1,2) show ?thesis by (simp add: framed_def)
  next
    case WritePanic
    with Write_locked_no_panic [OF assms(6), of "MaxFramePayload (cfg s)" "length p - tot"] lk show ?thesis by simp
  qed (use assms(4) in \<open>auto simp: Write_round_def lk framed_def\<close>)
qed

lemma Read_exact:
  assumes "sess_inv s" and "a < length (heap s)" and "StreamRead a k s = (r, s')" and "alive s"
    and "4 \<le> unat (MaxFramePayload (cfg s))"
  shows "credit_of (sid (heap s ! a)) (new_frames s s') = length (read_bytes r)"
proof -
  obtain x st where rd: "Read_locked k (heap s ! a) = (x, st)" by force
  show ?thesis
  proof (cases "k \<noteq> 0 \<and> (\<exists>xs u. x = ReadData xs u)")
    case True
    then obtain xs u where x: "x = ReadData xs u" by blast
    from bufs_okD [OF assms(1,2)] unat_u32_bound [of "InitialWindow (cfg s)"]
    have "length (buf (heap s ! a)) < 2 ^ 32" "recvUnacked (heap s ! a) = 0" by simp_all
    with Read_locked_data [of k "heap s ! a" xs u st] rd x have u: "unat u = length xs" by simp
    have "sid st = sid (heap s ! a)" using rd by (auto simp: Read_locked_def Let_def split: if_splits)
    moreover let ?s = "upd_stream a (\<lambda>_. st) s" and ?f = "mk_frame FlagWIN (sid (heap s ! a)) (put_u32 u)"
    have "writeFrame ?f ?s = (None, ?s\<lparr>conn := (conn s)\<lparr>wbytes := wbytes (conn s) @ encode_frame ?f\<rparr>\<rparr>)"
      using assms(4,5) by (subst writeFrame_ok) (auto simp: alive_def)
    ultimately have "r = ReadData xs u" "wbytes (conn s') = wbytes (conn s) @ encode_frame ?f"
      using assms(3) True by (auto simp: StreamRead_def rd x appendU32_def)
    moreover from this(2) have "emits [?f] s s'" by (simp add: emits_def emittable_mk_frame)
    then have "new_frames s s' = [?f]" by (rule emits_new)
    ultimately show ?thesis using u by (simp add: read_bytes_def)
  next
    case False
    then have "s' = s" "read_bytes r = []"
      using assms(3) by (cases x; auto simp: StreamRead_def rd read_bytes_def split: if_splits)+
    then show ?thesis by (simp add: new_frames_def)
  qed
qed

section \<open>Nothing is lost\<close>

text \<open>Nothing of a stream has been thrown away at an end: the stream is in its table, or no DATA of it
  has come.\<close>

definition takes :: "u32 \<Rightarrow> node \<Rightarrow> bool" where
  "takes i y \<longleftrightarrow> streams (n_ses y) i \<noteq> None \<or> data_of i (n_seen y) = []"

text \<open>A WIN frame is four bytes, which the reader's frame limit has to let through.\<close>

definition working :: "node \<Rightarrow> node \<Rightarrow> bool" where
  "working x y \<longleftrightarrow> alive (n_ses x) \<and> alive (n_ses y) \<and> 4 \<le> unat (MaxFramePayload (cfg (n_ses y)))"

definition full :: "node \<Rightarrow> node \<Rightarrow> nat \<Rightarrow> bool" where
  "full x y a \<longleftrightarrow> uint (InitialWindow (cfg (n_ses x)))
     \<le> sendWin (heap (n_ses x) ! a) + int (outstanding (sid (heap (n_ses x) ! a)) x y)"

definition kept :: "node \<Rightarrow> node \<Rightarrow> bool" where
  "kept x y \<longleftrightarrow> (working x y \<longrightarrow>
     (\<forall>i a. streams (n_ses x) i = Some a \<and> takes i y \<longrightarrow> full x y a))"

text \<open>A step keeps it when each stream still to be accounted for was so before and lost nothing.\<close>

lemma kept_step:
  assumes "kept x y" and "table_ok (n_ses x)" and "working x' y' \<Longrightarrow> working x y"
    and "cfg (n_ses x') = cfg (n_ses x)"
    and "\<And>i a. working x' y' \<Longrightarrow> streams (n_ses x') i = Some a \<Longrightarrow> takes i y' \<Longrightarrow> full x' y' a \<or>
      streams (n_ses x) i = Some a \<and> takes i y \<and> sid (heap (n_ses x') ! a) = i \<and>
      sendWin (heap (n_ses x) ! a) + int (outstanding i x y) \<le> sendWin (heap (n_ses x') ! a) + int (outstanding i x' y')"
  shows "kept x' y'"
  unfolding kept_def
proof (intro impI allI, elim conjE)
  fix i a
  assume new: "working x' y'" "streams (n_ses x') i = Some a" "takes i y'"
  from assms(5) [OF new] show "full x' y' a"
  proof (elim disjE conjE)
    assume old: "streams (n_ses x) i = Some a" "takes i y" "sid (heap (n_ses x') ! a) = i"
      "sendWin (heap (n_ses x) ! a) + int (outstanding i x y) \<le> sendWin (heap (n_ses x') ! a) + int (outstanding i x' y')"
    have "sid (heap (n_ses x) ! a) = i" using assms(2) old(1) by (simp add: table_ok_def)
    with assms(1) old assms(3) [OF new(1)] have
      "uint (InitialWindow (cfg (n_ses x))) \<le> sendWin (heap (n_ses x) ! a) + int (outstanding i x y)"
      unfolding kept_def full_def by fastforce
    with old show ?thesis by (simp add: full_def assms(4))
  qed
qed

definition credit_ok :: "node \<times> node \<Rightarrow> bool" where
  "credit_ok p \<longleftrightarrow> kept (fst p) (snd p) \<and> kept (snd p) (fst p)"

lemma credit_ok_swap: "credit_ok (x, y) \<longleftrightarrow> credit_ok (y, x)"
  by (auto simp: credit_ok_def)

lemma table: "node_ok x \<Longrightarrow> table_ok (n_ses x)"
  by (simp add: node_ok_def sess_inv_def)

lemma table_sid: "node_ok x \<Longrightarrow> streams (n_ses x) i = Some a \<Longrightarrow> a < length (heap (n_ses x)) \<and> sid (heap (n_ses x) ! a) = i"
  using table [of x] by (simp add: table_ok_def)

lemma takes_mono:
  assumes "takes i x'" and "streams (n_ses x') \<subseteq>\<^sub>m streams (n_ses x)" and "n_seen x' = n_seen x"
  shows "takes i x"
  using assms by (cases "streams (n_ses x') i") (auto simp: takes_def map_le_def dom_def)

lemma table_sub: "t \<subseteq>\<^sub>m u \<Longrightarrow> t i = Some a \<Longrightarrow> u i = Some a"
  by (auto simp: map_le_def dom_def)

text \<open>The end that makes the step, as the sender of a stream and as its receiver.\<close>

lemma kept_sender:
  assumes "kept x y" and "node_ok x" and "alive (n_ses x') \<Longrightarrow> alive (n_ses x)"
    and "cfg (n_ses x') = cfg (n_ses x)" and "streams (n_ses x') \<subseteq>\<^sub>m streams (n_ses x)"
    and "\<And>a. alive (n_ses x) \<Longrightarrow> a < length (heap (n_ses x)) \<Longrightarrow> sid (heap (n_ses x') ! a) = sid (heap (n_ses x) ! a) \<and>
      sendWin (heap (n_ses x) ! a) + int (outstanding (sid (heap (n_ses x) ! a)) x y)
        \<le> sendWin (heap (n_ses x') ! a) + int (outstanding (sid (heap (n_ses x) ! a)) x' y)"
  shows "kept x' y"
proof (rule kept_step [OF assms(1) table [OF assms(2)]])
  fix i a
  assume new: "working x' y" "streams (n_ses x') i = Some a" "takes i y"
  then have old: "streams (n_ses x) i = Some a" "alive (n_ses x)"
    using table_sub [OF assms(5)] assms(3) by (auto simp: working_def)
  with table_sid [OF assms(2) old(1)] assms(6) [OF old(2), of a] new(3)
  show "full x' y a \<or> streams (n_ses x) i = Some a \<and> takes i y \<and> sid (heap (n_ses x') ! a) = i \<and>
      sendWin (heap (n_ses x) ! a) + int (outstanding i x y) \<le> sendWin (heap (n_ses x') ! a) + int (outstanding i x' y)"
    by simp
qed (use assms(3,4) in \<open>auto simp: working_def\<close>)

lemma kept_receiver:
  assumes "kept y x" and "node_ok y" and "alive (n_ses x') \<Longrightarrow> alive (n_ses x)"
    and "cfg (n_ses x') = cfg (n_ses x)" and "\<And>i. takes i x' \<Longrightarrow> takes i x"
    and "\<And>i. working y x' \<Longrightarrow> outstanding i y x \<le> outstanding i y x'"
  shows "kept y x'"
proof (rule kept_step [OF assms(1) table [OF assms(2)]])
  fix i a
  assume new: "working y x'" "streams (n_ses y) i = Some a" "takes i x'"
  with table_sid [OF assms(2) new(2)] assms(5) [OF new(3)] assms(6) [OF new(1), of i]
  show "full y x' a \<or> streams (n_ses y) i = Some a \<and> takes i x \<and> sid (heap (n_ses y) ! a) = i \<and>
      sendWin (heap (n_ses y) ! a) + int (outstanding i y x) \<le> sendWin (heap (n_ses y) ! a) + int (outstanding i y x')"
    by simp
qed (use assms(3,4) in \<open>auto simp: working_def\<close>)

lemma quiet_kept:
  assumes "quiet (n_ses x) s" and "alive s \<Longrightarrow> alive (n_ses x)" and "node_ok x" and "node_ok y"
    and "credit_ok (x, y)" and "prefix (n_seen y) (n_sent x)"
  shows "credit_ok (advance s x, y)"
proof -
  note out = quiet_out [OF assms(1,6)]
  have calm: "calm (n_ses x) s" and win: "\<forall>a<length (heap (n_ses x)). sendWin (heap s ! a) = sendWin (heap (n_ses x) ! a)"
    using assms(1) by (auto simp: quiet_def)
  have cfg: "cfg s = cfg (n_ses x)" and sub: "streams s \<subseteq>\<^sub>m streams (n_ses x)" using calm by (simp_all add: calm_def)
  have k: "kept x y" "kept y x" using assms(5) by (simp_all add: credit_ok_def)
  have "kept (advance s x) y"
    by (rule kept_sender [OF k(1) assms(3)]) (use assms(2) cfg sub win out calmD(7) [OF calm] in simp_all)
  moreover have "kept y (advance s x)"
    by (rule kept_receiver [OF k(2) assms(4)])
      (use assms(2) cfg sub out takes_mono [of _ "advance s x" x] in \<open>simp_all add: advance_def\<close>)
  ultimately show ?thesis by (simp add: credit_ok_def)
qed

lemma write_kept:
  assumes "node_ok x" and "node_ok y" and "flow_ok (x, y)" and "credit_ok (x, y)" and "prefix (n_seen y) (n_sent x)"
    and "a < length (heap (n_ses x))" and "tot < length p" and "length p < 2 ^ 32"
    and "Write_round a p tot (n_ses x) = (r, s)"
  shows "credit_ok ((advance s x)\<lparr>n_wrote := w\<rparr>, y)"
proof -
  note eff = Write_effect [OF assms(6-9)]
  let ?x = "(advance s x)\<lparr>n_wrote := w\<rparr>"
  have out: "outstanding j ?x y
        = outstanding j x y + (if j = sid (heap (n_ses x) ! a) then length (framed p tot r) else 0)"
      "outstanding j y ?x = outstanding j y x" for j
    by (rule write_parts [OF assms(5-9), of w]; assumption)+
  have cfg: "cfg s = cfg (n_ses x)" and sub: "streams s \<subseteq>\<^sub>m streams (n_ses x)" using eff(1) by (simp_all add: calm_def)
  have k: "kept x y" "kept y x" using assms(4) by (simp_all add: credit_ok_def)
  have pos: "0 \<le> sendWin (heap (n_ses x) ! a)" using assms(3,6) window_okD by (auto simp: flow_ok_def)
  have "kept ?x y"
  proof (rule kept_sender [OF k(1) assms(1)])
    fix b
    assume b: "alive (n_ses x)" "b < length (heap (n_ses x))"
    have "sendWin (heap (n_ses x) ! b)
      = sendWin (heap s ! b) + (if sid (heap (n_ses x) ! b) = sid (heap (n_ses x) ! a) then int (length (framed p tot r)) else 0)"
    proof (cases "b = a")
      case True
      with Write_exact [OF assms(6-9) b(1) pos] show ?thesis by simp
    next
      case False
      with eff(4) b sid_inj [OF node_okD(4) [OF assms(1)] b(2) assms(6)] show ?thesis by simp
    qed
    with out calmD(7) [OF eff(1) b(2)]
    show "sid (heap (n_ses ?x) ! b) = sid (heap (n_ses x) ! b) \<and>
      sendWin (heap (n_ses x) ! b) + int (outstanding (sid (heap (n_ses x) ! b)) x y)
        \<le> sendWin (heap (n_ses ?x) ! b) + int (outstanding (sid (heap (n_ses x) ! b)) ?x y)" by simp
  qed (use alive_write [OF assms(9)] cfg sub in simp_all)
  moreover have "kept y ?x"
    by (rule kept_receiver [OF k(2) assms(2)])
      (use alive_write [OF assms(9)] cfg sub out(2) takes_mono [of _ ?x x] in \<open>simp_all add: advance_def\<close>)
  ultimately show ?thesis by (simp add: credit_ok_def)
qed

lemma read_kept:
  assumes "node_ok x" and "node_ok y" and "credit_ok (x, y)" and "prefix (n_seen y) (n_sent x)"
    and "a < length (heap (n_ses x))" and "StreamRead a k (n_ses x) = (r, s)" and "x' = (advance s x)\<lparr>n_got := g\<rparr>"
  shows "credit_ok (x', y)"
proof -
  obtain gs where adv: "x' = x\<lparr>n_ses := s, n_sent := n_sent x @ gs, n_got := g\<rparr>" "gs = new_frames (n_ses x) s"
    and gs: "gs = [] \<or> (\<exists>u. gs = [mk_frame FlagWIN (sid (heap (n_ses x) ! a)) (put_u32 u)] \<and> unat u = length (read_bytes r))"
    and fields: "length (heap s) = length (heap (n_ses x))" "cfg s = cfg (n_ses x)" "ids s = ids (n_ses x)"
      "streams s \<subseteq>\<^sub>m streams (n_ses x)"
      "\<forall>b<length (heap (n_ses x)). sid (heap s ! b) = sid (heap (n_ses x) ! b) \<and> sendWin (heap s ! b) = sendWin (heap (n_ses x) ! b)"
    and out: "\<forall>j. outstanding j x' y = outstanding j x y"
      "\<forall>j. outstanding j y x' + (if j = sid (heap (n_ses x) ! a) then length (read_bytes r) else 0)
        = outstanding j y x + credit_of j gs"
    by (rule read_parts [OF assms(1,4-7)])
  have same: "n_ses x' = s" "n_seen x' = n_seen x" by (simp_all add: adv(1))
  have alive: "alive s = alive (n_ses x)" by (rule alive_read [OF assms(6)])
  have k: "kept x y" "kept y x" using assms(3) by (simp_all add: credit_ok_def)
  have "kept x' y"
    by (rule kept_sender [OF k(1) assms(1)]) (use alive fields out(1) in \<open>simp_all add: same\<close>)
  moreover have "kept y x'"
  proof (rule kept_receiver [OF k(2) assms(2)])
    fix i
    assume "working y x'"
    then have "credit_of (sid (heap (n_ses x) ! a)) gs = length (read_bytes r)"
      using Read_exact [OF node_okD(1) [OF assms(1)] assms(5,6)] alive
      by (simp add: working_def same adv(2) fields(2))
    with spec [OF out(2), of i] show "outstanding i y x \<le> outstanding i y x'" by (simp split: if_splits)
  qed (use alive fields(2,4) takes_mono [of _ x' x] in \<open>simp_all add: same\<close>)
  ultimately show ?thesis by (simp add: credit_ok_def)
qed

lemma add_kept:
  assumes "node_ok x" and "node_ok y" and "credit_ok (x, y)" and "prefix (n_seen y) (n_sent x)"
    and "adds_stream i t (n_ses x) s" and "emits fs (n_ses x) s" and "\<forall>f\<in>set fs. is_syn f \<and> \<not> is_data f \<and> \<not> is_win f"
    and "data_of i (n_seen x) = []" and "alive s \<Longrightarrow> alive (n_ses x)"
  shows "credit_ok (advance s x, y)"
proof -
  note add = adds_streamD [OF assms(5)] and out = add_out [OF assms(4-7)]
  have cfg: "cfg s = cfg (n_ses x)" using assms(5) by (simp add: adds_stream_def)
  have k: "kept x y" "kept y x" using assms(3) by (simp_all add: credit_ok_def)
  have "kept (advance s x) y"
  proof (rule kept_step [OF k(1) table [OF assms(1)]])
    fix j a
    assume new: "streams (n_ses (advance s x)) j = Some a" "takes j y"
    show "full (advance s x) y a \<or> streams (n_ses x) j = Some a \<and> takes j y \<and> sid (heap (n_ses (advance s x)) ! a) = j \<and>
      sendWin (heap (n_ses x) ! a) + int (outstanding j x y)
        \<le> sendWin (heap (n_ses (advance s x)) ! a) + int (outstanding j (advance s x) y)"
    proof (cases "a = length (heap (n_ses x))")
      case True
      then have "sendWin (heap s ! a) = uint (InitialWindow (cfg s))"
        using assms(5) by (simp add: adds_stream_def newStream_def)
      then show ?thesis by (simp add: full_def)
    next
      case False
      then have "streams (n_ses x) j = Some a" using added_streams [OF assms(5)] new(1) by auto
      with table_sid [OF assms(1) this] new(2) out add(5) show ?thesis by simp
    qed
  qed (use assms(9) cfg in \<open>auto simp: working_def\<close>)
  moreover have "takes j x" if "takes j (advance s x)" for j
    using that assms(5,8) by (cases "j = i") (auto simp: takes_def advance_def adds_stream_def)
  then have "kept y (advance s x)"
    by (intro kept_receiver [OF k(2) assms(2)]) (use assms(9) cfg out in simp_all)
  ultimately show ?thesis by (simp add: credit_ok_def)
qed

section \<open>An inbound frame\<close>

lemma readLoop_stops_dead:
  assumes "sess_inv (snd (readLoop_frame now f s))" and "\<not> fst (readLoop_frame now f s)"
  shows "\<not> alive (snd (readLoop_frame now f s))"
proof -
  obtain e s' where "handleFrame f (s\<lparr>lastRecv := now\<rparr>) = (e, s')" by force
  with assms(2) have "snd (readLoop_frame now f s) = closeWithError True (closeWithError True s')"
    by (cases e) (simp_all add: readLoop_frame_def)
  moreover have "closeOnce (closeWithError True t)" for t
    by (simp add: closeWithError_def Let_def wake_all_def)
  ultimately show ?thesis using assms(1) by (simp add: sess_inv_def life_ok_def alive_def)
qed

text \<open>A frame that is neither DATA nor WIN leaves the connection.\<close>

lemma seen_kept:
  assumes "node_ok x" and "node_ok y" and "credit_ok (x, y)" and "n_sent x = n_seen y @ f # rest"
    and "\<not> is_data f" and "\<not> is_win f"
  shows "credit_ok (y\<lparr>n_seen := n_seen y @ [f], n_reading := c\<rparr>, x)"
proof -
  let ?y = "y\<lparr>n_seen := n_seen y @ [f], n_reading := c\<rparr>"
  note out = seen_out [OF assms(4), of _ c]
  have k: "kept x y" "kept y x" using assms(3) by (simp_all add: credit_ok_def)
  have "kept x ?y"
    by (rule kept_receiver [OF k(1) assms(1)]) (use assms(5) out in \<open>auto simp: takes_def\<close>)
  moreover have "kept ?y x"
    by (rule kept_sender [OF k(2) assms(2)]) (use assms(6) out in simp_all)
  ultimately show ?thesis by (simp add: credit_ok_def)
qed

lemma win_kept:
  assumes "node_ok x" and "node_ok y" and "flow_ok (x, y)" and "credit_ok (x, y)" and "n_sent x = n_seen y @ f # rest"
    and "is_win f" and "\<not> is_data f"
  shows "credit_ok (x, deliver_frame now f y)"
proof -
  define s where "s = snd (readLoop_frame now f (n_ses y))"
  define u where "u = uint (get_u32 (Payload f))"
  define y1 where "y1 = y\<lparr>n_seen := n_seen y @ [f], n_reading := True\<rparr>"
  note out = seen_out [OF assms(5), of _ True, folded y1_def]
  have s: "s = (case streams (n_ses y) (StreamID f) of None \<Rightarrow> (n_ses y)\<lparr>lastRecv := now\<rparr>
      | Some a \<Rightarrow> upd_stream a (addSendWindow u) ((n_ses y)\<lparr>lastRecv := now\<rparr>))"
    unfolding s_def u_def win_effect [OF assms(6)] by simp
  have frame: "readLoop_frame now f (n_ses y) = (True, s)"
    using win_effect [OF assms(6), of now "n_ses y"] by (simp add: s_def)
  have same: "streams s = streams (n_ses y)" "cfg s = cfg (n_ses y)" "conn s = conn (n_ses y)" "alive s = alive (n_ses y)"
    "length (heap s) = length (heap (n_ses y))"
    by (simp_all add: s split: option.split)
  have calm: "calm (n_ses y) s" using win_mild [OF assms(6)] by (simp add: s_def mild_def)
  define y' where "y' = y1\<lparr>n_ses := s\<rparr>"
  have y': "deliver_frame now f y = y'"
    by (simp add: deliver_frame_def frame y'_def y1_def advance_def new_frames_def same(3))
  have o: "outstanding i y' x = outstanding i y1 x" "outstanding i x y' = outstanding i x y1" for i
    by (simp_all add: outstanding_def unseen_def y'_def y1_def held_calm [OF calm])
  have win: "sendWin (heap s ! a) = sendWin (heap (n_ses y) ! a) + (if i = StreamID f then u else 0)"
    if "streams (n_ses y) i = Some a" for i a
  proof (cases "i = StreamID f")
    case True
    have "a < length (heap (n_ses y))" "sid (heap (n_ses y) ! a) = i" using table_sid [OF assms(2) that] by simp_all
    moreover have "window_ok y x" using assms(3) by (simp add: flow_ok_def)
    ultimately have "0 \<le> sendWin (heap (n_ses y) ! a)"
      "sendWin (heap (n_ses y) ! a) + u \<le> uint (InitialWindow (cfg (n_ses y)))" "0 \<le> u"
      using out(2) [of i] True assms(6) by (auto simp: window_ok_def u_def)
    moreover have "uint (InitialWindow (cfg (n_ses y))) < 2 ^ 32" using uint_lt2p [where 'a = 32] by simp
    moreover have "(2 :: int) ^ 32 < 2 ^ 63" by simp
    ultimately have "addSendWindow u (heap (n_ses y) ! a) = (heap (n_ses y) ! a)\<lparr>sendWin := sendWin (heap (n_ses y) ! a) + u\<rparr>"
      by (intro addSendWindow_small) linarith+
    with True that \<open>a < length (heap (n_ses y))\<close> show ?thesis by (simp add: s)
  next
    case False
    then have "streams (n_ses y) (StreamID f) \<noteq> Some a"
      using table_sid [OF assms(2)] that by (metis option.inject)
    with False show ?thesis by (cases "streams (n_ses y) (StreamID f)") (auto simp: s)
  qed
  have k: "kept x y" "kept y x" using assms(4) by (simp_all add: credit_ok_def)
  have "kept x y'"
    by (rule kept_receiver [OF k(1) assms(1)]) (use same out(1) o(2) assms(7) in \<open>auto simp: takes_def y'_def y1_def\<close>)
  moreover have "kept y' x"
  proof (rule kept_step [OF k(2) table [OF assms(2)]])
    fix i a
    assume "streams (n_ses y') i = Some a" "takes i x"
    then have "streams (n_ses y) i = Some a" by (simp add: y'_def same(1))
    with win [OF this] table_sid [OF assms(2) this] out(2) [of i] o(1) [of i] calmD(7) [OF calm, of a] assms(6) \<open>takes i x\<close>
    show "full y' x a \<or> streams (n_ses y) i = Some a \<and> takes i x \<and> sid (heap (n_ses y') ! a) = i \<and>
      sendWin (heap (n_ses y) ! a) + int (outstanding i y x) \<le> sendWin (heap (n_ses y') ! a) + int (outstanding i y' x)"
      by (simp add: y'_def u_def)
  qed (use same in \<open>auto simp: y'_def working_def\<close>)
  ultimately show ?thesis by (simp add: credit_ok_def y')
qed

lemma data_kept:
  assumes "node_ok x" and "node_ok y" and "credit_ok (x, y)" and "n_sent x = n_seen y @ f # rest"
    and "prefix (n_seen x) (n_sent y)" and "is_data f" and "\<not> is_win f"
    and "sess_inv (snd (readLoop_frame now f (n_ses y)))"
  shows "credit_ok (x, deliver_frame now f y)"
proof -
  obtain c s where rl: "readLoop_frame now f (n_ses y) = (c, s)" by force
  define y1 where "y1 = y\<lparr>n_seen := n_seen y @ [f], n_reading := c\<rparr>"
  note out = seen_out [OF assms(4), of _ c, folded y1_def]
  have y': "deliver_frame now f y = advance s y1"
    by (simp add: deliver_frame_def rl y1_def advance_def)
  have y1: "n_ses y1 = n_ses y" "n_seen y1 = n_seen y @ [f]" "n_sent y1 = n_sent y" by (simp_all add: y1_def)
  have alive: "alive s \<Longrightarrow> alive (n_ses y)" using alive_readLoop_frame [of now f "n_ses y"] by (simp add: rl)
  have k: "kept x y" "kept y x" using assms(3) by (simp_all add: credit_ok_def)
  from assms(6) show ?thesis unfolding y'
  proof (cases rule: data_effect [of f "n_ses y" now])
    case dropped
    then have q: "quiet (n_ses y1) s" and none: "streams (n_ses y) (StreamID f) = None \<or> \<not> c" by (simp_all add: rl y1)
    have sub: "streams s \<subseteq>\<^sub>m streams (n_ses y)" and cfg: "cfg s = cfg (n_ses y)"
      using q by (simp_all add: quiet_def calm_def y1)
    note o = quiet_out [OF q, of x, unfolded y1(3), OF assms(5)]
    have "kept (advance s y1) x"
      by (rule kept_sender [OF k(2) assms(2)])
        (use alive cfg sub o out assms(7) q in \<open>auto simp: quiet_def calm_def y1\<close>)
    moreover have "kept x (advance s y1)"
    proof (rule kept_step [OF k(1) table [OF assms(1)]])
      fix i a
      assume new: "working x (advance s y1)" "streams (n_ses x) i = Some a" "takes i (advance s y1)"
      have "c" using new(1) readLoop_stops_dead [OF assms(8)] by (auto simp: rl working_def)
      with none sub have gone: "streams s (StreamID f) = None"
        using table_sub [OF sub, of "StreamID f"] by (cases "streams s (StreamID f)") auto
      have "takes i y" using new(3) sub table_sub [OF sub, of i]
        by (cases "streams s i") (auto simp: takes_def advance_def y1)
      moreover have "outstanding i x y = outstanding i x (advance s y1)"
        using new(3) gone out(1) [of i] o(2) [of i] assms(6) by (auto simp: takes_def advance_def y1)
      ultimately show "full x (advance s y1) a \<or> streams (n_ses x) i = Some a \<and> takes i y \<and> sid (heap (n_ses x) ! a) = i \<and>
        sendWin (heap (n_ses x) ! a) + int (outstanding i x y)
          \<le> sendWin (heap (n_ses x) ! a) + int (outstanding i x (advance s y1))"
        using new(2) table_sid [OF assms(1) new(2)] by simp
    qed (use alive cfg in \<open>auto simp: working_def\<close>)
    ultimately show "credit_ok (x, advance s y1)" by (simp add: credit_ok_def)
  next
    case (pushed a)
    have a: "a < length (heap (n_ses y))" "sid (heap (n_ses y) ! a) = StreamID f"
      using table_sid [OF assms(2) pushed(1)] by simp_all
    have s: "s = upd_stream a (\<lambda>st. st\<lparr>buf := buf st @ Payload f\<rparr>) ((n_ses y)\<lparr>lastRecv := now\<rparr>)"
      using pushed(2) by (simp add: rl)
    have adv: "advance s y1 = y1\<lparr>n_ses := s\<rparr>" by (simp add: advance_def new_frames_def s y1(1))
    have same: "streams s = streams (n_ses y)" "cfg s = cfg (n_ses y)" "alive s = alive (n_ses y)"
      "\<forall>b<length (heap (n_ses y)). sid (heap s ! b) = sid (heap (n_ses y) ! b) \<and> sendWin (heap s ! b) = sendWin (heap (n_ses y) ! b)"
      unfolding s using a(1) by (auto simp: nth_list_update')
    have "held i s = held i (n_ses y) + (if i = StreamID f then length (Payload f) else 0)" for i
      using held_upd [of "(n_ses y)\<lparr>lastRecv := now\<rparr>" a i "Payload f"] node_okD(4) [OF assms(2)] a
      unfolding s by (simp add: ids_lastRecv held_lastRecv)
    then have o: "outstanding i x (y1\<lparr>n_ses := s\<rparr>) = outstanding i x y" "outstanding i (y1\<lparr>n_ses := s\<rparr>) x = outstanding i y1 x" for i
      using out(1) [of i] assms(6) by (simp_all add: outstanding_def unseen_def y1(1))
    have "kept (y1\<lparr>n_ses := s\<rparr>) x"
      by (rule kept_sender [OF k(2) assms(2)]) (use same o out assms(7) in simp_all)
    moreover have "kept x (y1\<lparr>n_ses := s\<rparr>)"
      by (rule kept_receiver [OF k(1) assms(1)]) (use same o in \<open>auto simp: takes_def y1\<close>)
    ultimately show "credit_ok (x, advance s y1)" by (simp add: credit_ok_def adv)
  qed
qed

lemma deliver_kept:
  assumes "peers_ok (x, y)" and "flow_ok (x, y)" and "credit_ok (x, y)" and "n_sent x = n_seen y @ f # rest"
    and "wellformed (MaxFramePayload (cfg (n_ses y))) f"
  shows "credit_ok (x, deliver_frame now f y)"
proof -
  from assms(1) have ok: "node_ok x" "node_ok y" "seen_ok (n_sent x) y" "seen_ok (n_sent y) x" by (simp_all add: peers_ok_def)
  obtain c s where rl: "readLoop_frame now f (n_ses y) = (c, s)" by force
  define y1 where "y1 = y\<lparr>n_seen := n_seen y @ [f], n_reading := c\<rparr>"
  have y': "deliver_frame now f y = advance s y1"
    by (simp add: deliver_frame_def rl y1_def advance_def)
  have y1: "n_ses y1 = n_ses y" "node_ok y1" "prefix (n_seen x) (n_sent y1)"
    using ok(2,4) by (simp_all add: y1_def node_ok_def seen_ok_def)
  have pre: "prefix (n_seen x) (n_sent y)" using ok(4) by (simp add: seen_ok_def)
  have alive: "alive s \<Longrightarrow> alive (n_ses y)" using alive_readLoop_frame [of now f "n_ses y"] by (simp add: rl)
  have inv: "sess_inv s"
    using session_step_inv [OF session_step.inbound_frame [OF assms(5), of now] node_okD(1) [OF ok(2)]] by (simp add: rl)
  have f1: "credit_ok (y1, x)" if "\<not> is_data f" "\<not> is_win f"
    unfolding y1_def by (rule seen_kept [OF ok(1,2) assms(3,4) that])
  have quiet: "credit_ok (x, advance s y1)" if "quiet (n_ses y) s" "\<not> is_data f" "\<not> is_win f"
    using quiet_kept [of y1 s x] that f1 y1 ok(1) alive credit_ok_swap by simp
  have "f \<in> set (n_sent x)" by (simp add: assms(4))
  with node_okD(3) [OF ok(1)] consider (ctl) "control f" | (win) "is_win f" | (data) "is_data f" | (syn) "is_syn f"
    by (auto simp: sent_ok_def neutral_def)
  then show ?thesis
  proof cases
    case ctl
    have "length (Payload f) < 2 ^ 32" using assms(5) sendable_length unfolding wellformed_def by blast
    with control_effect [OF ctl, of "n_ses y" now] show ?thesis
      unfolding y' using neutralD [of f] control_no_win [OF ctl] ctl by (intro quiet) (simp_all add: rl neutral_def)
  next
    case win
    with neutralD [of f] show ?thesis by (intro win_kept [OF ok(1,2) assms(2-4)]) (simp_all add: neutral_def)
  next
    case data
    moreover from data have "\<not> is_win f" using neutralD [of f] by (auto simp: neutral_def)
    ultimately show ?thesis using inv by (intro data_kept [OF ok(1,2) assms(3,4) pre]) (simp_all add: rl)
  next
    case syn
    then have kind: "\<not> is_data f" "\<not> is_win f" using neutralD [of f] by (auto simp: is_data_def is_syn_def neutral_def)
    from syn show ?thesis unfolding y'
    proof (cases rule: syn_effect [of f "n_ses y" now])
      case refused
      then show "credit_ok (x, advance s y1)" using quiet kind by (simp add: rl)
    next
      case (added t s1)
      have alive1: "alive s1 = alive (n_ses y)" using added(7,8) by (simp add: alive_def)
      have none: "data_of (StreamID f) (n_seen y1) = []"
        using inbound_syn(3) [OF assms(1,4) syn] by (simp add: y1_def)
      have mid: "credit_ok (advance s1 y1, x)"
        by (rule add_kept [OF y1(2) ok(1) f1 [OF kind] y1(3), of "StreamID f" t s1 "[]"])
          (use added alive1 none in \<open>simp_all add: y1(1)\<close>)
      have "advance s (advance s1 y1) = advance s y1"
        using added(4) by (simp add: advance_def emits_def new_frames_def y1_def)
      moreover have "node_ok (advance s1 y1)"
        using add_node [OF y1(2), of "StreamID f" t s1 "[]"] added inbound_syn [OF assms(1,4) syn]
          node_okD(1) [OF ok(2)] by (simp add: y1(1))
      moreover have "prefix (n_seen x) (n_sent (advance s1 y1))" using y1(3) by (simp add: advance_def)
      ultimately show "credit_ok (x, advance s y1)"
        using quiet_kept [of "advance s1 y1" s x] added(5) rl mid ok(1) alive alive1 credit_ok_swap by simp
    qed
  qed
qed

section \<open>Every reachable state\<close>

lemma node_step_credit:
  assumes "node_step x x'" and "peers_ok (x, y)" and "flow_ok (x, y)" and "credit_ok (x, y)"
    and "length (heap (n_ses x)) < 2 ^ 31"
  shows "credit_ok (x', y)"
proof -
  from assms(2) have ok: "node_ok x" "node_ok y" "seen_ok (n_sent x) y" "seen_ok (n_sent y) x"
    and par: "IsInitiator (cfg (n_ses x)) \<noteq> IsInitiator (cfg (n_ses y))" by (simp_all add: peers_ok_def)
  have pre: "prefix (n_seen y) (n_sent x)" using ok(3) by (simp add: seen_ok_def)
  note x = node_okD [OF ok(1)]
  from assms(1) show ?thesis
  proof cases
    case (do_op s)
    note alive = alive_op [OF do_op(2)]
    have q: "credit_ok (advance s x, y)" if "quiet (n_ses x) s" by (rule quiet_kept [OF that alive ok(1,2) assms(4) pre])
    from do_op(2) show ?thesis
    proof cases
      case (op_open t)
      from op_open(2) show ?thesis
      proof (cases rule: Open_effect [of t "n_ses x"])
        case shut
        then show ?thesis using q op_open(1) do_op(1) by simp
      next
        case (added fs)
        have syn: "\<forall>f\<in>set fs. is_syn f \<and> \<not> is_data f \<and> \<not> is_win f" using added(4) by auto
        note fresh = nextID_fresh [OF x(1,2) assms(5)]
        from add_kept [OF ok(1,2) assms(4) pre added(1,3) syn own_id_unseen [OF ok par fresh(2,1)] alive [unfolded op_open(1)]]
        show ?thesis by (simp add: do_op(1) op_open(1))
      qed
    next
      case op_lost
      have "quiet (n_ses x) s" unfolding op_lost by (rule quiet_silent) (simp_all add: calm_def)
      then show ?thesis using q do_op(1) by simp
    qed (use q do_op(1) in \<open>auto simp: quiet_Accept quiet_StreamClose PingPayload_def quiet_writeFrame
        emittable_mk_frame quiet_tick quiet_close readLoop_error_def Close_def\<close>)
  next
    case (do_write a tot p r s)
    from write_kept [OF ok(1,2) assms(3,4) pre do_write(2-5)] show ?thesis by (simp add: do_write(1))
  next
    case (do_read a k r s)
    from read_kept [OF ok(1,2) assms(4) pre do_read(2,3) do_read(1)] show ?thesis .
  qed
qed

lemma fresh_credit:
  assumes "fresh_peers p"
  shows "credit_ok p"
proof -
  have none: "streams (n_ses n) i = None" if "fresh_node n" for n i
  proof -
    have "fresh_session (n_ses n)" using that by (simp add: fresh_node_def)
    then have "heap (n_ses n) = []" using fresh_session_fields by blast
    moreover have "node_ok n" using fresh_node_ok [OF that] by blast
    ultimately show ?thesis using table_sid [of n i] by (cases "streams (n_ses n) i") auto
  qed
  have "kept x y" if "fresh_node x" for x y unfolding kept_def using none [OF that] by (metis option.distinct(1))
  with assms show ?thesis unfolding fresh_peers_def credit_ok_def by blast
qed

lemma peers_step_credit:
  assumes "peers_step p q" and "peers_ok p" and "flow_ok p" and "credit_ok p" and "few_streams p"
  shows "credit_ok q"
  using assms
proof (induction rule: peers_step.induct)
  case (left x x' y)
  then show ?case by (auto simp: few_streams_def intro: node_step_credit)
next
  case (right y y' x)
  then have "credit_ok (y', x)"
    by (intro node_step_credit [of y y' x])
      (auto simp: few_streams_def dest: peers_ok_swap [THEN iffD1] flow_ok_swap [THEN iffD1] credit_ok_swap [THEN iffD1])
  then show ?case using credit_ok_swap by blast
next
  case (to_right x y f rest now)
  then show ?case by (intro deliver_kept)
next
  case (to_left y x f rest now)
  then have "credit_ok (y, deliver_frame now f x)"
    by (intro deliver_kept)
      (auto dest: peers_ok_swap [THEN iffD1] flow_ok_swap [THEN iffD1] credit_ok_swap [THEN iffD1])
  then show ?case using credit_ok_swap by blast
qed

interpretation creditm: machine fresh_peers peers_step "\<lambda>p. few_streams p \<longrightarrow> peers_ok p \<and> flow_ok p \<and> credit_ok p"
proof unfold_locales
  fix p q
  show "few_streams p \<longrightarrow> peers_ok p \<and> flow_ok p \<and> credit_ok p" if "fresh_peers p"
    using windowm.inv_init [OF that] fresh_credit [OF that] by blast
  show "few_streams q \<longrightarrow> peers_ok q \<and> flow_ok q \<and> credit_ok q"
    if "few_streams p \<longrightarrow> peers_ok p \<and> flow_ok p \<and> credit_ok p" "peers_step p q"
    using windowm.inv_step [of p q] peers_step_credit [OF that(2)] few_streams_back [OF that(2)] that by blast
qed

section \<open>What two ends make of each other\<close>

lemma next_frame_accepted:
  assumes "node_ok x" and "node_ok y" and "window_ok x y" and "n_sent x = n_seen y @ f # rest"
    and "MaxFramePayload (cfg (n_ses x)) \<le> MaxFramePayload (cfg (n_ses y))"
    and "InitialWindow (cfg (n_ses x)) \<le> InitialWindow (cfg (n_ses y))"
    and "Flags f \<noteq> FlagGOAWAY" and "Flags f = FlagPING \<Longrightarrow> \<not> closed (n_ses y) \<and> wok (conn (n_ses y))"
  shows "fst (readLoop_frame now f (n_ses y))"
proof -
  note ok = assms(1,2) and w = assms(3)
  have f: "f \<in> set (n_sent x)" by (simp add: assms(4))
  have wf: "wellformed (MaxFramePayload (cfg (n_ses y))) f" by (rule sent_wellformed [OF ok(1) f assms(5)])
  from node_okD(3) [OF ok(1)] f consider (ctl) "control f" | (win) "is_win f" | (data) "is_data f" | (syn) "is_syn f"
    by (auto simp: sent_ok_def neutral_def)
  then show ?thesis
  proof cases
    case ctl
    have len: "length (Payload f) \<le> unat (MaxFramePayload (cfg (n_ses y)))"
      using wf by (simp add: wellformed_def sendable_def)
    then show ?thesis using control_continues [OF ctl assms(7) len assms(8)] by simp
  next
    case win
    then show ?thesis by (simp add: win_effect)
  next
    case data
    then have "StreamID f \<in> set (ids (n_ses x))" using node_okD(3) [OF ok(1)] f by (simp add: sent_ok_def)
    then obtain a where a: "a < length (heap (n_ses x))" "sid (heap (n_ses x) ! a) = StreamID f"
      by (auto simp: ids_def in_set_conv_nth)
    have out: "length (Payload f) + held (StreamID f) (n_ses y) \<le> outstanding (StreamID f) x y"
      using data by (simp add: outstanding_def unseen_def assms(4))
    have "int (outstanding (StreamID f) x y) \<le> uint (InitialWindow (cfg (n_ses x)))"
      using w a window_okD [OF w a(1)] by (auto simp: window_ok_def)
    moreover have "uint (InitialWindow (cfg (n_ses x))) \<le> uint (InitialWindow (cfg (n_ses y)))"
      using assms(6) by (simp add: word_le_def)
    ultimately have fits: "length (Payload f) + held (StreamID f) (n_ses y) \<le> unat (InitialWindow (cfg (n_ses y)))"
      using out by (simp add: uint_nat del: of_nat_unat)
    show ?thesis
    proof (cases "streams (n_ses y) (StreamID f)")
      case None
      then show ?thesis using data by (simp add: readLoop_frame_def handleFrame_def is_data_def)
    next
      case (Some b)
      from table_okD [OF node_okD(1) [OF ok(2)] Some] held_at [OF node_okD(4) [OF ok(2)], of b] fits
      have "length (buf (heap (n_ses y) ! b)) + length (Payload f) \<le> unat (InitialWindow (cfg (n_ses y)))"
        by simp
      from pushData_accepts [OF this] Some data show ?thesis
        by (simp add: readLoop_frame_def handleFrame_def is_data_def)
    qed
  next
    case syn
    then show ?thesis
      by (auto simp: readLoop_frame_def handleFrame_def is_syn_def handleSYN_def Let_def split: sum.split)
  qed
qed

text \<open>C2: Two honest ends never report an error about each other, and no window is lost. In every
  reachable state of two connected sessions: where the writer's frame limit and initial window are
  at most the reader's, the next frame to arrive is one the reader can decode, and its receive loop
  handles it and goes on; it ends only on the GOAWAY of a peer that closed, or on a PING when its own
  session cannot answer. For every stream the send window is never negative, and with what is under
  way and held at the peer and the credit on its way back it is at most the initial window; it is
  exactly the initial window, so that no byte of it is ever lost, while both sessions can write, the
  peer's limit lets a WIN through, the sender has the stream in its table, and the receiver has it
  in its own or has not been sent any of its DATA yet.\<close>

theorem honest_peers_accept:
  assumes "fresh_peers p" and "peers_step\<^sup>*\<^sup>* p (x, y)" and "few_streams (x, y)"
  shows "(\<forall>f rest now. n_sent x = n_seen y @ f # rest \<and> MaxFramePayload (cfg (n_ses x)) \<le> MaxFramePayload (cfg (n_ses y))
        \<and> InitialWindow (cfg (n_ses x)) \<le> InitialWindow (cfg (n_ses y)) \<longrightarrow>
      wellformed (MaxFramePayload (cfg (n_ses y))) f \<and>
      (fst (readLoop_frame now f (n_ses y)) \<or> Flags f = FlagGOAWAY \<or>
        Flags f = FlagPING \<and> (closed (n_ses y) \<or> \<not> wok (conn (n_ses y)))))
    \<and> (\<forall>a<length (heap (n_ses x)). 0 \<le> sendWin (heap (n_ses x) ! a) \<and>
        sendWin (heap (n_ses x) ! a) + int (outstanding (sid (heap (n_ses x) ! a)) x y)
          \<le> uint (InitialWindow (cfg (n_ses x))))
    \<and> (\<not> closed (n_ses x) \<and> wok (conn (n_ses x)) \<and> \<not> closed (n_ses y) \<and> wok (conn (n_ses y))
        \<and> 4 \<le> unat (MaxFramePayload (cfg (n_ses y))) \<longrightarrow>
      (\<forall>i a. streams (n_ses x) i = Some a \<and> (streams (n_ses y) i \<noteq> None \<or> data_of i (n_seen y) = []) \<longrightarrow>
        sendWin (heap (n_ses x) ! a) + int (outstanding i x y) = uint (InitialWindow (cfg (n_ses x)))))"
proof -
  from creditm.invariant [OF assms(1,2)] assms(3)
  have ok: "node_ok x" "node_ok y" and w: "window_ok x y" and k: "kept x y"
    by (auto simp: peers_ok_def flow_ok_def credit_ok_def)
  have accept: "wellformed (MaxFramePayload (cfg (n_ses y))) f \<and>
      (fst (readLoop_frame now f (n_ses y)) \<or> Flags f = FlagGOAWAY \<or>
        Flags f = FlagPING \<and> (closed (n_ses y) \<or> \<not> wok (conn (n_ses y))))"
    if "n_sent x = n_seen y @ f # rest" "MaxFramePayload (cfg (n_ses x)) \<le> MaxFramePayload (cfg (n_ses y))"
      "InitialWindow (cfg (n_ses x)) \<le> InitialWindow (cfg (n_ses y))" for f rest now
    using sent_wellformed [OF ok(1) _ that(2), of f] next_frame_accepted [OF ok w that, of now] that(1) by auto
  have exact: "sendWin (heap (n_ses x) ! a) + int (outstanding i x y) = uint (InitialWindow (cfg (n_ses x)))"
    if "working x y" "streams (n_ses x) i = Some a" "takes i y" for i a
    using that k w table_sid [OF ok(1) that(2)] by (fastforce simp: kept_def full_def window_ok_def intro: antisym)
  show ?thesis
    using accept exact w by (auto simp: window_ok_def working_def alive_def takes_def)
qed

theorem honest_peers_accept_witness:
  "fst (readLoop_frame 6 demo_data1 (n_ses demo_y1)) \<and>
   sendWin (heap (n_ses demo_x) ! 0) + int (outstanding 1 demo_x demo_y1) = 8 \<and>
   sendWin (heap (n_ses demo_x) ! 0) = 5"
proof -
  have run: "peers_step\<^sup>*\<^sup>* (demo_opener, demo_responder) (demo_x, demo_y1)"
    using demo_x_run demo_y1_step by (meson rtranclp.rtrancl_into_rtrancl)
  have len: "few_streams (demo_x, demo_y1)"
    by (simp add: few_streams_def demo_x_def demo_y1_def opener_session2_def resp_session2_def)
  note C2 = honest_peers_accept [OF demo_peers_fresh run len]
  have node: "n_sent demo_x = n_seen demo_y1 @ demo_data1 # []"
    "MaxFramePayload (cfg (n_ses demo_x)) = 64" "InitialWindow (cfg (n_ses demo_x)) = 8"
    "MaxFramePayload (cfg (n_ses demo_y1)) = 64" "InitialWindow (cfg (n_ses demo_y1)) = 8"
    "\<not> closed (n_ses demo_x)" "wok (conn (n_ses demo_x))" "\<not> closed (n_ses demo_y1)" "wok (conn (n_ses demo_y1))"
    "streams (n_ses demo_x) 1 = Some 0" "streams (n_ses demo_y1) 1 = Some 0" "sendWin (heap (n_ses demo_x) ! 0) = 5"
    by (simp_all add: demo_x_def demo_y1_def opener_session2_def resp_session2_def resp_session_def demo_session_eq
        demo_fresh_eq demo_config_def newStream_def)
  have flags: "Flags demo_data1 \<noteq> FlagGOAWAY" "Flags demo_data1 \<noteq> FlagPING"
    by (simp_all add: demo_data1_def flag_defs)
  have "fst (readLoop_frame 6 demo_data1 (n_ses demo_y1))"
    using C2 [THEN conjunct1, rule_format, of demo_data1 "[]" 6] node(1-5) flags by simp
  moreover have "sendWin (heap (n_ses demo_x) ! 0) + int (outstanding 1 demo_x demo_y1) = 8"
    using C2 [THEN conjunct2, THEN conjunct2, rule_format, of 1 0] node by simp
  ultimately show ?thesis using node(12) by simp
qed

end
