(* ===== verification/Record_Layer.thy ===== *)
theory Record_Layer
  imports Frame
begin

unbundle bit_operations_syntax

text \<open>
  The AEAD record layer, desktop/internal/tunnel/secure.go. A \<open>CipherState\<close> of the noise library
  is a parameter: a state of type \<open>'c\<close> (the pointer, nil included) with the two operations the
  code calls, \<open>Encrypt(nil, nil, p)\<close> and \<open>Decrypt(nil, nil, c)\<close>, which return a text or an error
  and the new state. What the code relies on is \<open>aead_laws\<close>: a ciphertext is 16 bytes longer than
  its plaintext, and a paired state decrypts what was encrypted, records in order. \<open>SecureRead\<close> is
  a reader over the transport's reader and interprets \<open>byte_reader\<close>, so everything proved for a
  reader, the frame decoder in particular, holds through the record layer.
\<close>

type_synonym 'c encrypt = "'c \<Rightarrow> bytes \<Rightarrow> (io_err + bytes) \<times> 'c"
type_synonym 'c decrypt = "'c \<Rightarrow> bytes \<Rightarrow> (io_err + bytes) \<times> 'c"

definition recordHeaderSize :: nat where "recordHeaderSize = 3"
definition recordOverhead :: nat where "recordOverhead = 16"

lemmas record_consts = recordHeaderSize_def recordOverhead_def

section \<open>Write\<close>

text \<open>The three header bytes, and the size the reader takes from them.\<close>

definition record_header :: "bytes \<Rightarrow> bytes" where
  "record_header ct =
     [of_nat (length ct div 2 ^ 16), of_nat (length ct div 2 ^ 8), of_nat (length ct)]"

definition record_size :: "bytes \<Rightarrow> nat" where
  "record_size hdr = unat (hdr ! 0) * 2 ^ 16 + unat (hdr ! 1) * 2 ^ 8 + unat (hdr ! 2)"

text \<open>
  \<open>Write(b)\<close> with \<open>tot\<close> bytes sent: the chunk is cut to \<open>maxPayload\<close> when \<open>uint32(n)\<close> exceeds it.
  The result is the count with the error, the cipher state and the transport; \<open>None\<close> is "does
  not return" (a \<open>maxPayload\<close> of zero).
\<close>

partial_function (option) SecureWrite_loop ::
  "'c encrypt \<Rightarrow> u32 \<Rightarrow> 'w writer \<Rightarrow> bytes \<Rightarrow> nat \<Rightarrow> 'c \<Rightarrow> 'w
    \<Rightarrow> (nat \<times> io_err option \<times> 'c \<times> 'w) option" where
  "SecureWrite_loop enc maxPayload wr b tot cs w =
     (if tot < length b
      then
        (let n0 = length b - tot;
             n = (if (of_nat n0 :: u32) > maxPayload then unat maxPayload else n0)
         in case enc cs (take n (drop tot b)) of
              (Inl err, cs') \<Rightarrow> Some (tot, Some err, cs', w)
            | (Inr ct, cs') \<Rightarrow>
                (case wr (record_header ct) w of
                   (Some err, w') \<Rightarrow> Some (tot, Some err, cs', w')
                 | (None, w') \<Rightarrow>
                     (case wr ct w' of
                        (Some err, w'') \<Rightarrow> Some (tot, Some err, cs', w'')
                      | (None, w'') \<Rightarrow>
                          SecureWrite_loop enc maxPayload wr b (tot + n) cs' w'')))
      else Some (tot, None, cs, w))"

declare SecureWrite_loop.simps [code]

definition SecureWrite ::
  "'c encrypt \<Rightarrow> u32 \<Rightarrow> 'w writer \<Rightarrow> bytes \<Rightarrow> 'c \<Rightarrow> 'w
    \<Rightarrow> (nat \<times> io_err option \<times> 'c \<times> 'w) option" where
  "SecureWrite enc maxPayload wr b cs w = SecureWrite_loop enc maxPayload wr b 0 cs w"

section \<open>Read\<close>

record ('c, 's) secure_conn =
  transport :: 's
  readCS :: 'c
  rbuf :: bytes

text \<open>
  \<open>Read(p)\<close> for \<open>n = len(p)\<close>. A full read of the transport that does not return makes this one
  not return either; over a transport that keeps the contract of a reader this cannot happen, and
  the definition gives such a read an empty result.
\<close>

definition SecureRead_opt ::
  "'c decrypt \<Rightarrow> u32 \<Rightarrow> 's reader \<Rightarrow> nat \<Rightarrow> ('c, 's) secure_conn
    \<Rightarrow> (bytes \<times> io_err option \<times> ('c, 's) secure_conn) option" where
  "SecureRead_opt dec maxPayload rd n c =
     (if length (rbuf c) > 0
      then Some (take n (rbuf c), None, c\<lparr>rbuf := drop n (rbuf c)\<rparr>)
      else if n = 0 then Some ([], None, c)
      else
        (case io_ReadFull rd recordHeaderSize (transport c) of
           None \<Rightarrow> None
         | Some (Inl err, s1) \<Rightarrow> Some ([], Some err, c\<lparr>transport := s1\<rparr>)
         | Some (Inr hdr, s1) \<Rightarrow>
             (let size = record_size hdr
              in if size < recordOverhead \<or> size > unat maxPayload + recordOverhead
                 then Some ([], Some (ErrRecordTooLarge size), c\<lparr>transport := s1\<rparr>)
                 else
                   (case io_ReadFull rd size s1 of
                      None \<Rightarrow> None
                    | Some (Inl err, s2) \<Rightarrow> Some ([], Some err, c\<lparr>transport := s2\<rparr>)
                    | Some (Inr ct, s2) \<Rightarrow>
                        (case dec (readCS c) ct of
                           (Inl _, cs') \<Rightarrow>
                             Some ([], Some ErrRecordAuth, c\<lparr>transport := s2, readCS := cs'\<rparr>)
                         | (Inr pt, cs') \<Rightarrow>
                             Some (take n pt, None,
                               c\<lparr>transport := s2, readCS := cs', rbuf := drop n pt\<rparr>))))))"

definition SecureRead :: "'c decrypt \<Rightarrow> u32 \<Rightarrow> 's reader \<Rightarrow> ('c, 's) secure_conn reader" where
  "SecureRead dec maxPayload rd n c =
     (case SecureRead_opt dec maxPayload rd n c of
        Some r \<Rightarrow> r
      | None \<Rightarrow> ([], None, c))"

section \<open>Sealed streams\<close>

text \<open>What a byte stream decrypts to, and the streams that are nothing but intact records.\<close>

function unseal :: "'c decrypt \<Rightarrow> 'c \<Rightarrow> bytes \<Rightarrow> bytes" where
  "unseal dec cs b =
     (if recordHeaderSize \<le> length b \<and> record_size b + recordHeaderSize \<le> length b
      then (case dec cs (take (record_size b) (drop recordHeaderSize b)) of
              (Inl _, _) \<Rightarrow> []
            | (Inr pt, cs') \<Rightarrow>
                pt @ unseal dec cs' (drop (record_size b) (drop recordHeaderSize b)))
      else [])"
  by pat_completeness auto
termination by (relation "measure (\<lambda>(_, _, b). length b)")
    (simp, simp only: in_measure split_conv length_drop record_consts, linarith)

declare unseal.simps [simp del]

function sealed :: "'c decrypt \<Rightarrow> u32 \<Rightarrow> 'c \<Rightarrow> bytes \<Rightarrow> bool" where
  "sealed dec maxPayload cs b =
     (if recordHeaderSize \<le> length b \<and> record_size b + recordHeaderSize \<le> length b
      then recordOverhead \<le> record_size b \<and> record_size b \<le> unat maxPayload + recordOverhead \<and>
           (case dec cs (take (record_size b) (drop recordHeaderSize b)) of
              (Inl _, _) \<Rightarrow> False
            | (Inr pt, cs') \<Rightarrow>
                sealed dec maxPayload cs' (drop (record_size b) (drop recordHeaderSize b)))
      else b = [])"
  by pat_completeness auto
termination by (relation "measure (\<lambda>(_, _, _, b). length b)")
    (simp, simp only: in_measure split_conv length_drop record_consts, linarith)

declare sealed.simps [simp del]

lemma unseal_Nil [simp]: "unseal dec cs [] = []"
  by (simp add: unseal.simps record_consts)

lemma sealed_Nil [simp]: "sealed dec m cs []"
  by (simp add: sealed.simps record_consts)

lemma record_header_not_Nil [simp]: "record_header ct \<noteq> []"
  by (simp add: record_header_def)

lemma record_size_append: "length h = 3 \<Longrightarrow> record_size (h @ t) = record_size h"
  by (simp add: record_size_def nth_append)

lemma record_size_take: "3 \<le> length b \<Longrightarrow> record_size (take 3 b) = record_size b"
  by (simp add: record_size_def)

lemma length_record_header [simp]: "length (record_header ct) = 3"
  by (simp add: record_header_def)

lemma record_size_header: "record_size (record_header ct) = length ct mod 2 ^ 24"
proof -
  have split: "k mod 16777216 = (k div 65536 mod 256) * 65536 + (k div 256 mod 256) * 256 + k mod 256"
    for k :: nat
  proof -
    have "k mod (256 * 65536) = 256 * (k div 256 mod 65536) + k mod 256"
      by (metis mod_mult2_eq mult.commute)
    moreover have "k div 256 mod (256 * 256) = 256 * (k div 256 div 256 mod 256) + k div 256 mod 256"
      by (rule mod_mult2_eq)
    ultimately show ?thesis by (simp add: div_mult2_eq [symmetric])
  qed
  show ?thesis
    by (simp add: record_size_def record_header_def unat_of_nat split [of "length ct"])
qed

text \<open>One record in front of a stream.\<close>

lemma sealed_record:
  assumes "length ct < 2 ^ 24" and "dec cs ct = (Inr pt, cs')"
  shows "unseal dec cs (record_header ct @ ct @ b) = pt @ unseal dec cs' b"
    and "16 \<le> length ct \<Longrightarrow> length ct \<le> unat m + 16 \<Longrightarrow>
      sealed dec m cs (record_header ct @ ct @ b) = sealed dec m cs' b"
  using assms
  by (simp_all add: unseal.simps [of dec cs "_ @ _"] sealed.simps [of dec m cs "_ @ _"]
      record_size_append record_size_header record_consts)

section \<open>The record layer is a reader\<close>

text \<open>
  Over a transport of arbitrary chunks: as long as the rest of the stream is intact records, the
  reader delivers their plaintexts and then the transport's error.
\<close>

definition secure_content :: "'c decrypt \<Rightarrow> ('c, source) secure_conn \<Rightarrow> bytes" where
  "secure_content dec c = rbuf c @ unseal dec (readCS c) (concat (transport c))"

definition secure_good :: "'c decrypt \<Rightarrow> u32 \<Rightarrow> ('c, source) secure_conn \<Rightarrow> bool" where
  "secure_good dec m c = sealed dec m (readCS c) (concat (transport c))"

definition secure_rank :: "('c, source) secure_conn \<Rightarrow> nat" where
  "secure_rank c = length (concat (transport c))"

text \<open>The four ways a read can go on a good state.\<close>

lemma SecureRead_cases:
  assumes "secure_good dec m c" and "0 < n"
  obtains (buffered) "rbuf c \<noteq> []"
      "SecureRead dec m (src_read err) n c = (take n (rbuf c), None, c\<lparr>rbuf := drop n (rbuf c)\<rparr>)"
  | (ended) s where "rbuf c = []" "concat (transport c) = []" "concat s = []"
      "SecureRead dec m (src_read err) n c = ([], Some err, c\<lparr>transport := s\<rparr>)"
  | (arrived) pt cs s where "rbuf c = []"
      "SecureRead dec m (src_read err) n c
         = (take n pt, None, c\<lparr>transport := s, readCS := cs, rbuf := drop n pt\<rparr>)"
      "sealed dec m cs (concat s)" "unseal dec (readCS c) (concat (transport c)) = pt @ unseal dec cs (concat s)"
      "length (concat s) < length (concat (transport c))"
proof (cases "rbuf c = []")
  case False
  then show ?thesis using buffered by (simp add: SecureRead_def SecureRead_opt_def)
next
  case empty: True
  define b where "b = concat (transport c)"
  show ?thesis
  proof (cases "b = []")
    case True
    with src.io_ReadFull_short [of "transport c" recordHeaderSize err] obtain s where
      "io_ReadFull (src_read err) recordHeaderSize (transport c) = Some (Inl err, s)" "concat s = []"
      by (auto simp: b_def record_consts simp del: concat_eq_Nil_conv)
    then show ?thesis using ended [OF empty] True assms(2) empty
      by (simp add: SecureRead_def SecureRead_opt_def b_def)
  next
    case False
    define size where "size = record_size b"
    define ct where "ct = take size (drop 3 b)"
    have "sealed dec m (readCS c) b" using assms(1) by (simp add: secure_good_def b_def)
    note sb = this [unfolded sealed.simps [of dec m "readCS c" b] record_consts,
        folded size_def, folded ct_def]
    have facts: "3 \<le> length b" "16 \<le> size" "size \<le> unat m + 16" "size + 3 \<le> length b"
      and dec: "case dec (readCS c) ct of (Inl _, _) \<Rightarrow> False
        | (Inr pt, cs) \<Rightarrow> sealed dec m cs (drop size (drop 3 b))"
      using sb False by (simp_all split: if_splits)
    from src.io_ReadFull_full [of recordHeaderSize "transport c" err] facts(1) obtain s1 where
      s1: "io_ReadFull (src_read err) recordHeaderSize (transport c) = Some (Inr (take 3 b), s1)"
        "concat s1 = drop 3 b"
      by (auto simp: b_def record_consts)
    have "size \<le> length (concat s1)" using facts(4) unfolding s1(2) length_drop by linarith
    from src.io_ReadFull_full [OF TrueI this, of err] s1(2) obtain s2 where
      s2: "io_ReadFull (src_read err) size s1 = Some (Inr ct, s2)" "concat s2 = drop size (drop 3 b)"
      by (auto simp: ct_def)
    from dec obtain pt cs where pt: "dec (readCS c) ct = (Inr pt, cs)"
        "sealed dec m cs (drop size (drop 3 b))"
      by (auto split: prod.splits sum.splits)
    have "SecureRead dec m (src_read err) n c
        = (take n pt, None, c\<lparr>transport := s2, readCS := cs, rbuf := drop n pt\<rparr>)"
      using empty assms(2) s1 s2(1) pt(1) facts
      by (simp add: SecureRead_def SecureRead_opt_def record_size_take size_def [symmetric] record_consts
          Let_def)
    moreover have "unseal dec (readCS c) b = pt @ unseal dec cs (concat s2)"
      using facts pt(1) s2(2)
      by (simp add: unseal.simps [of dec "readCS c" b] record_consts size_def [symmetric] ct_def [symmetric])
    moreover have "length (concat s2) < length b"
      using facts unfolding s2(2) length_drop by linarith
    ultimately show ?thesis using arrived [OF empty] pt(2) s2(2) by (simp add: b_def)
  qed
qed

interpretation sec: byte_reader "SecureRead dec m (src_read err)" "secure_content dec" secure_rank
    "secure_good dec m" err for dec m err
proof unfold_locales
  fix c c' :: "('a, source) secure_conn" and n xs e
  assume good: "secure_good dec m c" and "0 < n"
    and rd: "SecureRead dec m (src_read err) n c = (xs, e, c')"
  note cases = SecureRead_cases [OF good \<open>0 < n\<close>, of err]
  show "secure_good dec m c'"
    by (rule cases) (use rd good in \<open>auto simp: secure_good_def simp del: concat_eq_Nil_conv\<close>)
  show "secure_content dec c = xs @ secure_content dec c'"
    by (rule cases) (use rd in \<open>auto simp: secure_content_def simp del: concat_eq_Nil_conv\<close>)
  show "length xs \<le> n"
    by (rule cases) (use rd in auto)
next
  fix c c' :: "('a, source) secure_conn" and n
  assume good: "secure_good dec m c" and "0 < n"
    and rd: "SecureRead dec m (src_read err) n c = ([], None, c')"
  show "secure_rank c' < secure_rank c"
    by (rule SecureRead_cases [OF good \<open>0 < n\<close>, of err])
      (use rd \<open>0 < n\<close> in \<open>auto simp: secure_rank_def\<close>)
next
  fix c c' :: "('a, source) secure_conn" and n xs e
  assume good: "secure_good dec m c" and "0 < n"
    and rd: "SecureRead dec m (src_read err) n c = (xs, Some e, c')"
  show "e = err \<and> secure_content dec c = []"
    by (rule SecureRead_cases [OF good \<open>0 < n\<close>, of err])
      (use rd in \<open>auto simp: secure_content_def simp del: concat_eq_Nil_conv\<close>)
qed

section \<open>Write seals what Read opens\<close>

text \<open>
  What the code relies on of the noise library's cipher states: encrypting never fails before the
  nonce is exhausted, adds a 16-byte tag, and keeps the peer's state in step. \<open>paired\<close> relates
  a writing state to the reading state of the peer.
\<close>

definition aead_laws :: "'c encrypt \<Rightarrow> 'd decrypt \<Rightarrow> ('c \<Rightarrow> 'd \<Rightarrow> bool) \<Rightarrow> bool" where
  "aead_laws enc dec paired \<longleftrightarrow>
     (\<forall>w r pt. paired w r \<longrightarrow>
        (\<exists>ct w' r'. enc w pt = (Inr ct, w') \<and> length ct = length pt + recordOverhead
           \<and> dec r ct = (Inr pt, r') \<and> paired w' r'))"

lemma aead_lawsD:
  assumes "aead_laws enc dec paired" and "paired w r"
  obtains ct w' r' where "enc w pt = (Inr ct, w')" "length ct = length pt + 16"
    "dec r ct = (Inr pt, r')" "paired w' r'"
proof -
  from assms have "\<exists>ct w' r'. enc w pt = (Inr ct, w') \<and> length ct = length pt + recordOverhead
      \<and> dec r ct = (Inr pt, r') \<and> paired w' r'"
    unfolding aead_laws_def by blast
  then show thesis using that by (auto simp: record_consts)
qed

text \<open>
  On a working connection the loop writes records that open, at the paired state, to exactly the
  bytes written, whatever comes after them.
\<close>

lemma SecureWrite_loop_seals:
  assumes "aead_laws enc dec paired" and "paired cs r" and "wok w"
    and "0 < m" "unat m + 16 < 2 ^ 24" and "length b < 2 ^ 32" and "tot \<le> length b"
  shows "\<exists>bs cs' r'. SecureWrite_loop enc m conn_write b tot cs w
      = Some (length b, None, cs', w\<lparr>wbytes := wbytes w @ bs\<rparr>) \<and> paired cs' r'
    \<and> (\<forall>rest. unseal dec r (bs @ rest) = drop tot b @ unseal dec r' rest)
    \<and> (\<forall>rest. sealed dec m r (bs @ rest) = sealed dec m r' rest)"
  using assms(2,3,7)
proof (induction "length b - tot" arbitrary: tot cs r w rule: less_induct)
  case less
  show ?case
  proof (cases "tot < length b")
    case False
    with less.prems show ?thesis
      by (auto simp: SecureWrite_loop.simps intro!: exI [of _ "[]"] exI [of _ cs] exI [of _ r])
  next
    case True
    define n where "n = (if (of_nat (length b - tot) :: u32) > m then unat m else length b - tot)"
    have "unat (of_nat (length b - tot) :: u32) = length b - tot"
      using assms(6) by (simp add: unat_of_nat)
    then have n: "0 < n" "n \<le> unat m" "tot + n \<le> length b"
      using True assms(4) by (auto simp: n_def word_less_nat_alt)
    define pt where "pt = take n (drop tot b)"
    have pt: "length pt = n" using n by (simp add: pt_def)
    obtain ct cs1 r1 where ct: "enc cs pt = (Inr ct, cs1)" "length ct = length pt + 16"
        "dec r ct = (Inr pt, r1)" "paired cs1 r1"
      using aead_lawsD [OF assms(1) less.prems(1)] by blast
    have small: "length ct < 2 ^ 24" "16 \<le> length ct" "length ct \<le> unat m + 16"
      using ct(2) pt n assms(5) by auto
    define w1 where "w1 = w\<lparr>wbytes := wbytes w @ record_header ct @ ct\<rparr>"
    have step: "SecureWrite_loop enc m conn_write b tot cs w
        = SecureWrite_loop enc m conn_write b (tot + n) cs1 w1"
      using True less.prems(2) ct(1)
      unfolding SecureWrite_loop.simps [of enc m conn_write b tot] Let_def
        n_def [symmetric] pt_def [symmetric]
      by (simp add: w1_def)
    have "length b - (tot + n) < length b - tot" "wok w1"
      using n less.prems(2) by (auto simp: w1_def)
    from less.hyps [OF this(1) ct(4) this(2) n(3)] obtain bs cs' r' where
      ih: "SecureWrite_loop enc m conn_write b (tot + n) cs1 w1
          = Some (length b, None, cs', w1\<lparr>wbytes := wbytes w1 @ bs\<rparr>)" "paired cs' r'"
        "\<forall>rest. unseal dec r1 (bs @ rest) = drop (tot + n) b @ unseal dec r' rest"
        "\<forall>rest. sealed dec m r1 (bs @ rest) = sealed dec m r' rest"
      by blast
    have "drop tot b = pt @ drop (tot + n) b"
      by (metis add.commute append_take_drop_id drop_drop pt_def)
    with ih sealed_record [of ct dec r pt r1, OF small(1) ct(3)] small show ?thesis
      unfolding step
      by (intro exI [of _ "record_header ct @ ct @ bs"] exI [of _ cs'] exI [of _ r'])
        (simp add: w1_def)
  qed
qed

section \<open>The record layer is a writer\<close>

text \<open>\<open>SecureConn\<close> as the writer of the frame codec; the state is the cipher and the transport.\<close>

definition SecureWriter :: "'c encrypt \<Rightarrow> u32 \<Rightarrow> 'w writer \<Rightarrow> ('c \<times> 'w) writer" where
  "SecureWriter enc maxPayload wr b x =
     (case SecureWrite enc maxPayload wr b (fst x) (snd x) of
        Some (_, e, cs, w) \<Rightarrow> (e, cs, w)
      | None \<Rightarrow> (None, x))"

text \<open>
  The bytes on the connection open, from the peer's state \<open>r0\<close> at the start, to \<open>p\<close>, and leave
  the peer's state paired with the writer's.
\<close>

definition secure_carries :: "'c encrypt \<Rightarrow> 'd decrypt \<Rightarrow> ('c \<Rightarrow> 'd \<Rightarrow> bool) \<Rightarrow> u32 \<Rightarrow> 'd
    \<Rightarrow> 'c \<times> wconn \<Rightarrow> bytes \<Rightarrow> bool" where
  "secure_carries enc dec paired m r0 x p \<longleftrightarrow>
     aead_laws enc dec paired \<and> 0 < m \<and> unat m + 16 < 2 ^ 24 \<and> wok (snd x) \<and>
     (\<exists>r. paired (fst x) r
        \<and> (\<forall>rest. unseal dec r0 (wbytes (snd x) @ rest) = p @ unseal dec r rest)
        \<and> (\<forall>rest. sealed dec m r0 (wbytes (snd x) @ rest) = sealed dec m r rest))"

lemma secure_carries_start:
  "aead_laws enc dec paired \<Longrightarrow> 0 < m \<Longrightarrow> unat m + 16 < 2 ^ 24 \<Longrightarrow> paired cs r \<Longrightarrow>
    secure_carries enc dec paired m r (cs, \<lparr>wbytes = [], wok = True\<rparr>) []"
  by (auto simp: secure_carries_def)

lemma SecureWriter_carries:
  assumes "secure_carries enc dec paired m r0 x p" and "length b < 2 ^ 32"
  shows "\<exists>y. SecureWriter enc m conn_write b x = (None, y) \<and>
    SecureWrite enc m conn_write b (fst x) (snd x) = Some (length b, None, fst y, snd y) \<and>
    secure_carries enc dec paired m r0 y (p @ b)"
proof -
  from assms(1) obtain r where
    st: "aead_laws enc dec paired" "paired (fst x) r" "wok (snd x)" "0 < m" "unat m + 16 < 2 ^ 24"
    and u: "\<forall>rest. unseal dec r0 (wbytes (snd x) @ rest) = p @ unseal dec r rest"
    and s: "\<forall>rest. sealed dec m r0 (wbytes (snd x) @ rest) = sealed dec m r rest"
    by (auto simp: secure_carries_def)
  from SecureWrite_loop_seals [OF st assms(2), of 0] obtain bs cs' r' where
    w: "SecureWrite_loop enc m conn_write b 0 (fst x) (snd x)
        = Some (length b, None, cs', (snd x)\<lparr>wbytes := wbytes (snd x) @ bs\<rparr>)" "paired cs' r'"
    and u': "\<forall>rest. unseal dec r (bs @ rest) = b @ unseal dec r' rest"
    and s': "\<forall>rest. sealed dec m r (bs @ rest) = sealed dec m r' rest"
    by auto
  have "secure_carries enc dec paired m r0 (cs', (snd x)\<lparr>wbytes := wbytes (snd x) @ bs\<rparr>) (p @ b)"
    unfolding secure_carries_def
    using st(1,3-5) w(2) u s u' s' by (intro conjI exI [of _ r']) simp_all
  moreover have "SecureWriter enc m conn_write b x
      = (None, cs', (snd x)\<lparr>wbytes := wbytes (snd x) @ bs\<rparr>)"
    "SecureWrite enc m conn_write b (fst x) (snd x)
      = Some (length b, None, cs', (snd x)\<lparr>wbytes := wbytes (snd x) @ bs\<rparr>)"
    using w(1) by (simp_all add: SecureWriter_def SecureWrite_def)
  ultimately show ?thesis by (metis fst_conv snd_conv)
qed

interpretation sw: byte_writer "SecureWriter enc m conn_write" "secure_carries enc dec paired m r0"
  for enc m dec paired r0
proof
  fix x p and b :: bytes
  assume "secure_carries enc dec paired m r0 x p" and "length b < 2 ^ 32"
  from SecureWriter_carries [OF this]
  show "\<exists>y. SecureWriter enc m conn_write b x = (None, y) \<and> secure_carries enc dec paired m r0 y (p @ b)"
    by (elim exE conjE) (intro exI conjI)
qed

text \<open>What was carried is what the peer's reader has in front of it.\<close>

lemma secure_carries_content:
  assumes "secure_carries enc dec paired m r0 x p" and "concat cs = wbytes (snd x)"
  shows "secure_good dec m \<lparr>transport = cs, readCS = r0, rbuf = []\<rparr>"
    "secure_content dec \<lparr>transport = cs, readCS = r0, rbuf = []\<rparr> = p"
proof -
  from assms(1) obtain r where
    "unseal dec r0 (wbytes (snd x) @ []) = p @ unseal dec r []"
    "sealed dec m r0 (wbytes (snd x) @ []) = sealed dec m r []"
    unfolding secure_carries_def by blast
  with assms(2) show "secure_good dec m \<lparr>transport = cs, readCS = r0, rbuf = []\<rparr>"
    "secure_content dec \<lparr>transport = cs, readCS = r0, rbuf = []\<rparr> = p"
    by (simp_all add: secure_good_def secure_content_def)
qed

end
