(* ===== verification/Crypto.thy ===== *)
theory Crypto
  imports Prelude "HOL-Library.Code_Target_Numeral"
begin

unbundle bit_operations_syntax

text \<open>
  The two primitives of Go's standard library that the tunnel calls directly: \<open>crypto/sha256\<close>
  (FIPS 180-4), for the short authentication string, and the X25519 function of \<open>crypto/ecdh\<close>
  (RFC 7748), for the public key of an identity. Both are written out, so that the functions
  built on them compute; the handshake and the ciphers of the noise library are third-party code
  and stay parameters.
\<close>

section \<open>SHA-256\<close>

text \<open>The 64 round constants, two to an entry.\<close>

definition sha_K2 :: "64 word list" where
  "sha_K2 = [0x428a2f9871374491, 0xb5c0fbcfe9b5dba5, 0x3956c25b59f111f1, 0x923f82a4ab1c5ed5,
    0xd807aa9812835b01, 0x243185be550c7dc3, 0x72be5d7480deb1fe, 0x9bdc06a7c19bf174,
    0xe49b69c1efbe4786, 0x0fc19dc6240ca1cc, 0x2de92c6f4a7484aa, 0x5cb0a9dc76f988da,
    0x983e5152a831c66d, 0xb00327c8bf597fc7, 0xc6e00bf3d5a79147, 0x06ca635114292967,
    0x27b70a852e1b2138, 0x4d2c6dfc53380d13, 0x650a7354766a0abb, 0x81c2c92e92722c85,
    0xa2bfe8a1a81a664b, 0xc24b8b70c76c51a3, 0xd192e819d6990624, 0xf40e3585106aa070,
    0x19a4c1161e376c08, 0x2748774c34b0bcb5, 0x391c0cb34ed8aa4a, 0x5b9cca4f682e6ff3,
    0x748f82ee78a5636f, 0x84c878148cc70208, 0x90befffaa4506ceb, 0xbef9a3f7c67178f2]"

definition sha_K :: "u32 list" where
  "sha_K = concat (map (\<lambda>d. [ucast (drop_bit 32 d), ucast d]) sha_K2)"

record sha_state =
  sha_a :: u32
  sha_b :: u32
  sha_c :: u32
  sha_d :: u32
  sha_e :: u32
  sha_f :: u32
  sha_g :: u32
  sha_h :: u32

definition sha_init :: sha_state where
  "sha_init = \<lparr>sha_a = 0x6a09e667, sha_b = 0xbb67ae85, sha_c = 0x3c6ef372, sha_d = 0xa54ff53a,
     sha_e = 0x510e527f, sha_f = 0x9b05688c, sha_g = 0x1f83d9ab, sha_h = 0x5be0cd19\<rparr>"

definition sha_pad :: "bytes \<Rightarrow> bytes" where
  "sha_pad b = b @ [0x80] @ replicate ((119 - length b mod 64) mod 64) 0
     @ put_u32 (of_nat (8 * length b div 2 ^ 32)) @ put_u32 (of_nat (8 * length b))"

definition sha_extend :: "u32 list \<Rightarrow> u32 list" where
  "sha_extend ws =
     (let n = length ws; x = ws ! (n - 2); y = ws ! (n - 15)
      in ws @ [(word_rotr 17 x XOR word_rotr 19 x XOR drop_bit 10 x) + ws ! (n - 7)
               + (word_rotr 7 y XOR word_rotr 18 y XOR drop_bit 3 y) + ws ! (n - 16)])"

definition sha_schedule :: "bytes \<Rightarrow> u32 list" where
  "sha_schedule block =
     (sha_extend ^^ 48) (map (\<lambda>i. get_u32 (take 4 (drop (4 * i) block))) [0..<16])"

definition sha_round :: "u32 \<times> u32 \<Rightarrow> sha_state \<Rightarrow> sha_state" where
  "sha_round kw s =
     (case kw of (k, w) \<Rightarrow>
       (let e = sha_e s; a = sha_a s;
            t1 = sha_h s + (word_rotr 6 e XOR word_rotr 11 e XOR word_rotr 25 e)
                 + ((e AND sha_f s) XOR (NOT e AND sha_g s)) + k + w;
            t2 = (word_rotr 2 a XOR word_rotr 13 a XOR word_rotr 22 a)
                 + ((a AND sha_b s) XOR (a AND sha_c s) XOR (sha_b s AND sha_c s))
        in \<lparr>sha_a = t1 + t2, sha_b = a, sha_c = sha_b s, sha_d = sha_c s, sha_e = sha_d s + t1,
            sha_f = e, sha_g = sha_f s, sha_h = sha_g s\<rparr>))"

definition sha_block :: "bytes \<Rightarrow> sha_state \<Rightarrow> sha_state" where
  "sha_block block s =
     (let t = fold sha_round (zip sha_K (sha_schedule block)) s
      in \<lparr>sha_a = sha_a s + sha_a t, sha_b = sha_b s + sha_b t, sha_c = sha_c s + sha_c t,
          sha_d = sha_d s + sha_d t, sha_e = sha_e s + sha_e t, sha_f = sha_f s + sha_f t,
          sha_g = sha_g s + sha_g t, sha_h = sha_h s + sha_h t\<rparr>)"

definition sha256 :: "bytes \<Rightarrow> bytes" where
  "sha256 b =
     (let p = sha_pad b;
          s = fold (\<lambda>i. sha_block (take 64 (drop (64 * i) p))) [0..<length p div 64] sha_init
      in put_u32 (sha_a s) @ put_u32 (sha_b s) @ put_u32 (sha_c s) @ put_u32 (sha_d s)
         @ put_u32 (sha_e s) @ put_u32 (sha_f s) @ put_u32 (sha_g s) @ put_u32 (sha_h s))"

lemma length_sha256 [simp]: "length (sha256 b) = 32"
  by (simp add: sha256_def Let_def)

lemma sha_pad_blocks: "64 dvd length (sha_pad b)"
proof -
  define q r where "q = length b div 64" and "r = length b mod 64"
  have b: "length b = 64 * q + r" and r: "r < 64" by (simp_all add: q_def r_def)
  have len: "length (sha_pad b) = length b + 1 + (119 - r) mod 64 + 8"
    by (simp add: sha_pad_def r_def)
  show ?thesis
  proof (cases "r \<le> 55")
    case True
    then have "119 - r = 55 - r + 64" by simp
    with True have "(119 - r) mod 64 = 55 - r" by (metis mod_add_self2 mod_less less_imp_diff_less
        numeral_less_iff semiring_norm(76,78,80,81))
    with len b True have "length (sha_pad b) = 64 * (q + 1)" by simp
    then show ?thesis by simp
  next
    case False
    then have "(119 - r) mod 64 = 119 - r" using r by simp
    with len b r have "length (sha_pad b) = 64 * (q + 2)" by simp
    then show ?thesis by simp
  qed
qed

section \<open>X25519\<close>

definition p25519 :: int where "p25519 = 2 ^ 255 - 19"

fun pow_mod :: "int \<Rightarrow> nat \<Rightarrow> int \<Rightarrow> int" where
  "pow_mod b e m =
     (if e = 0 then 1
      else (let h = pow_mod (b * b mod m) (e div 2) m in if odd e then b * h mod m else h))"

declare pow_mod.simps [simp del]

fun le_int :: "bytes \<Rightarrow> int" where
  "le_int [] = 0"
| "le_int (x # xs) = uint x + 256 * le_int xs"

definition le_bytes :: "nat \<Rightarrow> int \<Rightarrow> bytes" where
  "le_bytes n i = map (\<lambda>k. word_of_int (i div 256 ^ k)) [0..<n]"

text \<open>The scalar of a private key: the low three bits cleared, bit 254 set, bit 255 cleared.\<close>

definition clamp :: "int \<Rightarrow> int" where
  "clamp k = (k mod 2 ^ 254) div 8 * 8 + 2 ^ 254"

record ladder =
  lad_x2 :: int
  lad_z2 :: int
  lad_x3 :: int
  lad_z3 :: int

definition ladder_step :: "int \<Rightarrow> bool \<Rightarrow> ladder \<Rightarrow> ladder" where
  "ladder_step u bit_set l =
     (let x2 = (if bit_set then lad_x3 l else lad_x2 l); z2 = (if bit_set then lad_z3 l else lad_z2 l);
          x3 = (if bit_set then lad_x2 l else lad_x3 l); z3 = (if bit_set then lad_z2 l else lad_z3 l);
          a = x2 + z2; aa = a * a mod p25519; b = x2 - z2; bb = b * b mod p25519; e = aa - bb;
          c = x3 + z3; d = x3 - z3; da = d * a mod p25519; cb = c * b mod p25519;
          y3 = (da + cb) * (da + cb) mod p25519;
          w3 = u * ((da - cb) * (da - cb) mod p25519) mod p25519;
          y2 = aa * bb mod p25519;
          w2 = e * (aa + 121665 * e) mod p25519
      in (if bit_set then \<lparr>lad_x2 = y3, lad_z2 = w3, lad_x3 = y2, lad_z3 = w2\<rparr>
          else \<lparr>lad_x2 = y2, lad_z2 = w2, lad_x3 = y3, lad_z3 = w3\<rparr>))"

definition x25519 :: "bytes \<Rightarrow> int \<Rightarrow> bytes" where
  "x25519 priv u =
     (let k = clamp (le_int priv);
          l = fold (\<lambda>t. ladder_step u (odd (k div 2 ^ t))) (rev [0..<255])
                \<lparr>lad_x2 = 1, lad_z2 = 0, lad_x3 = u, lad_z3 = 1\<rparr>
      in le_bytes 32 (lad_x2 l * pow_mod (lad_z2 l) (nat (p25519 - 2)) p25519 mod p25519))"

definition basepoint :: int where "basepoint = 9"

lemma length_x25519 [simp]: "length (x25519 priv u) = 32"
  by (simp add: x25519_def le_bytes_def Let_def)

end
