(* ===== verification/Go_Strings.thy ===== *)
theory Go_Strings
  imports Prelude
begin

unbundle bit_operations_syntax

text \<open>
  The functions of Go's \<open>strings\<close>, \<open>strconv\<close>, \<open>fmt\<close> and \<open>net\<close> packages that several components
  use. A Go string is its bytes, one \<open>char\<close> each; white space is the ASCII white space (the two
  Unicode spaces above it, U+0085 and U+00A0, are not spaces here).
\<close>

definition bytes_of_string :: "string \<Rightarrow> bytes" where
  "bytes_of_string s = map of_char s"

section \<open>White space and fields\<close>

definition is_space :: "char \<Rightarrow> bool" where
  "is_space c \<longleftrightarrow> c \<in> {CHR '' '', CHR 0x09, CHR 0x0A, CHR 0x0B, CHR 0x0C, CHR 0x0D}"

definition TrimSpace :: "string \<Rightarrow> string" where
  "TrimSpace s = rev (dropWhile is_space (rev (dropWhile is_space s)))"

function Fields :: "string \<Rightarrow> string list" where
  "Fields s =
     (let t = dropWhile is_space s
      in if t = [] then []
         else takeWhile (\<lambda>c. \<not> is_space c) t # Fields (dropWhile (\<lambda>c. \<not> is_space c) t))"
  by pat_completeness auto

lemma length_dropWhile_hd: "t \<noteq> [] \<Longrightarrow> P (hd t) \<Longrightarrow> length (dropWhile P t) < length t"
  by (cases t) (auto intro: le_less_trans [OF length_dropWhile_le])

termination Fields
proof (relation "measure length")
  fix s t :: string
  assume t: "t = dropWhile is_space s" and "t \<noteq> []"
  then have "\<not> is_space (hd t)" by (simp add: hd_dropWhile)
  with \<open>t \<noteq> []\<close> length_dropWhile_hd [of t "\<lambda>c. \<not> is_space c"]
  have "length (dropWhile (\<lambda>c. \<not> is_space c) t) < length t" by blast
  moreover have "length t \<le> length s" unfolding t by (rule length_dropWhile_le)
  ultimately show "(dropWhile (\<lambda>c. \<not> is_space c) t, s) \<in> measure length" by simp
qed simp

declare Fields.simps [simp del]

fun Join :: "string list \<Rightarrow> string \<Rightarrow> string" where
  "Join [] sep = []"
| "Join [x] sep = x"
| "Join (x # y # xs) sep = x @ sep @ Join (y # xs) sep"

text \<open>Splitting at a single character.\<close>

fun split_char :: "char \<Rightarrow> string \<Rightarrow> string list" where
  "split_char c [] = [[]]"
| "split_char c (x # xs) =
     (if x = c then [] # split_char c xs
      else (case split_char c xs of y # ys \<Rightarrow> (x # y) # ys | [] \<Rightarrow> [[x]]))"

definition no_space :: "string \<Rightarrow> bool" where
  "no_space s \<longleftrightarrow> s \<noteq> [] \<and> (\<forall>c\<in>set s. \<not> is_space c)"

lemma dropWhile_no_space: "no_space s \<Longrightarrow> dropWhile is_space (s @ t) = s @ t"
  by (cases s) (auto simp: no_space_def)

lemma takeWhile_no_space:
  "no_space s \<Longrightarrow> takeWhile (\<lambda>c. \<not> is_space c) (s @ t) = s @ takeWhile (\<lambda>c. \<not> is_space c) t"
  "no_space s \<Longrightarrow> dropWhile (\<lambda>c. \<not> is_space c) (s @ t) = dropWhile (\<lambda>c. \<not> is_space c) t"
  by (auto simp: no_space_def)

lemma Fields_Nil [simp]: "Fields [] = []"
  by (simp add: Fields.simps)

lemma Fields_single:
  assumes "no_space s"
  shows "Fields s = [s]"
proof -
  have "dropWhile (\<lambda>c. \<not> is_space c) s = []" "takeWhile (\<lambda>c. \<not> is_space c) s = s" "s \<noteq> []"
    using assms by (simp_all add: no_space_def takeWhile_eq_all_conv)
  with dropWhile_no_space [OF assms, of "[]"] show ?thesis
    by (simp add: Fields.simps [of s] Let_def del: dropWhile_eq_Nil_conv)
qed

text \<open>A command line of tokens without blanks splits back into its tokens.\<close>

lemma Fields_Join:
  "\<forall>t\<in>set ts. no_space t \<Longrightarrow> Fields (Join ts '' '') = ts"
proof (induction ts rule: induct_list012)
  case 1
  show ?case by (simp add: Fields.simps)
next
  case (2 x)
  then show ?case by (simp add: Fields_single)
next
  case (3 x y zs)
  have sp: "is_space (CHR '' '')" by (simp add: is_space_def)
  have x: "no_space x" "x \<noteq> []" using 3(3) by (auto simp: no_space_def)
  have "Fields (CHR '' '' # r) = Fields r" for r
    using sp by (simp add: Fields.simps [of "_ # r"] Fields.simps [of r])
  moreover have "Fields (x @ CHR '' '' # r) = x # Fields (CHR '' '' # r)" for r
    using x sp by (simp add: Fields.simps [of "x @ _"] dropWhile_no_space takeWhile_no_space Let_def)
  ultimately show ?case using 3 by simp
qed

section \<open>Numbers\<close>

fun nat_dec :: "nat \<Rightarrow> string" where
  "nat_dec n =
     (if n < 10 then [''0123456789'' ! n] else nat_dec (n div 10) @ [''0123456789'' ! (n mod 10)])"

declare nat_dec.simps [simp del]

definition Itoa :: "int \<Rightarrow> string" where
  "Itoa i = (if i < 0 then ''-'' @ nat_dec (nat (- i)) else nat_dec (nat i))"

definition hex_digit :: "nat \<Rightarrow> char" where
  "hex_digit n = ''0123456789abcdef'' ! n"

fun nat_hex :: "nat \<Rightarrow> string" where
  "nat_hex n = (if n < 16 then [hex_digit n] else nat_hex (n div 16) @ [hex_digit (n mod 16)])"

declare nat_hex.simps [simp del]

text \<open>The verb \<open>%q\<close> on an ASCII string.\<close>

definition quote_char :: "char \<Rightarrow> string" where
  "quote_char c =
     (let n = of_char c :: nat
      in if c = CHR 0x22 then [CHR 0x5C, CHR 0x22]
         else if c = CHR 0x5C then [CHR 0x5C, CHR 0x5C]
         else if n = 7 then [CHR 0x5C, CHR ''a''] else if n = 8 then [CHR 0x5C, CHR ''b'']
         else if n = 9 then [CHR 0x5C, CHR ''t''] else if n = 10 then [CHR 0x5C, CHR ''n'']
         else if n = 11 then [CHR 0x5C, CHR ''v''] else if n = 12 then [CHR 0x5C, CHR ''f'']
         else if n = 13 then [CHR 0x5C, CHR ''r'']
         else if n < 32 \<or> n = 127
         then [CHR 0x5C, CHR ''x'', hex_digit (n div 16), hex_digit (n mod 16)]
         else [c])"

definition quote :: "string \<Rightarrow> string" where
  "quote s = [CHR 0x22] @ concat (map quote_char s) @ [CHR 0x22]"

section \<open>IP addresses\<close>

text \<open>
  \<open>net.IP\<close> is its bytes. \<open>String\<close>: dotted decimal for IPv4 and for IPv4 in IPv6, otherwise groups
  of hexadecimal digits with the longest run of at least two zero groups, the first of the
  longest, replaced by two colons.
\<close>

type_synonym ip = bytes

definition v4_prefix :: bytes where
  "v4_prefix = replicate 10 0 @ [255, 255]"

definition To4 :: "ip \<Rightarrow> bytes option" where
  "To4 a = (if length a = 4 then Some a
            else if length a = 16 \<and> take 12 a = v4_prefix then Some (drop 12 a) else None)"

definition ip_groups :: "ip \<Rightarrow> nat list" where
  "ip_groups a = map (\<lambda>i. unat (a ! (2 * i)) * 256 + unat (a ! (2 * i + 1))) [0..<8]"

fun zero_run :: "nat list \<Rightarrow> nat" where
  "zero_run [] = 0"
| "zero_run (g # gs) = (if g = 0 then Suc (zero_run gs) else 0)"

text \<open>The start and the length of the run to compress.\<close>

definition best_run :: "nat list \<Rightarrow> nat \<times> nat" where
  "best_run gs =
     fold (\<lambda>i (s, n). let k = zero_run (drop i gs) in if k > n \<and> k \<ge> 2 then (i, k) else (s, n))
       [0..<length gs] (0, 0)"

definition ip_String :: "ip \<Rightarrow> string" where
  "ip_String a =
     (if a = [] then ''<nil>''
      else (case To4 a of
        Some b \<Rightarrow> Join (map (\<lambda>x. nat_dec (unat x)) b) ''.''
      | None \<Rightarrow>
          (if length a \<noteq> 16
           then ''?'' @ concat (map (\<lambda>x. [hex_digit (unat x div 16), hex_digit (unat x mod 16)]) a)
           else
             (let gs = ip_groups a; r = best_run gs; h = (\<lambda>xs. Join (map nat_hex xs) '':'')
              in if snd r = 0 then h gs
                 else h (take (fst r) gs) @ ''::'' @ h (drop (fst r + snd r) gs)))))"

end
