(* ===== verification/Handshake.thy ===== *)
theory Handshake
  imports Record_Layer Crypto Go_Strings
begin

unbundle bit_operations_syntax

text \<open>
  The handshake, desktop/internal/tunnel/handshake.go: the framing of its messages, the checks
  and the message flow of \<open>Handshake\<close> for both roles, the pin check, and the short
  authentication string. The noise library (github.com/flynn/noise) is the parameter \<open>noise_lib\<close>:
  the four operations the code calls, on a handshake state of any type; a \<open>*CipherState\<close> is a
  value of the type \<open>'c\<close>, nil included. The transport is a reader and a writer; a read that never
  returns makes the handshake not return, \<open>None\<close>.
\<close>

section \<open>Framing\<close>

definition handshakeHeaderSize :: nat where "handshakeHeaderSize = 2"
definition handshakeMaxMessage :: nat where "handshakeMaxMessage = 64 * 1024"

definition sendFrame :: "'w writer \<Rightarrow> bytes \<Rightarrow> 'w \<Rightarrow> io_err option \<times> 'w" where
  "sendFrame wr msg w =
     (if length msg > handshakeMaxMessage then (Some ErrHandshakeFailed, w)
      else (case wr (put_u16 (of_nat (length msg))) w of
              (Some err, w') \<Rightarrow> (Some err, w')
            | (None, w') \<Rightarrow> wr msg w'))"

definition recvFrame :: "'s reader \<Rightarrow> 's \<Rightarrow> ((io_err + bytes) \<times> 's) option" where
  "recvFrame rd s =
     (case readFull rd handshakeHeaderSize s of
        None \<Rightarrow> None
      | Some (Inl err, s1) \<Rightarrow> Some (Inl err, s1)
      | Some (Inr hdr, s1) \<Rightarrow>
          (let size = get_u16 hdr
           in if size = 0 then Some (Inl ErrHandshakeFailed, s1)
              else readFull rd (unat size) s1))"

definition encode_message :: "bytes \<Rightarrow> bytes" where
  "encode_message msg = put_u16 (of_nat (length msg)) @ msg"

section \<open>The pin check and the authentication string\<close>

definition pinnedEqual :: "bytes \<Rightarrow> bytes \<Rightarrow> bool" where
  "pinnedEqual a b =
     (if length a \<noteq> length b then False
      else fold (\<lambda>(x, y) v. v OR (x XOR y)) (zip a b) 0 = (0 :: byte))"

definition sasDomain :: bytes where
  "sasDomain = bytes_of_string ''toppa-sas-v1''"

text \<open>The code's format \<open>%06d\<close>, for a number below a million.\<close>

definition format_06d :: "nat \<Rightarrow> string" where
  "format_06d n = map (\<lambda>k. ''0123456789'' ! (n div 10 ^ k mod 10)) [5, 4, 3, 2, 1, 0]"

definition ShortAuthString :: "bytes \<Rightarrow> string" where
  "ShortAuthString handshakeHash =
     (let sum = sha256 (sasDomain @ handshakeHash);
          code = unat (get_u32 (take 4 sum)) mod 1000000
      in format_06d code)"

section \<open>Configuration\<close>

datatype role = RoleInitiator | RoleResponder | OtherRole int

record handshake_config =
  Role :: role
  StaticPrivate :: bytes
  PinnedPeer :: "bytes option"
  MaxPayload :: u32
  Timeout :: int

definition minMaxPayload :: u32 where "minMaxPayload = 4 * 1024"
definition maxMaxPayload :: u32 where "maxMaxPayload = 16 * 1024 * 1024"

definition hs_withDefaults :: "handshake_config \<Rightarrow> handshake_config" where
  "hs_withDefaults c =
     (let c1 = (if MaxPayload c = 0 then c\<lparr>MaxPayload := 256 * 1024\<rparr> else c)
      in if Timeout c1 = 0 then c1\<lparr>Timeout := 5 * 10 ^ 9\<rparr> else c1)"

definition publicFromPrivate :: "bytes \<Rightarrow> bytes option" where
  "publicFromPrivate priv = (if length priv \<noteq> 32 then None else Some (x25519 priv basepoint))"

section \<open>The message flow\<close>

record ('h, 'c) noise_lib =
  NewHandshakeState :: "bool \<Rightarrow> bytes \<Rightarrow> bytes \<Rightarrow> 'h option"
  WriteMessage :: "'h \<Rightarrow> bytes \<Rightarrow> (bytes \<times> 'c \<times> 'c) option \<times> 'h"
  ReadMessage :: "'h \<Rightarrow> bytes \<Rightarrow> (bytes \<times> 'c \<times> 'c) option \<times> 'h"
  ChannelBinding :: "'h \<Rightarrow> bytes"

datatype hs_err =
    BadRole | BadPrivateKey nat | BadMaxPayload u32 | DeadlineFailed | NoiseInit
  | WriteMsg nat | SendMsg nat io_err | RecvMsg nat io_err | ReadMsg nat
  | PeerPayload nat | ErrPeerMismatch

definition send_msg :: "'w writer \<Rightarrow> ('h, 'c) noise_lib \<Rightarrow> nat \<Rightarrow> bytes \<Rightarrow> 'h \<Rightarrow> 'w
    \<Rightarrow> (hs_err + 'c \<times> 'c) \<times> 'h \<times> 'w" where
  "send_msg wr lib k payload h w =
     (case WriteMessage lib h payload of
        (None, h') \<Rightarrow> (Inl (WriteMsg k), h', w)
      | (Some (m, c0, c1), h') \<Rightarrow>
          (case sendFrame wr m w of
             (Some err, w') \<Rightarrow> (Inl (SendMsg k err), h', w')
           | (None, w') \<Rightarrow> (Inr (c0, c1), h', w')))"

definition recv_msg :: "'s reader \<Rightarrow> ('h, 'c) noise_lib \<Rightarrow> nat \<Rightarrow> 'h \<Rightarrow> 's
    \<Rightarrow> ((hs_err + bytes \<times> 'c \<times> 'c) \<times> 'h \<times> 's) option" where
  "recv_msg rd lib k h s =
     (case recvFrame rd s of
        None \<Rightarrow> None
      | Some (Inl err, s') \<Rightarrow> Some (Inl (RecvMsg k err), h, s')
      | Some (Inr m, s') \<Rightarrow>
          (case ReadMessage lib h m of
             (None, h') \<Rightarrow> Some (Inl (ReadMsg k), h', s')
           | (Some r, h') \<Rightarrow> Some (Inr r, h', s')))"

text \<open>The two branches of \<open>Handshake\<close>; the result is the peer payload, the cipher to write with and
  the cipher to read with.\<close>

definition initiator_flow :: "'s reader \<Rightarrow> 'w writer \<Rightarrow> ('h, 'c) noise_lib \<Rightarrow> bytes \<Rightarrow> 'h \<Rightarrow> 's \<Rightarrow> 'w
    \<Rightarrow> ((hs_err + bytes \<times> 'c \<times> 'c) \<times> 'h \<times> 's \<times> 'w) option" where
  "initiator_flow rd wr lib public h s w =
     (case send_msg wr lib 1 [] h w of
        (Inl err, h1, w1) \<Rightarrow> Some (Inl err, h1, s, w1)
      | (Inr _, h1, w1) \<Rightarrow>
          (case recv_msg rd lib 2 h1 s of
             None \<Rightarrow> None
           | Some (Inl err, h2, s2) \<Rightarrow> Some (Inl err, h2, s2, w1)
           | Some (Inr (peer, _, _), h2, s2) \<Rightarrow>
               (case send_msg wr lib 3 public h2 w1 of
                  (Inl err, h3, w3) \<Rightarrow> Some (Inl err, h3, s2, w3)
                | (Inr (cs0, cs1), h3, w3) \<Rightarrow> Some (Inr (peer, cs0, cs1), h3, s2, w3))))"

definition responder_flow :: "'s reader \<Rightarrow> 'w writer \<Rightarrow> ('h, 'c) noise_lib \<Rightarrow> bytes \<Rightarrow> 'h \<Rightarrow> 's \<Rightarrow> 'w
    \<Rightarrow> ((hs_err + bytes \<times> 'c \<times> 'c) \<times> 'h \<times> 's \<times> 'w) option" where
  "responder_flow rd wr lib public h s w =
     (case recv_msg rd lib 1 h s of
        None \<Rightarrow> None
      | Some (Inl err, h1, s1) \<Rightarrow> Some (Inl err, h1, s1, w)
      | Some (Inr _, h1, s1) \<Rightarrow>
          (case send_msg wr lib 2 public h1 w of
             (Inl err, h2, w2) \<Rightarrow> Some (Inl err, h2, s1, w2)
           | (Inr _, h2, w2) \<Rightarrow>
               (case recv_msg rd lib 3 h2 s1 of
                  None \<Rightarrow> None
                | Some (Inl err, h3, s3) \<Rightarrow> Some (Inl err, h3, s3, w2)
                | Some (Inr (peer, cs0, cs1), h3, s3) \<Rightarrow>
                    Some (Inr (peer, cs1, cs0), h3, s3, w2))))"

record 'c handshake_result =
  hr_readCS :: 'c
  hr_writeCS :: 'c
  hr_maxPayload :: u32
  SAS :: string
  PeerStatic :: bytes

text \<open>The checks after the messages, and the result.\<close>

definition finish :: "('h, 'c) noise_lib \<Rightarrow> handshake_config \<Rightarrow> bytes \<Rightarrow> 'c \<Rightarrow> 'c \<Rightarrow> 'h
    \<Rightarrow> hs_err + 'c handshake_result" where
  "finish lib cfg peer csWrite csRead h =
     (if length peer \<noteq> 32 then Inl (PeerPayload (length peer))
      else if PinnedPeer cfg \<noteq> None \<and> \<not> pinnedEqual peer (the (PinnedPeer cfg))
      then Inl ErrPeerMismatch
      else Inr \<lparr>hr_readCS = csRead, hr_writeCS = csWrite, hr_maxPayload = MaxPayload cfg,
                SAS = ShortAuthString (ChannelBinding lib h), PeerStatic = peer\<rparr>)"

text \<open>\<open>deadline_ok\<close>: whether \<open>SetDeadline\<close> succeeds.\<close>

definition Handshake :: "'s reader \<Rightarrow> 'w writer \<Rightarrow> ('h, 'c) noise_lib \<Rightarrow> bool \<Rightarrow> handshake_config \<Rightarrow> 's \<Rightarrow> 'w
    \<Rightarrow> ((hs_err + 'c handshake_result) \<times> 's \<times> 'w) option" where
  "Handshake rd wr lib deadline_ok cfg0 s w =
     (let cfg = hs_withDefaults cfg0
      in if Role cfg \<noteq> RoleInitiator \<and> Role cfg \<noteq> RoleResponder then Some (Inl BadRole, s, w)
         else if length (StaticPrivate cfg) \<noteq> 32
         then Some (Inl (BadPrivateKey (length (StaticPrivate cfg))), s, w)
         else if MaxPayload cfg < minMaxPayload \<or> MaxPayload cfg > maxMaxPayload
         then Some (Inl (BadMaxPayload (MaxPayload cfg)), s, w)
         else if \<not> deadline_ok then Some (Inl DeadlineFailed, s, w)
         else
           (case publicFromPrivate (StaticPrivate cfg) of
              None \<Rightarrow> Some (Inl (BadPrivateKey (length (StaticPrivate cfg))), s, w)
            | Some public \<Rightarrow>
                (case NewHandshakeState lib (Role cfg = RoleInitiator) (StaticPrivate cfg) public of
                   None \<Rightarrow> Some (Inl NoiseInit, s, w)
                 | Some h \<Rightarrow>
                     (case (if Role cfg = RoleInitiator then initiator_flow rd wr lib public h s w
                            else responder_flow rd wr lib public h s w) of
                        None \<Rightarrow> None
                      | Some (Inl err, h', s', w') \<Rightarrow> Some (Inl err, s', w')
                      | Some (Inr (peer, csWrite, csRead), h', s', w') \<Rightarrow>
                          Some (finish lib cfg peer csWrite csRead h', s', w')))))"

section \<open>Facts\<close>

lemma xor_zero_iff: "x XOR y = (0 :: byte) \<longleftrightarrow> x = y"
proof
  assume "x XOR y = 0"
  then have "(x XOR y) XOR y = 0 XOR y" by (rule arg_cong)
  then show "x = y" by (simp add: xor.assoc)
qed simp

lemma fold_or_zero_iff:
  "fold (\<lambda>(x, y) v. v OR (x XOR y)) ps (v :: byte) = 0 \<longleftrightarrow> v = 0 \<and> (\<forall>(x, y)\<in>set ps. x = y)"
  by (induction ps arbitrary: v) (simp_all add: or_eq_0_iff xor_zero_iff split: prod.split)

lemma zip_all_equal:
  "length a = length b \<Longrightarrow> (\<forall>(x, y)\<in>set (zip a b). x = y) \<longleftrightarrow> a = b"
  by (induction a b rule: list_induct2) auto

lemma pinnedEqual_eq: "pinnedEqual a b \<longleftrightarrow> a = b"
  by (cases "length a = length b")
    (simp_all add: pinnedEqual_def fold_or_zero_iff zip_all_equal, auto)

context byte_reader
begin

lemma recvFrame_message:
  assumes "good s" and "content s = encode_message m @ rest" and "m \<noteq> []" and "length m < 2 ^ 16"
  shows "\<exists>s'. recvFrame rd s = Some (Inr m, s') \<and> good s' \<and> content s' = rest"
proof -
  from readFull_full [OF assms(1), of 2] assms(2) obtain s1 where
    s1: "readFull rd 2 s = Some (Inr (put_u16 (of_nat (length m))), s1)" "good s1" "content s1 = m @ rest"
    by (auto simp: encode_message_def)
  from readFull_full [OF s1(2), of "length m"] s1(3) obtain s2 where
    "readFull rd (length m) s1 = Some (Inr m, s2)" "good s2" "content s2 = rest" by auto
  moreover have "unat (of_nat (length m) :: u16) = length m" "(of_nat (length m) :: u16) \<noteq> 0"
    using assms(3,4) by (simp_all add: unat_of_nat unat_eq_zero [symmetric] del: unat_eq_zero)
  ultimately show ?thesis using s1(1) by (simp add: recvFrame_def handshakeHeaderSize_def Let_def)
qed

lemma recvFrame_returns:
  assumes "good s"
  shows "\<exists>r s'. recvFrame rd s = Some (r, s') \<and> good s'"
proof -
  have full: "\<exists>r s'. readFull rd n t = Some (r, s') \<and> good s'" if "good t" for n t
    using readFull_full [OF that, of n] readFull_short [OF that, of n] by (meson linorder_not_le)
  from full [OF assms, of 2] obtain r s1 where r: "readFull rd 2 s = Some (r, s1)" "good s1" by blast
  with full [OF r(2)] show ?thesis
    by (cases r) (auto simp: recvFrame_def handshakeHeaderSize_def Let_def)
qed

end

lemma sendFrame_message:
  "wok w \<Longrightarrow> length m \<le> 65536 \<Longrightarrow>
    sendFrame conn_write m w = (None, w\<lparr>wbytes := wbytes w @ encode_message m\<rparr>)"
  by (simp add: sendFrame_def handshakeMaxMessage_def encode_message_def)

lemma send_msg_ok:
  assumes "WriteMessage lib h payload = (Some (m, cs), h')" and "wok w" and "length m < 2 ^ 16"
  shows "send_msg conn_write lib k payload h w
    = (Inr cs, h', w\<lparr>wbytes := wbytes w @ encode_message m\<rparr>)"
  using assms by (cases cs) (simp add: send_msg_def sendFrame_message)

context byte_reader
begin

lemma recv_msg_ok:
  assumes "ReadMessage lib h m = (Some r, h')" and "good s"
    and "content s = encode_message m @ rest" and "m \<noteq> []" and "length m < 2 ^ 16"
  shows "\<exists>s'. recv_msg rd lib k h s = Some (Inr r, h', s') \<and> good s' \<and> content s' = rest"
  using recvFrame_message [OF assms(2-5)] assms(1) by (auto simp: recv_msg_def)

lemma initiator_flow_ok:
  assumes "WriteMessage lib h [] = (Some (m1, x1), h1)" and "ReadMessage lib h1 m2 = (Some (peer, x2), h2)"
    and "WriteMessage lib h2 public = (Some (m3, cs), h3)"
    and "m2 \<noteq> []" "length m1 < 2 ^ 16" "length m2 < 2 ^ 16" "length m3 < 2 ^ 16"
    and "good s" "content s = encode_message m2 @ rest" "wok w"
  shows "\<exists>s'. initiator_flow rd conn_write lib public h s w = Some (Inr (peer, cs), h3, s',
      w\<lparr>wbytes := wbytes w @ encode_message m1 @ encode_message m3\<rparr>) \<and> good s' \<and> content s' = rest"
proof -
  from recv_msg_ok [OF assms(2,8,9,4,6), of 2] obtain s' where
    "recv_msg rd lib 2 h1 s = Some (Inr (peer, x2), h2, s')" "good s'" "content s' = rest" by blast
  with send_msg_ok [OF assms(1,10,5), of 1] send_msg_ok [OF assms(3) _ assms(7), of _ 3] assms(10)
  show ?thesis by (cases cs; cases x2) (simp add: initiator_flow_def)
qed

lemma responder_flow_ok:
  assumes "ReadMessage lib h m1 = (Some x1, h1)" and "WriteMessage lib h1 public = (Some (m2, x2), h2)"
    and "ReadMessage lib h2 m3 = (Some (peer, cs0, cs1), h3)"
    and "m1 \<noteq> []" "m3 \<noteq> []" "length m1 < 2 ^ 16" "length m2 < 2 ^ 16" "length m3 < 2 ^ 16"
    and "good s" "content s = encode_message m1 @ encode_message m3 @ rest" "wok w"
  shows "\<exists>s'. responder_flow rd conn_write lib public h s w = Some (Inr (peer, cs1, cs0), h3, s',
      w\<lparr>wbytes := wbytes w @ encode_message m2\<rparr>) \<and> good s' \<and> content s' = rest"
proof -
  from recv_msg_ok [OF assms(1,9,10,4,6), of 1] obtain s1 where
    s1: "recv_msg rd lib 1 h s = Some (Inr x1, h1, s1)" "good s1"
      "content s1 = encode_message m3 @ rest" by blast
  from recv_msg_ok [OF assms(3) s1(2,3) assms(5,8), of 3] obtain s2 where
    "recv_msg rd lib 3 h2 s1 = Some (Inr (peer, cs0, cs1), h3, s2)" "good s2" "content s2 = rest" by blast
  with s1(1) send_msg_ok [OF assms(2,11,7), of 2] show ?thesis
    by (simp add: responder_flow_def)
qed

lemma recv_msg_returns:
  "good s \<Longrightarrow> \<exists>r h' s'. recv_msg rd lib k h s = Some (r, h', s') \<and> good s'"
  using recvFrame_returns [of s]
  by (fastforce simp: recv_msg_def split: sum.split prod.split option.split)

end

section \<open>The digits of the code\<close>

lemma format_06d_digits: "set (format_06d n) \<subseteq> set ''0123456789''"
proof -
  have "''0123456789'' ! (d mod 10) \<in> set ''0123456789''" for d :: nat
    by (rule nth_mem) simp
  then show ?thesis unfolding format_06d_def set_map by blast
qed

lemma digit_value:
  assumes "d < 10"
  shows "of_char (''0123456789'' ! d) - 48 = (d :: nat)"
proof -
  have "\<forall>d\<in>set [0..<10]. of_char (''0123456789'' ! d) - 48 = (d :: nat)"
    by (simp add: upt_rec)
  with assms show ?thesis by simp
qed

lemma length_format_06d: "length (format_06d n) = 6"
  by (simp add: format_06d_def)

lemma format_06d_value:
  assumes "n < 1000000"
  shows "foldl (\<lambda>m c. 10 * m + (of_char c - 48)) 0 (format_06d n) = n"
proof -
  define a1 a2 a3 a4 a5 where "a1 = n div 10" and "a2 = a1 div 10" and "a3 = a2 div 10"
    and "a4 = a3 div 10" and "a5 = a4 div 10"
  note defs = a1_def a2_def a3_def a4_def a5_def
  have pows: "n div 10 ^ 5 = a5" "n div 10 ^ 4 = a4" "n div 10 ^ 3 = a3" "n div 10 ^ 2 = a2"
    "n div 10 ^ 1 = a1" "n div 10 ^ 0 = n"
    by (simp_all add: defs div_mult2_eq [symmetric])
  have "a5 < 10" using assms by (simp add: pows(1) [symmetric] less_mult_imp_div_less)
  then have top: "a5 mod 10 = a5" by simp
  have digits: "of_char (''0123456789'' ! (d mod 10)) - 48 = d mod 10" for d :: nat
    by (rule digit_value) simp
  have "foldl (\<lambda>m c. 10 * m + (of_char c - 48)) 0 (format_06d n)
      = 10 * (10 * (10 * (10 * (10 * (a5 mod 10) + a4 mod 10) + a3 mod 10)
        + a2 mod 10) + a1 mod 10) + n mod 10"
    unfolding format_06d_def list.map foldl.simps pows digits by simp
  also have "\<dots> = n" unfolding top by (simp add: defs)
  finally show ?thesis .
qed

end
