(* ===== verification/Tunnel_Properties.thy ===== *)
theory Tunnel_Properties
  imports Handshake
begin

unbundle bit_operations_syntax

text \<open>
  The properties of the tunnel. The cipher and the noise library are parameters with the laws
  \<open>aead_laws\<close> and \<open>xx_exchange\<close>; \<open>demo_enc\<close>, \<open>demo_dec\<close> and \<open>demo_noise\<close> are concrete functions
  that satisfy them, on which the witnesses run.
\<close>

section \<open>A concrete cipher\<close>

definition demo_enc :: "nat encrypt" where
  "demo_enc n pt = (Inr (pt @ replicate 16 (of_nat n)), Suc n)"

definition demo_dec :: "nat decrypt" where
  "demo_dec n ct =
     (if 16 \<le> length ct \<and> drop (length ct - 16) ct = replicate 16 (of_nat n)
      then (Inr (take (length ct - 16) ct), Suc n)
      else (Inl ErrRecordAuth, n))"

lemma demo_aead: "aead_laws demo_enc demo_dec (=)"
  by (simp add: aead_laws_def demo_enc_def demo_dec_def recordOverhead_def)

section \<open>The record layer\<close>

text \<open>C15: The record layer is a transparent byte stream. With ciphers that keep in step, a Write of
  any length returns with everything written, and the peer reads back exactly these bytes from
  the records, in whatever pieces the transport delivers them.\<close>

theorem tunnel_roundtrip:
  assumes "aead_laws enc dec paired" and "paired cs r" and "0 < m" and "unat m + 16 < 2 ^ 24"
    and "length b < 2 ^ 32"
  shows "\<exists>cs' w. SecureWrite enc m conn_write b cs \<lparr>wbytes = [], wok = True\<rparr>
      = Some (length b, None, cs', w) \<and>
    (\<forall>chunks. concat chunks = wbytes w \<longrightarrow>
       (\<exists>c. io_ReadFull (SecureRead dec m (src_read err)) (length b)
          \<lparr>transport = chunks, readCS = r, rbuf = []\<rparr> = Some (Inr b, c)))"
proof -
  from SecureWriter_carries [OF secure_carries_start [OF assms(1,3,4,2)] assms(5)] obtain y where
    y: "SecureWrite enc m conn_write b cs \<lparr>wbytes = [], wok = True\<rparr>
        = Some (length b, None, fst y, snd y)" "secure_carries enc dec paired m r y b"
    by auto
  have "\<exists>c. io_ReadFull (SecureRead dec m (src_read err)) (length b)
      \<lparr>transport = chunks, readCS = r, rbuf = []\<rparr> = Some (Inr b, c)"
    if "concat chunks = wbytes (snd y)" for chunks
    using sec.io_ReadFull_full [OF secure_carries_content(1) [OF y(2) that], of "length b" err]
    by (auto simp: secure_carries_content(2) [OF y(2) that])
  with y(1) show ?thesis by blast
qed

theorem tunnel_roundtrip_witness:
  "\<exists>cs' w. SecureWrite demo_enc 2 conn_write [1, 2, 3, 4, 5] 0 \<lparr>wbytes = [], wok = True\<rparr>
      = Some (length [1, 2, 3, 4, 5 :: byte], None, cs', w) \<and>
    (\<exists>c. io_ReadFull (SecureRead demo_dec 2 (src_read EOF)) (length [1, 2, 3, 4, 5 :: byte])
      \<lparr>transport = [wbytes w], readCS = 0, rbuf = []\<rparr> = Some (Inr [1, 2, 3, 4, 5], c))"
proof -
  have "concat [wbytes w] = wbytes w" for w by simp
  moreover have "(0 :: u32) < 2" "unat (2 :: u32) + 16 < 2 ^ 24" "length [1, 2, 3, 4, 5 :: byte] < 2 ^ 32"
    by simp_all
  note tunnel_roundtrip [OF demo_aead refl this, of 0 EOF]
  ultimately show ?thesis by blast
qed

text \<open>C16: Frames survive the tunnel. Any sequence of valid frames that WriteFrame sends over the
  record layer is what ReadFrame reads on the other side of it, frame for frame, whatever the
  record size and however the transport cuts the records.\<close>

theorem frames_over_tunnel:
  assumes "aead_laws enc dec paired" and "paired cs r" and "0 < m" and "unat m + 16 < 2 ^ 24"
    and "\<forall>f\<in>set fs. wellformed mf f"
  shows "\<exists>y. write_frames (SecureWriter enc m conn_write) mf fs (cs, \<lparr>wbytes = [], wok = True\<rparr>)
      = (None, y) \<and>
    (\<forall>chunks. concat chunks = wbytes (snd y) \<longrightarrow>
       (\<exists>c. read_frames (SecureRead dec m (src_read err)) mf (length fs)
          \<lparr>transport = chunks, readCS = r, rbuf = []\<rparr> = Some (fs, c)))"
proof -
  have "\<forall>f\<in>set fs. sendable mf f" using assms(5) by (simp add: wellformed_def)
  from sw.write_frames_carries [OF secure_carries_start [OF assms(1,3,4,2)] this] obtain y where
    y: "write_frames (SecureWriter enc m conn_write) mf fs (cs, \<lparr>wbytes = [], wok = True\<rparr>) = (None, y)"
      "secure_carries enc dec paired m r y (concat (map encode_frame fs))"
    by auto
  have "\<exists>c. read_frames (SecureRead dec m (src_read err)) mf (length fs)
      \<lparr>transport = chunks, readCS = r, rbuf = []\<rparr> = Some (fs, c)"
    if "concat chunks = wbytes (snd y)" for chunks
    using sec.read_frames_encoded [OF secure_carries_content [OF y(2) that] assms(5), of err] by blast
  with y(1) show ?thesis by blast
qed

definition ping_frame :: frame where
  "ping_frame = \<lparr>Version = ProtocolVersion, Flags = FlagPING, StreamID = 0, Payload = [1, 2, 3, 4]\<rparr>"

theorem frames_over_tunnel_witness:
  "\<exists>y c. write_frames (SecureWriter demo_enc 5 conn_write) 64 [ping_frame, ping_frame]
      (0, \<lparr>wbytes = [], wok = True\<rparr>) = (None, y) \<and>
    read_frames (SecureRead demo_dec 5 (src_read EOF)) 64 (length [ping_frame, ping_frame])
      \<lparr>transport = [wbytes (snd y)], readCS = 0, rbuf = []\<rparr> = Some ([ping_frame, ping_frame], c)"
proof -
  have "concat [wbytes w] = wbytes w" for w by simp
  moreover have "\<forall>f\<in>set [ping_frame, ping_frame]. wellformed 64 f"
    by (simp add: ping_frame_def wellformed_def sendable_def validateFrame_def has_flag_def flag_defs)
  moreover have "(0 :: u32) < 5" "unat (5 :: u32) + 16 < 2 ^ 24" by simp_all
  ultimately show ?thesis
    using frames_over_tunnel [OF demo_aead refl, of 5 "[ping_frame, ping_frame]" 64 0 EOF] by blast
qed

text \<open>Only authenticated bytes are delivered. Over any transport, a Read that returns bytes
  returns the front of the buffered plaintext, or the front of what the cipher decrypted from one
  record of an allowed size, and keeps exactly the rest in the buffer.\<close>

lemma read_authenticated:
  assumes "SecureRead_opt dec m rd n c = Some (xs, e, c')" and "xs \<noteq> []"
  shows "e = None \<and>
    (rbuf c \<noteq> [] \<and> xs @ rbuf c' = rbuf c \<and> readCS c' = readCS c \<or>
     rbuf c = [] \<and> (\<exists>ct. dec (readCS c) ct = (Inr (xs @ rbuf c'), readCS c')))"
proof (cases "rbuf c = []")
  case False
  with assms show ?thesis by (auto simp: SecureRead_opt_def)
next
  case True
  with assms show ?thesis
    by (auto simp: SecureRead_opt_def Let_def split: if_splits option.splits sum.splits prod.splits)
qed

lemma read_authenticated_example:
  "\<exists>ct c'. SecureRead_opt demo_dec 8 (src_read EOF) 2
      \<lparr>transport = [0 # 0 # 18 # 7 # 9 # replicate 16 0], readCS = 0, rbuf = []\<rparr> = Some ([7, 9], None, c')
    \<and> demo_dec 0 ct = (Inr [7, 9], 1)"
proof -
  define c where "c = \<lparr>transport = [0 # 0 # 18 # 7 # 9 # replicate 16 (0 :: byte)], readCS = 0 :: nat, rbuf = []\<rparr>"
  have r: "SecureRead_opt demo_dec 8 (src_read EOF) 2 c
      = Some ([7, 9], None, \<lparr>transport = [], readCS = 1, rbuf = []\<rparr>)"
    by (simp add: c_def SecureRead_opt_def io_ReadFull_def read_loop.simps record_consts
        record_size_def demo_dec_def Let_def)
  from read_authenticated [OF r] r show ?thesis by (auto simp: c_def)
qed

text \<open>The largest record the configuration allows cannot be sent. With MaxPayload at its upper
  limit of 16 MiB, which Handshake accepts, Write puts 2^24 bytes into one record; the ciphertext
  has 2^24 + 16 bytes, the 24-bit header says 16, and the peer takes the first 16 bytes for the
  record, so its Read fails unless the cipher accepts that fragment.\<close>

lemma largest_record_breaks:
  assumes "aead_laws enc dec paired" and "paired cs r" and "length b = 2 ^ 24" and "0 < n"
  shows "\<exists>ct cs' w. SecureWrite enc maxMaxPayload conn_write b cs \<lparr>wbytes = [], wok = True\<rparr>
      = Some (2 ^ 24, None, cs', w)
    \<and> wbytes w = record_header ct @ ct \<and> length ct = 2 ^ 24 + 16 \<and> record_size (wbytes w) = 16
    \<and> (\<forall>e r'. dec r (take 16 ct) = (Inl e, r') \<longrightarrow>
         (\<exists>c. SecureRead dec maxMaxPayload (src_read err) n
            \<lparr>transport = [wbytes w], readCS = r, rbuf = []\<rparr> = ([], Some ErrRecordAuth, c)))"
proof -
  obtain ct cs' r1 where ct: "enc cs b = (Inr ct, cs')" "length ct = 2 ^ 24 + 16"
    using aead_lawsD [OF assms(1,2), of b] assms(3) by metis
  define w where "w = \<lparr>wbytes = record_header ct @ ct, wok = True\<rparr>"
  have "\<not> maxMaxPayload < (of_nat (length b) :: u32)" "b \<noteq> []" "0 < length b"
    using assms(3) by (auto simp: maxMaxPayload_def word_less_nat_alt unat_of_nat)
  then have wr: "SecureWrite enc maxMaxPayload conn_write b cs \<lparr>wbytes = [], wok = True\<rparr>
      = Some (2 ^ 24, None, cs', w)"
    using ct(1) assms(3)
    by (simp add: SecureWrite_def SecureWrite_loop.simps Let_def w_def)
  have size: "record_size (wbytes w) = 16"
    using ct(2) by (simp add: w_def record_size_append record_size_header)
  have "\<exists>c. SecureRead dec maxMaxPayload (src_read err) n
      \<lparr>transport = [wbytes w], readCS = r, rbuf = []\<rparr> = ([], Some ErrRecordAuth, c)"
    if bad: "dec r (take 16 ct) = (Inl e, r')" for e r'
  proof -
    from src.io_ReadFull_full [of 3 "[wbytes w]" err] obtain s1 where
      s1: "io_ReadFull (src_read err) 3 [wbytes w] = Some (Inr (record_header ct), s1)" "concat s1 = ct"
      by (auto simp: w_def)
    from src.io_ReadFull_full [of 16 s1 err] s1(2) ct(2) obtain s2 where
      "io_ReadFull (src_read err) 16 s1 = Some (Inr (take 16 ct), s2)" by auto
    moreover have "record_size (record_header ct) = 16" using ct(2) by (simp add: record_size_header)
    ultimately show ?thesis
      using s1(1) bad assms(4)
      by (simp add: SecureRead_def SecureRead_opt_def record_consts Let_def)
  qed
  with wr size ct(2) show ?thesis by (auto simp: w_def)
qed

lemma largest_record_breaks_example:
  "\<exists>b ct cs' w. length b = 2 ^ 24 \<and>
    SecureWrite demo_enc maxMaxPayload conn_write b 0 \<lparr>wbytes = [], wok = True\<rparr> = Some (2 ^ 24, None, cs', w)
    \<and> wbytes w = record_header ct @ ct \<and> length ct = 2 ^ 24 + 16 \<and> record_size (wbytes w) = 16"
proof -
  obtain b :: bytes where "length b = 2 ^ 24" using Ex_list_of_length by blast
  with largest_record_breaks [OF demo_aead refl this zero_less_one, of 0 EOF] show ?thesis by blast
qed

section \<open>The handshake\<close>

text \<open>Handshake messages are framed faithfully. A message of 1 to 65535 bytes that sendFrame
  writes is what recvFrame returns, in any chunking; one of 65536 bytes, which sendFrame's check
  still admits, goes out with a length of zero, and recvFrame rejects it.\<close>

lemma handshake_framing:
  assumes "msg \<noteq> []" and "length msg \<le> 65536"
  shows "\<exists>w. sendFrame conn_write msg \<lparr>wbytes = [], wok = True\<rparr> = (None, w) \<and>
    (\<forall>cs rest. concat cs = wbytes w @ rest \<longrightarrow>
       (length msg < 65536 \<longrightarrow>
          (\<exists>cs'. recvFrame (src_read err) cs = Some (Inr msg, cs') \<and> concat cs' = rest)) \<and>
       (length msg = 65536 \<longrightarrow>
          (\<exists>cs'. recvFrame (src_read err) cs = Some (Inl ErrHandshakeFailed, cs'))))"
proof -
  let ?w = "\<lparr>wbytes = encode_message msg, wok = True\<rparr>"
  have send: "sendFrame conn_write msg \<lparr>wbytes = [], wok = True\<rparr> = (None, ?w)"
    using assms(2) by (simp add: sendFrame_message)
  have "\<exists>cs'. recvFrame (src_read err) cs = Some (Inr msg, cs') \<and> concat cs' = rest"
    if "concat cs = encode_message msg @ rest" "length msg < 65536" for cs rest
    using src.recvFrame_message [of cs msg rest err] that assms(1) by simp
  moreover have "\<exists>cs'. recvFrame (src_read err) cs = Some (Inl ErrHandshakeFailed, cs')"
    if "concat cs = encode_message msg @ rest" "length msg = 65536" for cs rest
  proof -
    have "put_u16 (of_nat (length msg)) = put_u16 0"
      by (simp add: that(2))
    with src.readFull_full [of 2 cs err] that(1) show ?thesis
      by (auto simp: recvFrame_def handshakeHeaderSize_def encode_message_def)
  qed
  ultimately show ?thesis using send by auto
qed

lemma handshake_framing_example:
  "\<exists>w cs'. sendFrame conn_write [7, 8] \<lparr>wbytes = [], wok = True\<rparr> = (None, w) \<and>
    recvFrame (src_read EOF) [wbytes w] = Some (Inr [7, 8], cs')"
proof -
  obtain w where w: "sendFrame conn_write [7, 8] \<lparr>wbytes = [], wok = True\<rparr> = (None, w)"
    and r: "\<forall>cs rest. concat cs = wbytes w @ rest \<longrightarrow> length [7, 8 :: byte] < 65536 \<longrightarrow>
      (\<exists>cs'. recvFrame (src_read EOF) cs = Some (Inr [7, 8], cs') \<and> concat cs' = rest)"
    using handshake_framing [of "[7, 8]" EOF] by auto
  from r [rule_format, of "[wbytes w]" "[]"] w show ?thesis by auto
qed

text \<open>The authentication string is six decimal digits that spell the code. Read as a decimal
  number it is the first four bytes of the SHA-256 of the domain and the hash, modulo a million.\<close>

lemma sas_six_digits:
  shows "length (ShortAuthString h) = 6 \<and> set (ShortAuthString h) \<subseteq> set ''0123456789'' \<and>
    foldl (\<lambda>n c. 10 * n + (of_char c - 48)) 0 (ShortAuthString h)
      = unat (get_u32 (take 4 (sha256 (sasDomain @ h)))) mod (1000000 :: nat)"
proof -
  define n where "n = unat (get_u32 (take 4 (sha256 (sasDomain @ h)))) mod (1000000 :: nat)"
  have n: "n < 1000000" by (simp add: n_def)
  have sas: "ShortAuthString h = format_06d n" by (simp add: ShortAuthString_def n_def Let_def)
  show ?thesis
    unfolding sas n_def [symmetric]
    by (intro conjI length_format_06d format_06d_digits format_06d_value n)
qed

section \<open>Two honest parties\<close>

text \<open>
  What the code relies on of the noise library between two honest parties: the three messages of
  the XX pattern, each accepted by the other side with the payload it was given, and the same
  handshake hash on both sides at the end.
\<close>

definition xx_exchange :: "('h, 'c) noise_lib \<Rightarrow> 'h \<Rightarrow> 'h \<Rightarrow> bytes \<Rightarrow> bytes \<Rightarrow> bytes \<Rightarrow> bytes \<Rightarrow> bytes
    \<Rightarrow> 'c \<times> 'c \<Rightarrow> 'c \<times> 'c \<Rightarrow> bytes \<Rightarrow> bool" where
  "xx_exchange lib hi hr pubI pubR m1 m2 m3 ci cr hash \<longleftrightarrow>
     (\<exists>hi1 hi2 hi3 hr1 hr2 hr3 x1 x2 y1 y2 p1.
        WriteMessage lib hi [] = (Some (m1, x1), hi1) \<and>
        ReadMessage lib hr m1 = (Some (p1, y1), hr1) \<and>
        WriteMessage lib hr1 pubR = (Some (m2, y2), hr2) \<and>
        ReadMessage lib hi1 m2 = (Some (pubR, x2), hi2) \<and>
        WriteMessage lib hi2 pubI = (Some (m3, ci), hi3) \<and>
        ReadMessage lib hr2 m3 = (Some (pubI, cr), hr3) \<and>
        ChannelBinding lib hi3 = hash \<and> ChannelBinding lib hr3 = hash)"

definition hs_message :: "bytes \<Rightarrow> bool" where
  "hs_message m \<longleftrightarrow> m \<noteq> [] \<and> length m < 2 ^ 16"

definition config_ok :: "handshake_config \<Rightarrow> bool" where
  "config_ok c \<longleftrightarrow> length (StaticPrivate c) = 32 \<and> minMaxPayload \<le> MaxPayload c
     \<and> MaxPayload c \<le> maxMaxPayload"

lemma config_ok_defaults:
  "config_ok c \<Longrightarrow> MaxPayload (hs_withDefaults c) = MaxPayload c
    \<and> StaticPrivate (hs_withDefaults c) = StaticPrivate c \<and> Role (hs_withDefaults c) = Role c
    \<and> PinnedPeer (hs_withDefaults c) = PinnedPeer c"
  by (auto simp: config_ok_def hs_withDefaults_def Let_def minMaxPayload_def)

lemma Handshake_initiator:
  assumes "Role c = RoleInitiator" and "config_ok c"
    and "NewHandshakeState lib True (StaticPrivate c) (x25519 (StaticPrivate c) basepoint) = Some h"
    and "initiator_flow rd wr lib (x25519 (StaticPrivate c) basepoint) h s w
      = Some (Inr (peer, csWrite, csRead), h', s', w')"
  shows "Handshake rd wr lib True c s w
    = Some (finish lib (hs_withDefaults c) peer csWrite csRead h', s', w')"
  using assms config_ok_defaults [OF assms(2)]
  by (auto simp: Handshake_def Let_def config_ok_def publicFromPrivate_def)

lemma Handshake_responder:
  assumes "Role c = RoleResponder" and "config_ok c"
    and "NewHandshakeState lib False (StaticPrivate c) (x25519 (StaticPrivate c) basepoint) = Some h"
    and "responder_flow rd wr lib (x25519 (StaticPrivate c) basepoint) h s w
      = Some (Inr (peer, csWrite, csRead), h', s', w')"
  shows "Handshake rd wr lib True c s w
    = Some (finish lib (hs_withDefaults c) peer csWrite csRead h', s', w')"
  using assms config_ok_defaults [OF assms(2)]
  by (auto simp: Handshake_def Let_def config_ok_def publicFromPrivate_def)

lemma finish_ok:
  assumes "length peer = 32" and "PinnedPeer c = None \<or> PinnedPeer c = Some peer"
  shows "finish lib c peer csWrite csRead h = Inr \<lparr>hr_readCS = csRead, hr_writeCS = csWrite,
    hr_maxPayload = MaxPayload c, SAS = ShortAuthString (ChannelBinding lib h), PeerStatic = peer\<rparr>"
  using assms by (auto simp: finish_def pinnedEqual_eq)

text \<open>C12: Two honest parties agree. Given the exchange of the XX pattern, with configurations in
  range and no pin or the right one, both Handshakes succeed over transports that deliver the
  other's messages in any chunking; each side reports the other's public key, both show the same
  authentication string, and the cipher one side writes with is the one the pattern gives the
  other side to read with.\<close>

theorem handshake_agrees:
  assumes "Role cI = RoleInitiator" and "Role cR = RoleResponder" and "config_ok cI" and "config_ok cR"
    and "pubI = x25519 (StaticPrivate cI) basepoint" and "pubR = x25519 (StaticPrivate cR) basepoint"
    and "PinnedPeer cI \<in> {None, Some pubR}" and "PinnedPeer cR \<in> {None, Some pubI}"
    and "NewHandshakeState lib True (StaticPrivate cI) pubI = Some hi"
    and "NewHandshakeState lib False (StaticPrivate cR) pubR = Some hr"
    and "xx_exchange lib hi hr pubI pubR m1 m2 m3 (i0, i1) (r0, r1) hash"
    and "hs_message m1" and "hs_message m2" and "hs_message m3"
    and "concat inI = encode_message m2 @ restI"
    and "concat inR = encode_message m1 @ encode_message m3 @ restR"
  shows "(\<exists>s w. Handshake (src_read err) conn_write lib True cI inI \<lparr>wbytes = [], wok = True\<rparr>
      = Some (Inr \<lparr>hr_readCS = i1, hr_writeCS = i0, hr_maxPayload = MaxPayload cI,
          SAS = ShortAuthString hash, PeerStatic = pubR\<rparr>, s, w)
      \<and> wbytes w = encode_message m1 @ encode_message m3 \<and> concat s = restI) \<and>
    (\<exists>s w. Handshake (src_read err) conn_write lib True cR inR \<lparr>wbytes = [], wok = True\<rparr>
      = Some (Inr \<lparr>hr_readCS = r0, hr_writeCS = r1, hr_maxPayload = MaxPayload cR,
          SAS = ShortAuthString hash, PeerStatic = pubI\<rparr>, s, w)
      \<and> wbytes w = encode_message m2 \<and> concat s = restR)"
proof -
  from assms(11) obtain hi1 hi2 hi3 hr1 hr2 hr3 x1 x2 y1 y2 p1 where
    i: "WriteMessage lib hi [] = (Some (m1, x1), hi1)" "ReadMessage lib hi1 m2 = (Some (pubR, x2), hi2)"
      "WriteMessage lib hi2 pubI = (Some (m3, i0, i1), hi3)" "ChannelBinding lib hi3 = hash"
    and r: "ReadMessage lib hr m1 = (Some (p1, y1), hr1)" "WriteMessage lib hr1 pubR = (Some (m2, y2), hr2)"
      "ReadMessage lib hr2 m3 = (Some (pubI, r0, r1), hr3)" "ChannelBinding lib hr3 = hash"
    by (auto simp: xx_exchange_def)
  have len: "length pubI = 32" "length pubR = 32" using assms(5,6) by simp_all
  have ms: "m1 \<noteq> []" "m2 \<noteq> []" "m3 \<noteq> []" "length m1 < 2 ^ 16" "length m2 < 2 ^ 16" "length m3 < 2 ^ 16"
    using assms(12-14) by (simp_all add: hs_message_def)
  from src.initiator_flow_ok [OF i(1-3) ms(2,4-6) _ assms(15), of "\<lparr>wbytes = [], wok = True\<rparr>" err]
  obtain s where s: "initiator_flow (src_read err) conn_write lib pubI hi inI \<lparr>wbytes = [], wok = True\<rparr>
      = Some (Inr (pubR, i0, i1), hi3, s, \<lparr>wbytes = encode_message m1 @ encode_message m3, wok = True\<rparr>)"
      "concat s = restI"
    by auto
  from src.responder_flow_ok [OF r(1-3) ms(1,3-6) _ assms(16), of "\<lparr>wbytes = [], wok = True\<rparr>" err]
  obtain t where t: "responder_flow (src_read err) conn_write lib pubR hr inR \<lparr>wbytes = [], wok = True\<rparr>
      = Some (Inr (pubI, r1, r0), hr3, t, \<lparr>wbytes = encode_message m2, wok = True\<rparr>)" "concat t = restR"
    by auto
  note hI = Handshake_initiator [OF assms(1,3) assms(9) [unfolded assms(5)] s(1) [unfolded assms(5)]]
  note hR = Handshake_responder [OF assms(2,4) assms(10) [unfolded assms(6)] t(1) [unfolded assms(6)]]
  show ?thesis
    using hI hR finish_ok [OF len(2), of "hs_withDefaults cI" lib i0 i1 hi3]
      finish_ok [OF len(1), of "hs_withDefaults cR" lib r1 r0 hr3]
      config_ok_defaults [OF assms(3)] config_ok_defaults [OF assms(4)] assms(7,8) i(4) r(4) s(2) t(2)
    by (auto simp: assms(5,6))
qed

text \<open>A library for the witnesses: a message is a byte in front of its payload, and the state
  remembers the static key the peer has proved to hold.\<close>

definition demo_noise :: "bytes \<Rightarrow> (bytes, nat) noise_lib" where
  "demo_noise remote =
     \<lparr>NewHandshakeState = (\<lambda>_ _ _. Some []),
      WriteMessage = (\<lambda>h p. (Some (1 # p, 0, 1), h)),
      ReadMessage = (\<lambda>h m. (Some (tl m, 0, 1), remote)),
      ChannelBinding = (\<lambda>_. [5])\<rparr>"

definition demo_hs_config :: "role \<Rightarrow> bytes option \<Rightarrow> handshake_config" where
  "demo_hs_config r pin = \<lparr>Role = r, StaticPrivate = replicate 32 3, PinnedPeer = pin,
     MaxPayload = 65536, Timeout = 0\<rparr>"

definition demo_pub :: bytes where
  "demo_pub = x25519 (replicate 32 3) basepoint"

lemma demo_config_ok: "config_ok (demo_hs_config r pin)"
  by (simp add: config_ok_def demo_hs_config_def minMaxPayload_def maxMaxPayload_def)

lemma length_demo_pub: "length demo_pub = 32"
  by (simp add: demo_pub_def)

lemma demo_handshake:
  "\<exists>res s w. Handshake (src_read EOF) conn_write (demo_noise rs) True
      (demo_hs_config RoleInitiator (Some demo_pub)) [encode_message (1 # demo_pub)]
      \<lparr>wbytes = [], wok = True\<rparr> = Some (Inr res, s, w)"
proof -
  let ?c = "demo_hs_config RoleInitiator (Some demo_pub)" and ?w = "\<lparr>wbytes = [], wok = True\<rparr>"
    and ?lib = "demo_noise rs"
  have c: "Role ?c = RoleInitiator" "PinnedPeer ?c = Some demo_pub"
    and n: "NewHandshakeState ?lib True (StaticPrivate ?c) (x25519 (StaticPrivate ?c) basepoint) = Some []"
    and m: "WriteMessage ?lib [] [] = (Some ([1], 0, 1), [])"
      "ReadMessage ?lib [] (1 # demo_pub) = (Some (demo_pub, 0, 1), rs)"
      "WriteMessage ?lib rs (x25519 (StaticPrivate ?c) basepoint) = (Some (1 # demo_pub, 0, 1), rs)"
      "1 # demo_pub \<noteq> []" "length [1 :: byte] < 2 ^ 16" "length (1 # demo_pub) < 2 ^ 16"
      "length (1 # demo_pub) < 2 ^ 16"
    and i: "concat [encode_message (1 # demo_pub)] = encode_message (1 # demo_pub) @ []" "wok ?w"
    by (simp_all add: demo_noise_def demo_hs_config_def demo_pub_def)
  from src.initiator_flow_ok [OF m TrueI i, of EOF] obtain s w where
    "initiator_flow (src_read EOF) conn_write ?lib (x25519 (StaticPrivate ?c) basepoint) []
      [encode_message (1 # demo_pub)] ?w = Some (Inr (demo_pub, 0, 1), rs, s, w)" by blast
  from Handshake_initiator [OF c(1) demo_config_ok n this]
    finish_ok [OF length_demo_pub, of "hs_withDefaults ?c" ?lib 0 1 rs]
  show ?thesis using config_ok_defaults [OF demo_config_ok] c(2) by auto
qed

theorem handshake_agrees_witness:
  "\<exists>s w. Handshake (src_read EOF) conn_write (demo_noise []) True (demo_hs_config RoleInitiator (Some demo_pub))
      [encode_message (1 # demo_pub)] \<lparr>wbytes = [], wok = True\<rparr>
    = Some (Inr \<lparr>hr_readCS = 1, hr_writeCS = 0, hr_maxPayload = 65536, SAS = ShortAuthString [5],
        PeerStatic = demo_pub\<rparr>, s, w)"
proof -
  let ?cI = "demo_hs_config RoleInitiator (Some demo_pub)" and ?cR = "demo_hs_config RoleResponder None"
  have roles: "Role ?cI = RoleInitiator" "Role ?cR = RoleResponder"
    and pub: "demo_pub = x25519 (StaticPrivate ?cI) basepoint" "demo_pub = x25519 (StaticPrivate ?cR) basepoint"
    and pins: "PinnedPeer ?cI \<in> {None, Some demo_pub}" "PinnedPeer ?cR \<in> {None, Some demo_pub}"
    and new: "NewHandshakeState (demo_noise []) True (StaticPrivate ?cI) demo_pub = Some []"
      "NewHandshakeState (demo_noise []) False (StaticPrivate ?cR) demo_pub = Some []"
    by (simp_all add: demo_hs_config_def demo_pub_def demo_noise_def)
  have xx: "xx_exchange (demo_noise []) [] [] demo_pub demo_pub [1] (1 # demo_pub) (1 # demo_pub)
      (0, 1) (0, 1) [5]"
    by (simp add: xx_exchange_def demo_noise_def)
  have ms: "hs_message [1]" "hs_message (1 # demo_pub)"
    by (simp_all add: hs_message_def length_demo_pub)
  have cat: "concat [encode_message (1 # demo_pub)] = encode_message (1 # demo_pub) @ []"
    "concat [encode_message [1] @ encode_message (1 # demo_pub)]
      = encode_message [1] @ encode_message (1 # demo_pub) @ []"
    by simp_all
  have mp: "MaxPayload ?cI = 65536" by (simp add: demo_hs_config_def)
  from handshake_agrees [OF roles demo_config_ok demo_config_ok pub pins new xx ms ms(2) cat, of EOF]
  show ?thesis unfolding mp by blast
qed

text \<open>C14: What a successful handshake guarantees. Whatever the transport and the library do, a
  result comes only from a configuration in range, carries a peer key of 32 bytes that equals the
  pinned key when there is one, and a record limit between 4 KiB and 16 MiB.\<close>

theorem handshake_result_checked:
  assumes "Handshake rd wr lib deadline_ok c s w = Some (Inr res, s', w')"
  shows "Role c \<in> {RoleInitiator, RoleResponder} \<and> length (StaticPrivate c) = 32 \<and> deadline_ok
    \<and> length (PeerStatic res) = 32 \<and> (\<forall>k. PinnedPeer c = Some k \<longrightarrow> PeerStatic res = k)
    \<and> minMaxPayload \<le> hr_maxPayload res \<and> hr_maxPayload res \<le> maxMaxPayload"
proof -
  define d where "d = hs_withDefaults c"
  have same: "Role d = Role c" "StaticPrivate d = StaticPrivate c" "PinnedPeer d = PinnedPeer c"
    by (simp_all add: d_def hs_withDefaults_def Let_def)
  from assms obtain peer cw cr h' where fin: "finish lib d peer cw cr h' = Inr res"
    and guards: "Role d = RoleInitiator \<or> Role d = RoleResponder" "length (StaticPrivate d) = 32"
      "\<not> MaxPayload d < minMaxPayload" "\<not> MaxPayload d > maxMaxPayload" "deadline_ok"
    unfolding Handshake_def d_def [symmetric] Let_def
    by (auto split: if_splits option.splits sum.splits)
  from fin have "length (PeerStatic res) = 32" "hr_maxPayload res = MaxPayload d"
    "\<forall>k. PinnedPeer d = Some k \<longrightarrow> PeerStatic res = k"
    by (auto simp: finish_def pinnedEqual_eq split: if_splits)
  with guards same show ?thesis by auto
qed

theorem handshake_result_checked_witness:
  "\<exists>res s w. Handshake (src_read EOF) conn_write (demo_noise []) True
      (demo_hs_config RoleInitiator (Some demo_pub)) [encode_message (1 # demo_pub)]
      \<lparr>wbytes = [], wok = True\<rparr> = Some (Inr res, s, w) \<and> PeerStatic res = demo_pub"
proof -
  from demo_handshake [of "[]"] obtain res s w where
    h: "Handshake (src_read EOF) conn_write (demo_noise []) True
      (demo_hs_config RoleInitiator (Some demo_pub)) [encode_message (1 # demo_pub)]
      \<lparr>wbytes = [], wok = True\<rparr> = Some (Inr res, s, w)" by blast
  from handshake_result_checked [OF this] h show ?thesis
    by (auto simp: demo_hs_config_def)
qed

text \<open>C17: The handshake always ends. Over every byte stream the peer may send, for both roles and
  whatever the library answers, Handshake returns.\<close>

theorem handshake_returns:
  shows "\<exists>res cs' w'. Handshake (src_read err) conn_write lib deadline_ok c cs w = Some (res, cs', w')"
proof -
  have recv: "\<exists>r h' s'. recv_msg (src_read err) lib k h s = Some (r, h', s')" for k h s
    using src.recv_msg_returns [OF TrueI] by metis
  have i: "\<exists>r h' s' w'. initiator_flow (src_read err) conn_write lib pub h s v = Some (r, h', s', w')"
    for pub h s v
  proof (cases "send_msg conn_write lib 1 [] h v")
    case (fields r h1 w1)
    with recv [of 2 h1 s] show ?thesis
      by (auto simp: initiator_flow_def split: sum.split prod.split)
  qed
  have r: "\<exists>r h' s' w'. responder_flow (src_read err) conn_write lib pub h s v = Some (r, h', s', w')"
    for pub h s v
  proof -
    from recv [of 1 h s] obtain x h1 s1 where
      x: "recv_msg (src_read err) lib 1 h s = Some (x, h1, s1)" by auto
    show ?thesis
    proof (cases "send_msg conn_write lib 2 pub h1 v")
      case (fields y h2 w2)
      with x recv [of 3 h2 s1] show ?thesis
        by (auto simp: responder_flow_def split: sum.split prod.split)
    qed
  qed
  have i': "initiator_flow (src_read err) conn_write lib pub h s v \<noteq> None"
    and r': "responder_flow (src_read err) conn_write lib pub h s v \<noteq> None" for pub h s v
    using i [of pub h s v] r [of pub h s v] by auto
  have "Handshake (src_read err) conn_write lib deadline_ok c cs w \<noteq> None"
    by (simp add: Handshake_def Let_def i' r' del: not_None_eq split: option.split sum.split prod.split)
  then show ?thesis by auto
qed

text \<open>C13: The pin does not authenticate the peer. The initiator compares the pinned key with the
  payload the responder chose to send, not with the static key the handshake has authenticated:
  a responder that holds any other key and sends the pinned key as its payload is accepted, and
  reported under the pinned key.\<close>

theorem pin_trusts_payload:
  assumes "Role c = RoleInitiator" and "config_ok c" and "PinnedPeer c = Some q" and "length q = 32"
    and "NewHandshakeState lib True (StaticPrivate c) (x25519 (StaticPrivate c) basepoint) = Some h"
    and "WriteMessage lib h [] = (Some (m1, x1), h1)"
    and "ReadMessage lib h1 m2 = (Some (q, x2), h2)" and "remote_static h2 \<noteq> q"
    and "WriteMessage lib h2 (x25519 (StaticPrivate c) basepoint) = (Some (m3, cs0, cs1), h3)"
    and "hs_message m1" and "hs_message m2" and "hs_message m3"
    and "concat cs = encode_message m2"
  shows "\<exists>res s w. Handshake (src_read err) conn_write lib True c cs \<lparr>wbytes = [], wok = True\<rparr>
    = Some (Inr res, s, w) \<and> PeerStatic res = q"
proof -
  have ms: "m2 \<noteq> []" "length m1 < 2 ^ 16" "length m2 < 2 ^ 16" "length m3 < 2 ^ 16"
    using assms(10-12) by (simp_all add: hs_message_def)
  from src.initiator_flow_ok [OF assms(6,7,9) ms, of cs "[]" "\<lparr>wbytes = [], wok = True\<rparr>" err] assms(13)
  obtain s w where "initiator_flow (src_read err) conn_write lib (x25519 (StaticPrivate c) basepoint) h cs
      \<lparr>wbytes = [], wok = True\<rparr> = Some (Inr (q, cs0, cs1), h3, s, w)" by auto
  from Handshake_initiator [OF assms(1,2,5) this] config_ok_defaults [OF assms(2)] assms(3)
    finish_ok [OF assms(4), of "hs_withDefaults c" lib cs0 cs1 h3]
  show ?thesis by simp
qed

theorem pin_trusts_payload_witness:
  "\<exists>res s w. Handshake (src_read EOF) conn_write (demo_noise [9, 9]) True
      (demo_hs_config RoleInitiator (Some demo_pub)) [encode_message (1 # demo_pub)]
      \<lparr>wbytes = [], wok = True\<rparr> = Some (Inr res, s, w) \<and> PeerStatic res = demo_pub"
proof -
  let ?c = "demo_hs_config RoleInitiator (Some demo_pub)" and ?lib = "demo_noise [9, 9]"
  have c: "Role ?c = RoleInitiator" "PinnedPeer ?c = Some demo_pub"
    and n: "NewHandshakeState ?lib True (StaticPrivate ?c) (x25519 (StaticPrivate ?c) basepoint) = Some []"
      "WriteMessage ?lib [] [] = (Some ([1], 0, 1), [])"
      "ReadMessage ?lib [] (1 # demo_pub) = (Some (demo_pub, 0, 1), [9, 9])"
    and w: "WriteMessage ?lib [9, 9] (x25519 (StaticPrivate ?c) basepoint) = (Some (1 # demo_pub, 0, 1), [9, 9])"
    by (simp_all add: demo_hs_config_def demo_noise_def demo_pub_def)
  have other: "id [9, 9] \<noteq> demo_pub"
  proof
    assume "id [9, 9] = demo_pub"
    then have "length demo_pub = 2" by (metis id_apply length_Cons list.size(3) numeral_2_eq_2)
    then show False by (simp add: length_demo_pub)
  qed
  have m: "hs_message [1]" "hs_message (1 # demo_pub)"
    "concat [encode_message (1 # demo_pub)] = encode_message (1 # demo_pub)"
    by (simp_all add: hs_message_def length_demo_pub)
  show ?thesis
    by (rule pin_trusts_payload [where remote_static = id and cs = "[encode_message (1 # demo_pub)]", OF c(1) demo_config_ok c(2) length_demo_pub n other w m(1,2,2,3)])
qed

end
