(* ===== verification/Journal.thy ===== *)
theory Journal
  imports Prelude Machine
begin

text \<open>
  The mutation journal, desktop/internal/failsafe/journal.go: a list of entries in memory and a
  JSON file that is replaced by write-then-rename. A file is its decoded entries, or \<open>Torn\<close>, the
  unparseable remains of an interrupted write; encoding and decoding entries is the identity.
  Whether a step of \<open>persist\<close> fails is decided by the list \<open>faults\<close> of outcomes to come, empty
  for "no more faults". An id drawn by \<open>newID\<close> is an argument of \<open>Add\<close>, the clock is left out
  (\<open>CreatedAt\<close> is only displayed).
\<close>

datatype entry_state = StatePending | StateApplied | StateRolledBack | OtherState string

record entry =
  ID :: string
  Description :: string
  Apply :: "string list"
  Undo :: "string list"
  State :: entry_state

datatype contents = Whole "entry list" | Torn

datatype persist_outcome = Persisted | WriteFailed bool | RenameFailed

record journal =
  entries :: "entry list"
  jfile :: "contents option"
  jtmp :: "contents option"
  faults :: "persist_outcome list"

datatype journal_err = PersistErr | ParseErr | UnknownEntry string | RunErr string

section \<open>Operations\<close>

text \<open>\<open>Open\<close> on the files a previous run left; \<open>mkdir\<close> and \<open>read\<close> errors are outside.\<close>

definition journal_Open :: "contents option \<Rightarrow> contents option \<Rightarrow> persist_outcome list
    \<Rightarrow> journal_err + journal" where
  "journal_Open file tmp fs =
     (case file of
        Some (Whole es) \<Rightarrow> Inr \<lparr>entries = es, jfile = file, jtmp = tmp, faults = fs\<rparr>
      | Some Torn \<Rightarrow> Inl ParseErr
      | None \<Rightarrow> Inr \<lparr>entries = [], jfile = file, jtmp = tmp, faults = fs\<rparr>)"

text \<open>
  \<open>persist\<close>: a failed write may leave the temporary file torn; a failed rename leaves it whole; a
  rename replaces the journal and removes the temporary file.
\<close>

definition next_fault :: "journal \<Rightarrow> persist_outcome" where
  "next_fault j = (case faults j of [] \<Rightarrow> Persisted | f # _ \<Rightarrow> f)"

definition persist :: "journal \<Rightarrow> journal_err option \<times> journal" where
  "persist j =
     (let j' = j\<lparr>faults := tl (faults j)\<rparr>
      in case next_fault j of
           Persisted \<Rightarrow> (None, j'\<lparr>jfile := Some (Whole (entries j)), jtmp := None\<rparr>)
         | WriteFailed torn \<Rightarrow> (Some PersistErr, if torn then j'\<lparr>jtmp := Some Torn\<rparr> else j')
         | RenameFailed \<Rightarrow> (Some PersistErr, j'\<lparr>jtmp := Some (Whole (entries j))\<rparr>))"

definition Add :: "string \<Rightarrow> string \<Rightarrow> string list \<Rightarrow> string list \<Rightarrow> journal
    \<Rightarrow> (journal_err + entry) \<times> journal" where
  "Add i description apply undo j =
     (let e = \<lparr>ID = i, Description = description, Apply = apply, Undo = undo, State = StatePending\<rparr>
      in case persist (j\<lparr>entries := entries j @ [e]\<rparr>) of
           (Some err, j') \<Rightarrow> (Inl err, j')
         | (None, j') \<Rightarrow> (Inr e, j'))"

fun set_first :: "string \<Rightarrow> entry_state \<Rightarrow> entry list \<Rightarrow> entry list" where
  "set_first i st [] = []"
| "set_first i st (e # es) = (if ID e = i then e\<lparr>State := st\<rparr> # es else e # set_first i st es)"

definition MarkState :: "string \<Rightarrow> entry_state \<Rightarrow> journal \<Rightarrow> journal_err option \<times> journal" where
  "MarkState i st j =
     (if i \<in> ID ` set (entries j) then persist (j\<lparr>entries := set_first i st (entries j)\<rparr>)
      else (Some (UnknownEntry i), j))"

definition outstanding :: "entry \<Rightarrow> bool" where
  "outstanding e \<longleftrightarrow> State e = StateApplied \<or> State e = StatePending"

definition Outstanding :: "journal \<Rightarrow> entry list" where
  "Outstanding j = filter outstanding (entries j)"

text \<open>
  \<open>RollbackAll\<close>: \<open>run\<close> executes the undo of one entry on the system, a state of any type. The loop
  goes down the outstanding entries; only an error met while \<open>firstErr\<close> is nil skips the marking.
\<close>

fun rollback_loop :: "(entry \<Rightarrow> 'w \<Rightarrow> string option \<times> 'w) \<Rightarrow> entry list \<Rightarrow> nat \<Rightarrow> journal_err option
    \<Rightarrow> journal \<Rightarrow> 'w \<Rightarrow> (nat \<times> journal_err option) \<times> journal \<times> 'w" where
  "rollback_loop run [] rolled firstErr j w = ((rolled, firstErr), j, w)"
| "rollback_loop run (e # es) rolled firstErr j w =
     (case run e w of
        (r, w') \<Rightarrow>
          (if r \<noteq> None \<and> firstErr = None
           then rollback_loop run es rolled (Some (RunErr (the r))) j w'
           else
             (case MarkState (ID e) StateRolledBack j of
                (m, j') \<Rightarrow>
                  rollback_loop run es (rolled + 1)
                    (if m \<noteq> None \<and> firstErr = None then m else firstErr) j' w')))"

definition RollbackAll :: "(entry \<Rightarrow> 'w \<Rightarrow> string option \<times> 'w) \<Rightarrow> journal \<Rightarrow> 'w
    \<Rightarrow> (nat \<times> journal_err option) \<times> journal \<times> 'w" where
  "RollbackAll run j w = rollback_loop run (rev (Outstanding j)) 0 None j w"

section \<open>Facts about the operations\<close>

lemma persist_cases:
  obtains (saved) "persist j = (None, j\<lparr>faults := tl (faults j), jfile := Some (Whole (entries j)), jtmp := None\<rparr>)"
      "next_fault j = Persisted"
  | (failed) t where "persist j = (Some PersistErr, j\<lparr>faults := tl (faults j), jtmp := t\<rparr>)"
      "next_fault j \<noteq> Persisted"
proof (cases "next_fault j")
  case (WriteFailed torn)
  then show ?thesis
    using failed [of "if torn then Some Torn else jtmp j"] by (auto simp: persist_def Let_def)
qed (use saved failed in \<open>auto simp: persist_def Let_def\<close>)

lemma ID_set_first [simp]: "map ID (set_first i st es) = map ID es"
  by (induction es) auto

lemma ids_set_first: "ID ` set (set_first i st es) = ID ` set es"
  by (metis ID_set_first list.set_map)

lemma set_first_notin: "i \<notin> ID ` set es \<Longrightarrow> set_first i st es = es"
  by (induction es) auto

lemma set_first_distinct:
  "distinct (map ID es) \<Longrightarrow> set_first i st es = map (\<lambda>e. if ID e = i then e\<lparr>State := st\<rparr> else e) es"
proof (induction es)
  case (Cons e es)
  then show ?case
    by (cases "ID e = i") (auto simp: image_iff intro!: map_idI [symmetric])
qed simp

section \<open>The journal as a machine\<close>

text \<open>
  Every operation, with any fault, and a crash at any point followed by \<open>Open\<close>. The file is then
  always a whole journal: a list of entries that were in memory at some time.
\<close>

inductive journal_step :: "journal \<Rightarrow> journal \<Rightarrow> bool" where
  add: "journal_step j (snd (Add i d a u j))"
| mark: "journal_step j (snd (MarkState i st j))"
| crash: "journal_Open (jfile j) t fs = Inr j' \<Longrightarrow> journal_step j j'"

definition fresh_journal :: "journal \<Rightarrow> bool" where
  "fresh_journal j \<longleftrightarrow> entries j = [] \<and> jfile j = None"

definition file_whole :: "journal \<Rightarrow> bool" where
  "file_whole j \<longleftrightarrow> jfile j \<noteq> Some Torn"

lemma persist_whole: "file_whole j \<Longrightarrow> file_whole (snd (persist j))"
  by (rule persist_cases [of j]) (simp_all add: file_whole_def)

lemma snd_Add:
  "snd (Add i d a u j) = snd (persist (j\<lparr>entries := entries j @
     [\<lparr>ID = i, Description = d, Apply = a, Undo = u, State = StatePending\<rparr>]\<rparr>))"
  by (simp add: Add_def Let_def split: prod.split option.split)

interpretation jrn: machine fresh_journal journal_step file_whole
proof
  fix j j' :: journal
  assume "file_whole j" and "journal_step j j'"
  from this(2,1) show "file_whole j'"
  proof (induction rule: journal_step.induct)
    case (add j i d a u)
    then show ?case unfolding snd_Add by (intro persist_whole) (simp add: file_whole_def)
  next
    case (mark j i st)
    have "file_whole (j\<lparr>entries := set_first i st (entries j)\<rparr>)"
      using mark by (simp add: file_whole_def)
    with mark persist_whole [OF this] show ?case by (simp add: MarkState_def)
  next
    case (crash j t fs j')
    then show ?case
      by (auto simp: journal_Open_def file_whole_def split: option.splits contents.splits)
  qed
qed (simp add: fresh_journal_def file_whole_def)

section \<open>Rolling back\<close>

text \<open>The loop when every undo succeeds and every write persists.\<close>

lemma rollback_loop_all:
  assumes "faults j = []" and "\<forall>e\<in>set es. ID e \<in> ID ` set (entries j)"
    and "\<forall>e\<in>set es. \<forall>v. fst (run e v) = None"
  shows "\<exists>j'. rollback_loop run es rolled None j w
      = ((rolled + length es, None), j', fold (\<lambda>e v. snd (run e v)) es w)
    \<and> entries j' = fold (\<lambda>e. set_first (ID e) StateRolledBack) es (entries j)
    \<and> faults j' = [] \<and> (es \<noteq> [] \<longrightarrow> jfile j' = Some (Whole (entries j')))"
  using assms
proof (induction es arbitrary: j rolled w)
  case (Cons e es)
  define j1 where "j1 = j\<lparr>entries := set_first (ID e) StateRolledBack (entries j),
      jfile := Some (Whole (set_first (ID e) StateRolledBack (entries j))), jtmp := None\<rparr>"
  have mark: "MarkState (ID e) StateRolledBack j = (None, j1)"
    using Cons.prems(1,2) by (simp add: MarkState_def persist_def next_fault_def j1_def)
  have "fst (run e w) = None" using Cons.prems(3) by simp
  then obtain w1 where w1: "run e w = (None, w1)" by (cases "run e w") auto
  from Cons.IH [of j1 "rolled + 1" w1] Cons.prems obtain j' where
    j': "rollback_loop run es (rolled + 1) None j1 w1
        = ((rolled + 1 + length es, None), j', fold (\<lambda>e v. snd (run e v)) es w1)"
      "entries j' = fold (\<lambda>e. set_first (ID e) StateRolledBack) es (entries j1)"
      "faults j' = []" "es \<noteq> [] \<longrightarrow> jfile j' = Some (Whole (entries j'))"
    by (auto simp: j1_def ids_set_first)
  have "es = [] \<Longrightarrow> jfile j' = Some (Whole (entries j'))" using j'(1) by (auto simp: j1_def)
  with j' mark w1 show ?case by (auto simp: j1_def)
qed simp

lemma fold_set_first:
  assumes "distinct (map ID xs)"
  shows "fold (\<lambda>e. set_first (ID e) st) es xs
    = map (\<lambda>x. if ID x \<in> ID ` set es then x\<lparr>State := st\<rparr> else x) xs"
  using assms
proof (induction es arbitrary: xs)
  case (Cons e es)
  have "distinct (map ID (set_first (ID e) st xs))" using Cons.prems by simp
  from Cons.IH [OF this] Cons.prems show ?case
    by (simp add: set_first_distinct comp_def)
qed simp

text \<open>Rollback with a working file and undos that succeed.\<close>

lemma RollbackAll_all:
  assumes "distinct (map ID (entries j))" and "faults j = []"
    and "\<forall>e\<in>set (Outstanding j). \<forall>v. fst (run e v) = None"
  shows "\<exists>j'. RollbackAll run j w
      = ((length (Outstanding j), None), j', fold (\<lambda>e v. snd (run e v)) (rev (Outstanding j)) w)
    \<and> Outstanding j' = [] \<and> map ID (entries j') = map ID (entries j) \<and> faults j' = []
    \<and> (Outstanding j \<noteq> [] \<longrightarrow> jfile j' = Some (Whole (entries j')))
    \<and> (\<forall>v. RollbackAll run j' v = ((0, None), j', v))"
proof -
  have "\<forall>e\<in>set (rev (Outstanding j)). ID e \<in> ID ` set (entries j)"
    "\<forall>e\<in>set (rev (Outstanding j)). \<forall>v. fst (run e v) = None"
    using assms(3) by (auto simp: Outstanding_def)
  from rollback_loop_all [OF assms(2) this, of 0 w] obtain j' where
    j': "RollbackAll run j w
      = ((length (Outstanding j), None), j', fold (\<lambda>e v. snd (run e v)) (rev (Outstanding j)) w)"
      "entries j' = fold (\<lambda>e. set_first (ID e) StateRolledBack) (rev (Outstanding j)) (entries j)"
      "Outstanding j \<noteq> [] \<longrightarrow> jfile j' = Some (Whole (entries j'))" "faults j' = []"
    by (auto simp: RollbackAll_def)
  have es: "entries j' = map (\<lambda>x. if ID x \<in> ID ` set (Outstanding j)
      then x\<lparr>State := StateRolledBack\<rparr> else x) (entries j)"
    using fold_set_first [OF assms(1), of StateRolledBack "rev (Outstanding j)"] j'(2) by simp
  then have out: "Outstanding j' = []"
    by (auto simp: Outstanding_def filter_empty_conv outstanding_def)
  have "map ID (entries j') = map ID (entries j)" by (simp add: es)
  with j'(1,3,4) out show ?thesis by (auto simp: RollbackAll_def)
qed

end
