(* ===== verification/Sysroute.thy ===== *)
theory Sysroute
  imports Journal Go_Strings
begin

unbundle bit_operations_syntax

text \<open>
  The network manager, desktop/internal/sysroute/manager.go: \<open>Manager\<close> applies a desired network
  state through a \<open>NetConfigurer\<close>, journaling each mutation, and undoes what the journal holds;
  \<open>NetshConfigurer\<close> is the Windows implementation. The operating system is a state of any type:
  a configurer's calls and the command runner are functions on it. An error is its message.
\<close>

record InterfaceInfo =
  Name :: string
  IfDescription :: string

record ipnet =
  net_IP :: ip
  net_Ones :: nat
  net_Mask :: ip

definition ipnet_String :: "ipnet \<Rightarrow> string" where
  "ipnet_String n = ip_String (net_IP n) @ ''/'' @ nat_dec (net_Ones n)"

record 'w NetConfigurer =
  SetInterfaceIP :: "string \<Rightarrow> ip \<Rightarrow> int \<Rightarrow> 'w \<Rightarrow> (string + string list) \<times> 'w"
  AddRoute :: "ipnet \<Rightarrow> string \<Rightarrow> int \<Rightarrow> 'w \<Rightarrow> (string + string list \<times> string list) \<times> 'w"
  SetDNS :: "string \<Rightarrow> ip list \<Rightarrow> 'w \<Rightarrow> (string + string list \<times> string list) \<times> 'w"
  ListInterfaces :: "'w \<Rightarrow> (string + InterfaceInfo list) \<times> 'w"

section \<open>NetshConfigurer\<close>

text \<open>Running a command: its combined output and its error, from the operating system.\<close>

type_synonym 'w os_exec = "string list \<Rightarrow> 'w \<Rightarrow> (string \<times> string option) \<times> 'w"

definition run_command :: "'w os_exec \<Rightarrow> string list \<Rightarrow> 'w \<Rightarrow> string option \<times> 'w" where
  "run_command exec argv w =
     (case exec argv w of
        ((out, None), w') \<Rightarrow> (None, w')
      | ((out, Some err), w') \<Rightarrow>
          (Some (''sysroute: '' @ hd argv @ '' '' @ Join (tl argv) '' '' @ '': '' @ err @ '': ''
                 @ TrimSpace out), w'))"

definition name_arg :: "string \<Rightarrow> string" where
  "name_arg iface = ''name='' @ quote iface"

definition netsh_dhcp :: "string \<Rightarrow> string \<Rightarrow> string list" where
  "netsh_dhcp what iface =
     [''netsh'', ''interface'', ''ip'', ''set'', what, name_arg iface, ''source=dhcp'']"

definition netsh_SetInterfaceIP :: "'w os_exec \<Rightarrow> string \<Rightarrow> ip \<Rightarrow> int \<Rightarrow> 'w
    \<Rightarrow> (string + string list) \<times> 'w" where
  "netsh_SetInterfaceIP exec iface ip prefixLen w =
     (case run_command exec
        [''netsh'', ''interface'', ''ip'', ''set'', ''address'', name_arg iface, ''source=static'',
         ''addr='' @ ip_String ip, ''mask=255.255.255.255''] w of
        (Some err, w') \<Rightarrow> (Inl err, w')
      | (None, w') \<Rightarrow> (Inr (netsh_dhcp ''address'' iface), w'))"

definition netsh_AddRoute :: "'w os_exec \<Rightarrow> ipnet \<Rightarrow> string \<Rightarrow> int \<Rightarrow> 'w
    \<Rightarrow> (string + string list \<times> string list) \<times> 'w" where
  "netsh_AddRoute exec dst iface metric w =
     (let mask = ip_String (net_Mask dst); dstStr = ip_String (net_IP dst);
          apply = [''route'', ''add'', dstStr, ''mask'', mask, dstStr, ''metric'', Itoa metric,
                   ''if'', iface];
          undoCmd = [''route'', ''delete'', dstStr]
      in case run_command exec apply w of
           (Some err, w') \<Rightarrow> (Inl err, w')
         | (None, w') \<Rightarrow> (Inr (apply, undoCmd), w'))"

text \<open>\<open>SetDNS\<close>, from server number \<open>i\<close> on; on an error the code's partial results are ignored by
  every caller.\<close>

fun netsh_dns_loop :: "'w os_exec \<Rightarrow> string \<Rightarrow> nat \<Rightarrow> ip list \<Rightarrow> string list \<Rightarrow> 'w
    \<Rightarrow> (string + string list) \<times> 'w" where
  "netsh_dns_loop exec iface i [] apply w = (Inr apply, w)"
| "netsh_dns_loop exec iface i (s # ss) apply w =
     (let cmd = (if i = 0
                 then [''netsh'', ''interface'', ''ip'', ''set'', ''dns'', name_arg iface, ''static'',
                       ip_String s, ''primary'']
                 else [''netsh'', ''interface'', ''ip'', ''add'', ''dns'', name_arg iface, ip_String s,
                       ''index='' @ nat_dec (i + 1)])
      in case run_command exec cmd w of
           (Some err, w') \<Rightarrow> (Inl err, w')
         | (None, w') \<Rightarrow>
             netsh_dns_loop exec iface (Suc i) ss (apply @ [Join cmd '' '']) w')"

definition netsh_SetDNS :: "'w os_exec \<Rightarrow> string \<Rightarrow> ip list \<Rightarrow> 'w
    \<Rightarrow> (string + string list \<times> string list) \<times> 'w" where
  "netsh_SetDNS exec iface servers w =
     (case netsh_dns_loop exec iface 0 servers [] w of
        (Inl err, w') \<Rightarrow> (Inl err, w')
      | (Inr apply, w') \<Rightarrow> (Inr (apply, netsh_dhcp ''dns'' iface), w'))"

definition interface_line :: "string \<Rightarrow> InterfaceInfo option" where
  "interface_line line =
     (let fields = Fields line
      in if length fields < 5 then None
         else if fields ! 0 \<noteq> ''connected'' \<and> fields ! 0 \<noteq> ''disconnected'' then None
         else Some \<lparr>Name = Join (drop 4 fields) '' '', IfDescription = []\<rparr>)"

definition netsh_ListInterfaces :: "'w os_exec \<Rightarrow> 'w \<Rightarrow> (string + InterfaceInfo list) \<times> 'w" where
  "netsh_ListInterfaces exec w =
     (case exec [''netsh'', ''interface'', ''ipv4'', ''show'', ''interfaces''] w of
        ((out, Some err), w') \<Rightarrow> (Inl (''sysroute: list interfaces: '' @ err), w')
      | ((out, None), w') \<Rightarrow> (Inr (List.map_filter interface_line (split_char (CHR 0x0A) out)), w'))"

definition NetshConfigurer :: "'w os_exec \<Rightarrow> 'w NetConfigurer" where
  "NetshConfigurer exec =
     \<lparr>SetInterfaceIP = netsh_SetInterfaceIP exec, AddRoute = netsh_AddRoute exec,
      SetDNS = netsh_SetDNS exec, ListInterfaces = netsh_ListInterfaces exec\<rparr>"

section \<open>The manager\<close>

record Desired =
  AdapterName :: string
  TunnelIP :: ip
  TunnelPrefixLen :: int
  DefaultRouteMetric :: int
  DNS :: "ip list"
  RewritePhysicalDNS :: bool

datatype manager_err =
  NilConfigurer | ConfigurerErr string string | JournalErr journal_err

text \<open>
  A step of \<open>Apply\<close> works on the journal and the system; the next step runs only after success.
  \<open>gen\<close> draws the id of a new entry.
\<close>

type_synonym 'w step_fn = "journal \<times> 'w \<Rightarrow> manager_err option \<times> journal \<times> 'w"

definition and_then :: "'w step_fn \<Rightarrow> 'w step_fn \<Rightarrow> 'w step_fn" where
  "and_then f g s = (case f s of (None, s') \<Rightarrow> g s' | (Some err, s') \<Rightarrow> (Some err, s'))"

definition done_step :: "'w step_fn" where
  "done_step s = (None, s)"

definition for_each :: "('a \<Rightarrow> 'w step_fn) \<Rightarrow> 'a list \<Rightarrow> 'w step_fn" where
  "for_each f xs = foldr (\<lambda>x g. and_then (f x) g) xs done_step"

text \<open>The call of the configurer, then the journal entry.\<close>

definition mutate :: "(journal \<Rightarrow> string) \<Rightarrow> string \<Rightarrow> string
    \<Rightarrow> ('w \<Rightarrow> (string + string list \<times> string list) \<times> 'w) \<Rightarrow> 'w step_fn" where
  "mutate gen what description call s =
     (case call (snd s) of
        (Inl err, w) \<Rightarrow> (Some (ConfigurerErr what err), fst s, w)
      | (Inr (apply, undo), w) \<Rightarrow>
          (case Add (gen (fst s)) description apply undo (fst s) of
             (Inl err, j) \<Rightarrow> (Some (JournalErr err), j, w)
           | (Inr _, j) \<Rightarrow> (None, j, w)))"

definition default_routes :: "ipnet list" where
  "default_routes =
     [\<lparr>net_IP = v4_prefix @ [0, 0, 0, 0], net_Ones = 0, net_Mask = replicate 4 0\<rparr>,
      \<lparr>net_IP = replicate 16 0, net_Ones = 0, net_Mask = replicate 16 0\<rparr>]"

definition step_address :: "(journal \<Rightarrow> string) \<Rightarrow> 'w NetConfigurer \<Rightarrow> Desired \<Rightarrow> 'w step_fn" where
  "step_address gen c d =
     mutate gen ''sysroute: set interface ip'' (''interface address '' @ ip_String (TunnelIP d))
       (\<lambda>w. case SetInterfaceIP c (AdapterName d) (TunnelIP d) (TunnelPrefixLen d) w of
              (Inl err, w') \<Rightarrow> (Inl err, w')
            | (Inr undo, w') \<Rightarrow> (Inr ([''netsh set address''], undo), w'))"

definition step_route :: "(journal \<Rightarrow> string) \<Rightarrow> 'w NetConfigurer \<Rightarrow> Desired \<Rightarrow> ipnet \<Rightarrow> 'w step_fn" where
  "step_route gen c d dst =
     mutate gen (''sysroute: add route '' @ ipnet_String dst) (''route '' @ ipnet_String dst)
       (AddRoute c dst (AdapterName d) (DefaultRouteMetric d))"

definition step_tunnel_dns :: "(journal \<Rightarrow> string) \<Rightarrow> 'w NetConfigurer \<Rightarrow> Desired \<Rightarrow> 'w step_fn" where
  "step_tunnel_dns gen c d =
     (if length (DNS d) > 0
      then mutate gen ''sysroute: set tunnel dns'' ''tunnel dns'' (SetDNS c (AdapterName d) (DNS d))
      else done_step)"

definition step_physical_dns :: "(journal \<Rightarrow> string) \<Rightarrow> 'w NetConfigurer \<Rightarrow> Desired \<Rightarrow> 'w step_fn" where
  "step_physical_dns gen c d s =
     (if RewritePhysicalDNS d
      then (case ListInterfaces c (snd s) of
              (Inl err, w) \<Rightarrow> (Some (ConfigurerErr [] err), fst s, w)
            | (Inr ifaces, w) \<Rightarrow>
                for_each (\<lambda>i.
                  if Name i = AdapterName d then done_step
                  else mutate gen (''sysroute: rewrite dns on '' @ quote (Name i))
                         (''physical dns '' @ Name i) (SetDNS c (Name i) (DNS d)))
                  ifaces (fst s, w))
      else done_step s)"

definition Manager_Apply :: "(journal \<Rightarrow> string) \<Rightarrow> 'w NetConfigurer option \<Rightarrow> Desired \<Rightarrow> 'w step_fn" where
  "Manager_Apply gen configurer d s =
     (case configurer of
        None \<Rightarrow> (Some NilConfigurer, s)
      | Some c \<Rightarrow>
          and_then (step_address gen c d)
            (and_then (for_each (step_route gen c d) default_routes)
              (and_then (step_tunnel_dns gen c d) (step_physical_dns gen c d))) s)"

text \<open>The undo of an entry: each string is a command line, split into fields and run.\<close>

fun run_undo :: "(string list \<Rightarrow> 'w \<Rightarrow> string option \<times> 'w) \<Rightarrow> string list \<Rightarrow> 'w \<Rightarrow> string option \<times> 'w" where
  "run_undo runFn [] w = (None, w)"
| "run_undo runFn (cmd # cmds) w =
     (let fields = Fields cmd
      in if length fields = 0 then run_undo runFn cmds w
         else (case runFn fields w of
                 (Some err, w') \<Rightarrow> (Some err, w')
               | (None, w') \<Rightarrow> run_undo runFn cmds w'))"

definition Manager_Rollback :: "(string list \<Rightarrow> 'w \<Rightarrow> string option \<times> 'w) \<Rightarrow> journal \<Rightarrow> 'w
    \<Rightarrow> (nat \<times> journal_err option) \<times> journal \<times> 'w" where
  "Manager_Rollback runFn j w = RollbackAll (\<lambda>e. run_undo runFn (Undo e)) j w"

definition Manager_Reconcile :: "(string list \<Rightarrow> 'w \<Rightarrow> string option \<times> 'w) \<Rightarrow> journal \<Rightarrow> 'w
    \<Rightarrow> (nat \<times> journal_err option) \<times> journal \<times> 'w" where
  "Manager_Reconcile runFn j w = RollbackAll (\<lambda>e. run_undo runFn (Undo e)) j w"

end
