(* ===== verification/Rollback_Properties.thy ===== *)
theory Rollback_Properties
  imports Sysroute
begin

unbundle bit_operations_syntax

text \<open>
  The properties of the journal and the network manager: an acknowledged mutation survives
  crashes until it is rolled back, rollback undoes in reverse order and is idempotent, \<open>Apply\<close>
  journals every mutation it makes, and two defects of the rollback path.
\<close>

section \<open>The journal survives crashes\<close>

text \<open>
  The journal remembers the mutation \<open>i\<close>, in memory and in its file. Steps that do not mark \<open>i\<close>
  keep it so, with any fault of the file system and any crash.
\<close>

definition holds :: "string \<Rightarrow> entry list \<Rightarrow> bool" where
  "holds i es \<longleftrightarrow> (\<exists>e\<in>set es. ID e = i \<and> outstanding e)"

definition remembers :: "string \<Rightarrow> journal \<Rightarrow> bool" where
  "remembers i j \<longleftrightarrow> holds i (entries j) \<and> (\<exists>es. jfile j = Some (Whole es) \<and> holds i es)"

inductive quiet_step :: "string \<Rightarrow> journal \<Rightarrow> journal \<Rightarrow> bool" for i where
  add: "quiet_step i j (snd (Add k d a u j))"
| mark: "k \<noteq> i \<Longrightarrow> quiet_step i j (snd (MarkState k st j))"
| crash: "journal_Open (jfile j) t fs = Inr j' \<Longrightarrow> quiet_step i j j'"

lemma holds_append: "holds i es \<Longrightarrow> holds i (es @ fs)"
  by (auto simp: holds_def)

lemma holds_set_first: "k \<noteq> i \<Longrightarrow> holds i (set_first k st es) = holds i es"
  by (induction es) (auto simp: holds_def)

lemma persist_remembers:
  assumes "holds i (entries j)" and "\<exists>es. jfile j = Some (Whole es) \<and> holds i es"
  shows "remembers i (snd (persist j))"
  by (rule persist_cases [of j]) (use assms in \<open>auto simp: remembers_def\<close>)

interpretation kept: machine "remembers i" "quiet_step i" "remembers i" for i
proof
  fix j j' :: journal
  assume "remembers i j" and "quiet_step i j j'"
  from this(2,1) show "remembers i j'"
  proof (induction rule: quiet_step.induct)
    case (add j k d a u)
    then show ?case unfolding snd_Add
      by (intro persist_remembers) (auto simp: remembers_def holds_append)
  next
    case (mark k j st)
    have "remembers i (snd (persist (j\<lparr>entries := set_first k st (entries j)\<rparr>)))"
      using mark by (intro persist_remembers) (auto simp: remembers_def holds_set_first)
    with mark show ?case by (simp add: MarkState_def)
  next
    case (crash j t fs j')
    then show ?case by (auto simp: remembers_def journal_Open_def)
  qed
qed simp

text \<open>C18: An acknowledged mutation is never forgotten. Once Add has returned without an error, the
  entry is outstanding in the journal of every later run, through any further operations that do
  not mark it, any failure to write or rename the file, and any crash with a reload; so a later
  RollbackAll will find it.\<close>

theorem journal_durable:
  assumes "Add i description apply undo j = (Inr e, j1)" and "(quiet_step i)\<^sup>*\<^sup>* j1 j2"
  shows "\<exists>e'\<in>set (Outstanding j2). ID e' = i"
proof -
  have "remembers i j1"
    using assms(1) by (cases rule: persist_cases [of "j\<lparr>entries := entries j @
        [\<lparr>ID = i, Description = description, Apply = apply, Undo = undo, State = StatePending\<rparr>]\<rparr>"])
      (auto simp: Add_def Let_def remembers_def holds_def outstanding_def)
  from kept.invariant [OF this assms(2)] show ?thesis
    by (auto simp: remembers_def holds_def Outstanding_def)
qed

definition empty_journal :: "persist_outcome list \<Rightarrow> journal" where
  "empty_journal fs = \<lparr>entries = [], jfile = None, jtmp = None, faults = fs\<rparr>"

theorem journal_durable_witness:
  "\<exists>e1 j1 j2. Add ''a'' ''route'' [] [''undo''] (empty_journal [Persisted, WriteFailed True]) = (Inr e1, j1)
    \<and> (quiet_step ''a'')\<^sup>*\<^sup>* j1 j2 \<and> (\<exists>e\<in>set (Outstanding j2). ID e = ''a'')"
proof -
  obtain e1 j1 where a: "Add ''a'' ''route'' [] [''undo''] (empty_journal [Persisted, WriteFailed True]) = (Inr e1, j1)"
    by (simp add: Add_def empty_journal_def persist_def next_fault_def Let_def)
  have steps: "(quiet_step ''a'')\<^sup>*\<^sup>* j1 (snd (Add ''b'' ''dns'' [] [] j1))"
    by (intro r_into_rtranclp quiet_step.add)
  from journal_durable [OF a steps] a steps show ?thesis by blast
qed

section \<open>Rollback\<close>

text \<open>C20: Rollback undoes everything, last first, once. With distinct ids, a file that can be
  written and undos that succeed, RollbackAll runs the undo of every outstanding entry exactly
  once in reverse order of application, counts them all, leaves nothing outstanding in memory or
  on disk, and a second RollbackAll runs nothing.\<close>

theorem rollback_reverses:
  assumes "distinct (map ID (entries j))" and "faults j = []"
    and "\<forall>e\<in>set (Outstanding j). \<forall>v. fst (run e v) = None"
  shows "\<exists>j'. RollbackAll run j w
      = ((length (Outstanding j), None), j', fold (\<lambda>e v. snd (run e v)) (rev (Outstanding j)) w)
    \<and> Outstanding j' = [] \<and> map ID (entries j') = map ID (entries j)
    \<and> (Outstanding j \<noteq> [] \<longrightarrow> jfile j' = Some (Whole (entries j')))
    \<and> (\<forall>v. RollbackAll run j' v = ((0, None), j', v))"
  using RollbackAll_all [OF assms] by blast

definition demo_journal :: journal where
  "demo_journal = \<lparr>entries = [\<lparr>ID = ''a'', Description = [], Apply = [], Undo = [''u1''], State = StatePending\<rparr>,
      \<lparr>ID = ''b'', Description = [], Apply = [], Undo = [''u2''], State = StateApplied\<rparr>],
     jfile = None, jtmp = None, faults = []\<rparr>"

theorem rollback_reverses_witness:
  "\<exists>j'. RollbackAll (\<lambda>e w. (None, w @ Undo e)) demo_journal [] = ((2, None), j', [''u2'', ''u1''])
    \<and> Outstanding j' = []"
proof -
  have "distinct (map ID (entries demo_journal))" "faults demo_journal = []"
    "\<forall>e\<in>set (Outstanding demo_journal). \<forall>v. fst ((\<lambda>e w. (None, w @ Undo e)) e v) = None"
    by (simp_all add: demo_journal_def)
  from rollback_reverses [OF this, of "[]"] show ?thesis
    by (auto simp: demo_journal_def Outstanding_def outstanding_def)
qed

text \<open>The second undo that fails is lost. RollbackAll skips the marking only for the first
  error: when the undos of two outstanding entries both fail, the later entry stays outstanding,
  but the earlier one is counted and marked as rolled back, on disk too, although its mutation is
  still in force; no later rollback will try it again.\<close>

lemma rollback_second_failure_lost:
  assumes "entries j = [e1, e2]" and "outstanding e1" and "outstanding e2" and "ID e1 \<noteq> ID e2"
    and "faults j = []" and "run e2 w = (Some r2, w2)" and "run e1 w2 = (Some r1, w1)"
  shows "\<exists>j'. RollbackAll run j w = ((1, Some (RunErr r2)), j', w1)
    \<and> Outstanding j' = [e2] \<and> jfile j' = Some (Whole [e1\<lparr>State := StateRolledBack\<rparr>, e2])"
  using assms
  by (auto simp: RollbackAll_def Outstanding_def MarkState_def persist_def next_fault_def Let_def
      outstanding_def)

lemma rollback_second_failure_lost_example:
  "\<exists>j'. RollbackAll (\<lambda>e w. (Some ''fail'', ())) demo_journal () = ((1, Some (RunErr ''fail'')), j', ())
    \<and> map ID (Outstanding j') = [''b'']"
  using rollback_second_failure_lost [of demo_journal "entries demo_journal ! 0" "entries demo_journal ! 1"
      "\<lambda>e w. (Some ''fail'', ())" "()" "''fail''" "()" "''fail''" "()"]
  by (auto simp: demo_journal_def outstanding_def)

section \<open>Apply journals what it does\<close>

text \<open>A configurer that records the undo of every mutation it makes.\<close>

definition log_undo :: "(string + 'u) \<times> 'w \<Rightarrow> ('u \<Rightarrow> string list) \<Rightarrow> string list list
    \<Rightarrow> (string + 'u) \<times> 'w \<times> string list list" where
  "log_undo r undo log =
     (case r of (Inl e, w) \<Rightarrow> (Inl e, w, log) | (Inr x, w) \<Rightarrow> (Inr x, w, log @ [undo x]))"

definition logged :: "'w NetConfigurer \<Rightarrow> ('w \<times> string list list) NetConfigurer" where
  "logged c =
     \<lparr>SetInterfaceIP = (\<lambda>i a n (w, log). log_undo (SetInterfaceIP c i a n w) (\<lambda>u. u) log),
      AddRoute = (\<lambda>d i m (w, log). log_undo (AddRoute c d i m w) snd log),
      SetDNS = (\<lambda>i ss (w, log). log_undo (SetDNS c i ss w) snd log),
      ListInterfaces = (\<lambda>(w, log). case ListInterfaces c w of (r, w') \<Rightarrow> (r, w', log))\<rparr>"

definition journals :: "('w \<times> string list list) step_fn \<Rightarrow> bool" where
  "journals f \<longleftrightarrow>
     (\<forall>j w log r j' w' log'. faults j = [] \<longrightarrow> f (j, w, log) = (r, j', w', log') \<longrightarrow>
        faults j' = [] \<and>
        (\<exists>es. entries j' = entries j @ es \<and> log' = log @ map Undo es \<and>
           (\<forall>e\<in>set es. State e = StatePending) \<and>
           jfile j' = (if es = [] then jfile j else Some (Whole (entries j')))))"

lemma journals_done: "journals done_step"
  by (auto simp: journals_def done_step_def)

lemma journals_and_then:
  assumes f: "journals f" and g: "journals g"
  shows "journals (and_then f g)"
  unfolding journals_def
proof (intro allI impI)
  fix j w log r j' w' log'
  assume nf: "faults j = []" and run: "and_then f g (j, w, log) = (r, j', w', log')"
  obtain r1 j1 w1 log1 where f1: "f (j, w, log) = (r1, j1, w1, log1)" by (metis prod_cases4)
  from f [unfolded journals_def, rule_format, OF nf f1] obtain es where
    es: "faults j1 = []" "entries j1 = entries j @ es" "log1 = log @ map Undo es"
      "\<forall>e\<in>set es. State e = StatePending"
      "jfile j1 = (if es = [] then jfile j else Some (Whole (entries j1)))"
    by blast
  show "faults j' = [] \<and> (\<exists>es. entries j' = entries j @ es \<and> log' = log @ map Undo es \<and>
      (\<forall>e\<in>set es. State e = StatePending) \<and>
      jfile j' = (if es = [] then jfile j else Some (Whole (entries j'))))"
  proof (cases r1)
    case (Some e)
    with run f1 es show ?thesis by (auto simp: and_then_def)
  next
    case None
    with run f1 have g1: "g (j1, w1, log1) = (r, j', w', log')" by (simp add: and_then_def)
    from g [unfolded journals_def, rule_format, OF es(1) g1] obtain fs where
      fs: "faults j' = []" "entries j' = entries j1 @ fs" "log' = log1 @ map Undo fs"
        "\<forall>e\<in>set fs. State e = StatePending"
        "jfile j' = (if fs = [] then jfile j1 else Some (Whole (entries j')))"
      by blast
    from fs es show ?thesis by (intro conjI exI [of _ "es @ fs"]) auto
  qed
qed

lemma journals_for_each: "(\<And>x. journals (f x)) \<Longrightarrow> journals (for_each f xs)"
  unfolding for_each_def by (induction xs) (auto intro: journals_and_then journals_done)

definition logs_call :: "('w \<times> string list list \<Rightarrow> (string + string list \<times> string list) \<times> 'w \<times> string list list) \<Rightarrow> bool" where
  "logs_call call \<longleftrightarrow>
     (\<forall>w log r w' log'. call (w, log) = (r, w', log') \<longrightarrow>
        log' = (case r of Inl _ \<Rightarrow> log | Inr (a, u) \<Rightarrow> log @ [u]))"

lemma Add_no_fault:
  "faults j = [] \<Longrightarrow> Add i d a u j = (Inr \<lparr>ID = i, Description = d, Apply = a, Undo = u, State = StatePending\<rparr>,
    j\<lparr>entries := entries j @ [\<lparr>ID = i, Description = d, Apply = a, Undo = u, State = StatePending\<rparr>],
      jfile := Some (Whole (entries j @ [\<lparr>ID = i, Description = d, Apply = a, Undo = u, State = StatePending\<rparr>])),
      jtmp := None\<rparr>)"
  by (simp add: Add_def persist_def next_fault_def Let_def)

lemma journals_mutate:
  assumes "logs_call call"
  shows "journals (mutate gen what d call)"
  unfolding journals_def
proof (intro allI impI)
  fix j w log r j' w' log'
  assume nf: "faults j = []" and run: "mutate gen what d call (j, w, log) = (r, j', w', log')"
  obtain x v l where call: "call (w, log) = (x, v, l)" by (metis prod_cases3)
  from assms call have l: "l = (case x of Inl _ \<Rightarrow> log | Inr (a, u) \<Rightarrow> log @ [u])"
    unfolding logs_call_def by blast
  show "faults j' = [] \<and> (\<exists>es. entries j' = entries j @ es \<and> log' = log @ map Undo es \<and>
      (\<forall>e\<in>set es. State e = StatePending) \<and>
      jfile j' = (if es = [] then jfile j else Some (Whole (entries j'))))"
  proof (cases x)
    case (Inl e)
    with run nf l call show ?thesis by (simp add: mutate_def)
  next
    case (Inr y)
    obtain a u where y: "y = (a, u)" by fastforce
    define e where "e = \<lparr>ID = gen j, Description = d, Apply = a, Undo = u, State = StatePending\<rparr>"
    from run call Inr y have
      "j' = j\<lparr>entries := entries j @ [e], jfile := Some (Whole (entries j @ [e])), jtmp := None\<rparr>"
      "log' = log @ [u]"
      using l by (simp_all add: mutate_def Add_no_fault [OF nf] e_def)
    with nf show ?thesis by (intro conjI exI [of _ "[e]"]) (simp_all add: e_def)
  qed
qed

lemma log_undo_log:
  "log_undo r undo log = (x, w, log') \<Longrightarrow> log' = (case x of Inl _ \<Rightarrow> log | Inr y \<Rightarrow> log @ [undo y])"
  by (cases r; cases "fst r") (auto simp: log_undo_def)

lemma logged_simps:
  "AddRoute (logged c) dst i m (w, log) = log_undo (AddRoute c dst i m w) snd log"
  "SetDNS (logged c) i ss (w, log) = log_undo (SetDNS c i ss w) snd log"
  "SetInterfaceIP (logged c) i a n (w, log) = log_undo (SetInterfaceIP c i a n w) (\<lambda>u. u) log"
  "ListInterfaces (logged c) (w, log) = (case ListInterfaces c w of (r, w') \<Rightarrow> (r, w', log))"
  by (simp_all add: logged_def)

lemma logs_logged:
  "logs_call (AddRoute (logged c) dst i m)" "logs_call (SetDNS (logged c) i ss)"
  "logs_call (\<lambda>s. case SetInterfaceIP (logged c) i a n s of
      (Inl err, w') \<Rightarrow> (Inl err, w') | (Inr undo, w') \<Rightarrow> (Inr (x, undo), w'))"
proof -
  show "logs_call (AddRoute (logged c) dst i m)" "logs_call (SetDNS (logged c) i ss)"
    unfolding logs_call_def logged_simps
    by (auto dest!: log_undo_log split: sum.split)
  show "logs_call (\<lambda>s. case SetInterfaceIP (logged c) i a n s of
      (Inl err, w') \<Rightarrow> (Inl err, w') | (Inr undo, w') \<Rightarrow> (Inr (x, undo), w'))"
    unfolding logs_call_def logged_simps
    by (auto dest!: log_undo_log split: sum.splits prod.splits)
qed

lemma journals_physical: "journals (step_physical_dns gen (logged c) d)"
  unfolding journals_def
proof (intro allI impI)
  fix j w log r j' w' log'
  assume nf: "faults j = []" and run: "step_physical_dns gen (logged c) d (j, w, log) = (r, j', w', log')"
  let ?f = "\<lambda>i. if Name i = AdapterName d then done_step
      else mutate gen (''sysroute: rewrite dns on '' @ quote (Name i)) (''physical dns '' @ Name i)
             (SetDNS (logged c) (Name i) (DNS d))"
  have each: "journals (for_each ?f ifaces)" for ifaces
    by (rule journals_for_each) (simp add: journals_done journals_mutate logs_logged)
  obtain x v where li: "ListInterfaces c w = (x, v)" by fastforce
  show "faults j' = [] \<and> (\<exists>es. entries j' = entries j @ es \<and> log' = log @ map Undo es \<and>
      (\<forall>e\<in>set es. State e = StatePending) \<and>
      jfile j' = (if es = [] then jfile j else Some (Whole (entries j'))))"
  proof (cases "RewritePhysicalDNS d")
    case False
    with run nf show ?thesis by (simp add: step_physical_dns_def done_step_def)
  next
    case True
    show ?thesis
    proof (cases x)
      case (Inl e)
      with True run nf li show ?thesis by (simp add: step_physical_dns_def logged_simps)
    next
      case (Inr ifaces)
      then have "for_each ?f ifaces (j, v, log) = (r, j', w', log')"
        using True run li by (simp add: step_physical_dns_def logged_simps)
      with each [of ifaces, unfolded journals_def] nf show ?thesis by blast
    qed
  qed
qed

text \<open>C19: Every mutation Apply makes is in the journal. With a journal whose file can be written,
  whatever the configurer does, also when a later step fails, the entries Apply adds are pending, their undos are, in order, exactly those
  of the mutations the configurer reported as made, and the file on disk holds them all.\<close>

theorem apply_journals_every_mutation:
  assumes "faults j = []"
    and "Manager_Apply gen (Some (logged c)) d (j, w, []) = (r, j', w', undos)"
  shows "\<exists>es. entries j' = entries j @ es \<and> undos = map Undo es \<and> (\<forall>e\<in>set es. State e = StatePending)
    \<and> (es \<noteq> [] \<longrightarrow> jfile j' = Some (Whole (entries j')))"
proof -
  have "journals (step_address gen (logged c) d)"
    unfolding step_address_def by (intro journals_mutate logs_logged)
  moreover have "journals (step_route gen (logged c) d dst)" for dst
    unfolding step_route_def by (intro journals_mutate logs_logged)
  moreover have "journals (step_tunnel_dns gen (logged c) d)"
    by (simp add: step_tunnel_dns_def journals_done journals_mutate logs_logged)
  ultimately have all: "journals (Manager_Apply gen (Some (logged c)) d)"
    unfolding Manager_Apply_def option.case
    by (intro journals_and_then journals_for_each journals_physical)
  from all [unfolded journals_def, rule_format, OF assms] show ?thesis by auto
qed

text \<open>An operating system where every command succeeds.\<close>

definition demo_exec :: "nat os_exec" where
  "demo_exec argv n = (([], None), Suc n)"

definition demo_desired :: Desired where
  "demo_desired = \<lparr>AdapterName = ''toppa0'', TunnelIP = [10, 0, 0, 2], TunnelPrefixLen = 32,
     DefaultRouteMetric = 1, DNS = [], RewritePhysicalDNS = False\<rparr>"

lemma demo_apply:
  "\<exists>j' undos. Manager_Apply (\<lambda>j. ''x'') (Some (logged (NetshConfigurer demo_exec))) demo_desired
      (empty_journal [], 0, []) = (None, j', 3, undos) \<and> length undos = 3"
  by (simp add: Manager_Apply_def and_then_def for_each_def step_address_def step_route_def
      step_tunnel_dns_def step_physical_dns_def done_step_def mutate_def default_routes_def
      logged_def log_undo_def NetshConfigurer_def netsh_SetInterfaceIP_def netsh_AddRoute_def
      run_command_def demo_exec_def Add_no_fault demo_desired_def empty_journal_def Let_def)

theorem apply_journals_every_mutation_witness:
  "\<exists>j' w' undos. Manager_Apply (\<lambda>j. ''x'') (Some (logged (NetshConfigurer demo_exec))) demo_desired
      (empty_journal [], 0, []) = (None, j', w', undos) \<and> undos = map Undo (entries j')"
proof -
  obtain j' undos where r: "Manager_Apply (\<lambda>j. ''x'') (Some (logged (NetshConfigurer demo_exec)))
      demo_desired (empty_journal [], 0, []) = (None, j', 3, undos)"
    using demo_apply by blast
  from apply_journals_every_mutation [OF _ r] r show ?thesis
    by (auto simp: empty_journal_def)
qed

text \<open>The undo of a netsh mutation is never run. NetshConfigurer returns an undo as the list
  of its words, and Rollback runs each string of an undo as a command of its own: after a
  SetInterfaceIP it runs the command "netsh" and then the command "interface", and where there is
  no such command it stops there, the address is not reset and the entry stays outstanding.\<close>

lemma netsh_undo_not_run:
  assumes "netsh_SetInterfaceIP exec iface a n w0 = (Inr undo, w1)"
    and "entries j = [\<lparr>ID = i, Description = d, Apply = ap, Undo = undo, State = StatePending\<rparr>]"
    and "runFn [''netsh''] w = (None, w2)" and "runFn [''interface''] w2 = (Some r, w3)"
  shows "Manager_Rollback runFn j w = ((0, Some (RunErr r)), j, w3)
    \<and> Outstanding j = entries j"
proof -
  have undo: "undo = netsh_dhcp ''address'' iface"
    using assms(1) by (auto simp: netsh_SetInterfaceIP_def split: prod.splits option.splits)
  have "Fields ''netsh'' = [''netsh'']" "Fields ''interface'' = [''interface'']"
    by (rule Fields_single, simp add: no_space_def is_space_def)+
  with assms(3,4) have "run_undo runFn undo w = (Some r, w3)"
    by (simp add: undo netsh_dhcp_def)
  with assms(2) show ?thesis
    by (simp add: Manager_Rollback_def RollbackAll_def Outstanding_def outstanding_def)
qed

definition netsh_only :: "string list \<Rightarrow> nat \<Rightarrow> string option \<times> nat" where
  "netsh_only argv n = (if hd argv = ''netsh'' then None else Some ''not found'', Suc n)"

lemma netsh_undo_not_run_example:
  "\<exists>undo w. netsh_SetInterfaceIP demo_exec ''toppa0'' [10, 0, 0, 2] 32 0 = (Inr undo, 1)
    \<and> Manager_Rollback netsh_only (demo_journal\<lparr>entries :=
        [\<lparr>ID = ''a'', Description = [], Apply = [], Undo = undo, State = StatePending\<rparr>]\<rparr>) 0
      = ((0, Some (RunErr ''not found'')), w)"
proof -
  obtain undo where u: "netsh_SetInterfaceIP demo_exec ''toppa0'' [10, 0, 0, 2] 32 0 = (Inr undo, 1)"
    by (simp add: netsh_SetInterfaceIP_def run_command_def demo_exec_def)
  have "netsh_only [''netsh''] 0 = (None, 1)" "netsh_only [''interface''] 1 = (Some ''not found'', 2)"
    by (simp_all add: netsh_only_def)
  from netsh_undo_not_run [OF u _ this, of "demo_journal\<lparr>entries :=
      [\<lparr>ID = ''a'', Description = [], Apply = [], Undo = undo, State = StatePending\<rparr>]\<rparr>"] u
  show ?thesis by auto
qed

section \<open>The listing of the interfaces\<close>

text \<open>
  A row of \<open>netsh interface ipv4 show interfaces\<close> as Windows prints it, the index first and the state
  fourth, is skipped: only a row that starts with the state is taken.
\<close>

lemma netsh_row_skipped:
  "interface_line '' 12          25        1500  connected     Wi-Fi'' = None"
  "interface_line ''connected 12 25 1500 Wi-Fi 2'' = Some \<lparr>Name = ''Wi-Fi 2'', IfDescription = []\<rparr>"
  by code_simp+

end
