(* ===== verification/Relay.thy ===== *)
theory Relay
  imports Session_Behaviour Go_Strings
begin

unbundle bit_operations_syntax

text \<open>
  The relay, desktop/internal/relay/dialer.go and pacing.go: the pacing gate, the dialer that turns
  a flow into a stream of the session, and the sanitizer of plain HTTP request heads with the
  connection that applies it to the first head written. \<open>strings.ToLower\<close> is the lower case of
  ASCII letters.
\<close>

section \<open>Pacing\<close>

record pacer =
  maxStreams :: int
  jitterMillis :: int
  active :: int

definition NewPacer :: "int \<Rightarrow> int \<Rightarrow> pacer" where
  "NewPacer m jit = \<lparr>maxStreams = m, jitterMillis = jit, active = 0\<rparr>"

datatype relay_err =
    PacingCap int | NoSession | BadAddress | OpenStream mux_err | ErrClosed | MuxErr mux_err

definition acquire :: "pacer \<Rightarrow> relay_err option \<times> pacer" where
  "acquire p =
     (if maxStreams p \<le> 0 then (None, p)
      else if active p \<ge> maxStreams p then (Some (PacingCap (maxStreams p)), p)
      else (None, p\<lparr>active := active p + 1\<rparr>))"

definition release :: "pacer \<Rightarrow> pacer" where
  "release p = (if active p > 0 then p\<lparr>active := active p - 1\<rparr> else p)"

section \<open>Dialing\<close>

definition mapErr :: "mux_err \<Rightarrow> relay_err" where
  "mapErr e = (if e = ErrStreamReset then ErrClosed
               else if e = ErrSessionClosed then ErrClosed
               else MuxErr e)"

record SanitizeConfig =
  Enabled :: bool
  UserAgent :: bytes
  StripForwarded :: bool

record TunnelDialer =
  d_session :: "session option"
  d_sanitizer :: "SanitizeConfig option"
  d_pacer :: "pacer option"

text \<open>A dialed connection: the stream, and whether it is sanitized.\<close>

datatype flow_conn = StreamConn nat | NewSanitizedConn nat SanitizeConfig

definition To16 :: "ip \<Rightarrow> bytes option" where
  "To16 a = (if length a = 4 then Some (v4_prefix @ a) else if length a = 16 then Some a else None)"

definition dial_target :: "ip \<Rightarrow> int \<Rightarrow> target option" where
  "dial_target a port =
     (case To4 a of
        Some b \<Rightarrow> Some \<lparr>Network = NetTCP, ATYP = ATYPIPv4, Address = b, Port = of_int port\<rparr>
      | None \<Rightarrow>
          (case To16 a of
             Some b \<Rightarrow> Some \<lparr>Network = NetTCP, ATYP = ATYPIPv6, Address = b, Port = of_int port\<rparr>
           | None \<Rightarrow> None))"

text \<open>
  \<open>DialTCP\<close>: a slot of the pacer is acquired, and the deferred call releases it on every way out.
\<close>

definition open_flow :: "ip \<Rightarrow> int \<Rightarrow> session \<Rightarrow> SanitizeConfig option
    \<Rightarrow> (relay_err + flow_conn) \<times> session" where
  "open_flow a port s sanitizer =
     (case dial_target a port of
        None \<Rightarrow> (Inl BadAddress, s)
      | Some t \<Rightarrow>
          (case Open t s of
             (Inl err, s') \<Rightarrow> (Inl (OpenStream err), s')
           | (Inr stream, s') \<Rightarrow>
               (case sanitizer of
                  Some c \<Rightarrow> if Enabled c then (Inr (NewSanitizedConn stream c), s')
                            else (Inr (StreamConn stream), s')
                | None \<Rightarrow> (Inr (StreamConn stream), s'))))"

definition DialTCP :: "ip \<Rightarrow> int \<Rightarrow> TunnelDialer \<Rightarrow> (relay_err + flow_conn) \<times> TunnelDialer" where
  "DialTCP a port d =
     (case d_session d of
        None \<Rightarrow> (Inl NoSession, d)
      | Some s \<Rightarrow>
          (case d_pacer d of
             None \<Rightarrow>
               (case open_flow a port s (d_sanitizer d) of
                  (r, s') \<Rightarrow> (r, d\<lparr>d_session := Some s'\<rparr>))
           | Some p \<Rightarrow>
               (case acquire p of
                  (Some err, p') \<Rightarrow> (Inl err, d\<lparr>d_pacer := Some p'\<rparr>)
                | (None, p') \<Rightarrow>
                    (case open_flow a port s (d_sanitizer d) of
                       (r, s') \<Rightarrow> (r, d\<lparr>d_session := Some s', d_pacer := Some (release p')\<rparr>)))))"

section \<open>The sanitizer\<close>

definition CRLF :: bytes where "CRLF = [13, 10]"

definition DefaultAndroidUA :: bytes where
  "DefaultAndroidUA = bytes_of_string
     ''Mozilla/5.0 (Linux; Android 14) AppleWebKit/537.36 (KHTML, like Gecko) Chrome/124.0.0.0 Mobile Safari/537.36''"

definition httpMethods :: "bytes list" where
  "httpMethods = map bytes_of_string
     [''GET '', ''POST '', ''PUT '', ''DELETE '', ''HEAD '', ''OPTIONS '', ''PATCH '']"

definition ToLower :: "bytes \<Rightarrow> bytes" where
  "ToLower = map (\<lambda>b. if 65 \<le> b \<and> b \<le> 90 then b + 32 else b)"

definition HasPrefix :: "bytes \<Rightarrow> bytes \<Rightarrow> bool" where
  "HasPrefix b p \<longleftrightarrow> take (length p) b = p"

text \<open>\<open>strings.Split(s, "\r\n")\<close>.\<close>

fun split_crlf :: "bytes \<Rightarrow> bytes list" where
  "split_crlf [] = [[]]"
| "split_crlf (x # xs) =
     (if x = 13 \<and> xs \<noteq> [] \<and> hd xs = 10 then [] # split_crlf (tl xs)
      else (case split_crlf xs of y # ys \<Rightarrow> (x # y) # ys | [] \<Rightarrow> [[x]]))"

definition userAgent :: "SanitizeConfig \<Rightarrow> bytes" where
  "userAgent c = (if UserAgent c = [] then DefaultAndroidUA else UserAgent c)"

definition is_user_agent :: "bytes \<Rightarrow> bool" where
  "is_user_agent line \<longleftrightarrow> HasPrefix (ToLower line) (bytes_of_string ''user-agent:'')"

definition is_forwarded :: "bytes \<Rightarrow> bool" where
  "is_forwarded line \<longleftrightarrow>
     HasPrefix (ToLower line) (bytes_of_string ''forwarded:'') \<or>
     HasPrefix (ToLower line) (bytes_of_string ''x-forwarded-for:'') \<or>
     HasPrefix (ToLower line) (bytes_of_string ''x-forwarded-host:'') \<or>
     HasPrefix (ToLower line) (bytes_of_string ''via:'')"

text \<open>What one line of the head becomes.\<close>

definition sanitize_line :: "SanitizeConfig \<Rightarrow> bytes \<Rightarrow> bytes" where
  "sanitize_line sc line =
     (if is_user_agent line then bytes_of_string ''User-Agent: '' @ userAgent sc @ CRLF
      else if StripForwarded sc \<and> is_forwarded line then []
      else line @ CRLF)"

definition startsHTTP :: "bytes \<Rightarrow> bool" where
  "startsHTTP head \<longleftrightarrow> (\<exists>m\<in>set httpMethods. length head \<ge> length m \<and> take (length m) head = m)"

definition SanitizeRequestHead :: "bytes \<Rightarrow> SanitizeConfig \<Rightarrow> bytes \<times> bool" where
  "SanitizeRequestHead head sc =
     (if \<not> startsHTTP head then (head, False)
      else
        (let lines = split_crlf head
         in (concat (map (sanitize_line sc) lines),
             \<exists>line\<in>set lines. is_user_agent line \<or> StripForwarded sc \<and> is_forwarded line)))"

text \<open>\<open>bytes.Index\<close>.\<close>

fun index_of :: "bytes \<Rightarrow> bytes \<Rightarrow> nat option" where
  "index_of pat [] = (if pat = [] then Some 0 else None)"
| "index_of pat (x # xs) =
     (if take (length pat) (x # xs) = pat then Some 0 else map_option Suc (index_of pat xs))"

text \<open>
  \<open>SanitizedConn.Write\<close> over a connection whose \<open>Write\<close> returns a count and an error.
\<close>

type_synonym 'w net_writer = "bytes \<Rightarrow> 'w \<Rightarrow> (nat \<times> io_err option) \<times> 'w"

record 'w SanitizedConn =
  Conn :: 'w
  sc_cfg :: SanitizeConfig
  sc_buf :: bytes
  sc_done :: bool

definition maxHeadHold :: nat where "maxHeadHold = 16 * 1024"

definition SanitizedWrite :: "'w net_writer \<Rightarrow> bytes \<Rightarrow> 'w SanitizedConn
    \<Rightarrow> (nat \<times> io_err option) \<times> 'w SanitizedConn" where
  "SanitizedWrite wr b c =
     (if sc_done c then (case wr b (Conn c) of (r, w) \<Rightarrow> (r, c\<lparr>Conn := w\<rparr>))
      else
        (let data = sc_buf c @ b; headEnd = index_of (CRLF @ CRLF) data; c0 = c\<lparr>sc_buf := data\<rparr>
         in if headEnd = None \<and> length data < maxHeadHold then ((length b, None), c0)
            else if headEnd = None
            then (case wr data (Conn c) of (r, w) \<Rightarrow> (r, c0\<lparr>sc_done := True, Conn := w\<rparr>))
            else
              (let k = the headEnd + 4; head = take k data; rest = drop k data;
                   sanitized = fst (SanitizeRequestHead head (sc_cfg c))
               in case wr sanitized (Conn c) of
                    ((_, Some err), w) \<Rightarrow> ((0, Some err), c0\<lparr>Conn := w\<rparr>)
                  | ((_, None), w) \<Rightarrow>
                      (if length rest > 0
                       then (case wr rest w of
                               ((_, Some err), w') \<Rightarrow>
                                 ((length b, Some err), c0\<lparr>sc_done := True, Conn := w'\<rparr>)
                             | ((_, None), w') \<Rightarrow>
                                 ((length b, None), c0\<lparr>sc_done := True, Conn := w'\<rparr>))
                       else ((length b, None), c0\<lparr>sc_done := True, Conn := w\<rparr>)))))"

text \<open>A connection that counts what it writes, and a sequence of writes.\<close>

definition conn_write_n :: "wconn net_writer" where
  "conn_write_n b c = (case conn_write b c of (None, c') \<Rightarrow> ((length b, None), c')
                       | (Some e, c') \<Rightarrow> ((0, Some e), c'))"

fun sanitized_writes :: "'w net_writer \<Rightarrow> bytes list \<Rightarrow> 'w SanitizedConn
    \<Rightarrow> (nat \<times> io_err option) list \<times> 'w SanitizedConn" where
  "sanitized_writes wr [] c = ([], c)"
| "sanitized_writes wr (b # bs) c =
     (case SanitizedWrite wr b c of
        (r, c') \<Rightarrow> (case sanitized_writes wr bs c' of (rs, c'') \<Rightarrow> (r # rs, c'')))"

section \<open>Facts\<close>

lemma split_crlf_not_Nil [simp]: "split_crlf s \<noteq> []"
  by (induction s rule: split_crlf.induct) (auto split: list.split)

text \<open>No line contains the separator.\<close>

lemma split_crlf_single:
  "index_of CRLF l = None \<Longrightarrow> split_crlf l = [l]"
  by (induction l rule: split_crlf.induct) (auto simp: CRLF_def neq_Nil_conv split: if_splits list.split)

end
