(* ===== verification/Relay_Properties.thy ===== *)
theory Relay_Properties
  imports Relay Session_Properties
begin

unbundle bit_operations_syntax

text \<open>
  The properties of the relay: what the sanitizer changes in a request head, what the sanitized
  connection passes on and what it holds back for ever, and what the pacing gate limits.
\<close>

section \<open>Searching and splitting\<close>

lemma take_Cons_append: "n \<le> Suc (length xs) \<Longrightarrow> take n (x # xs @ ys) = take n (x # xs)"
  by (cases n) auto

lemma index_of_fits: "index_of pat xs = Some k \<Longrightarrow> k + length pat \<le> length xs"
proof (induction xs arbitrary: k)
  case (Cons x xs)
  show ?case
  proof (cases "take (length pat) (x # xs) = pat")
    case True
    then have "length pat \<le> length (x # xs)" by (metis length_take min.cobounded1)
    with True Cons.prems show ?thesis by simp
  next
    case False
    with Cons.prems Cons.IH show ?thesis by auto
  qed
qed (auto split: if_splits)

lemma index_of_prefix:
  "index_of pat (xs @ ys) = Some k \<Longrightarrow> k + length pat \<le> length xs \<Longrightarrow> index_of pat xs = Some k"
proof (induction xs arbitrary: k)
  case Nil
  then show ?case by simp
next
  case (Cons x xs)
  show ?case
  proof (cases "take (length pat) (x # xs @ ys) = pat")
    case True
    with Cons.prems have "k = 0" by simp
    with Cons.prems(2) have "take (length pat) ((x # xs) @ ys) = take (length pat) (x # xs)"
      by (simp add: take_Cons_append)
    with True \<open>k = 0\<close> show ?thesis by simp
  next
    case False
    with Cons.prems(1) obtain i where i: "index_of pat (xs @ ys) = Some i" "k = Suc i" by auto
    with Cons.prems(2) have le: "i + length pat \<le> length xs" by simp
    then have "take (length pat) (x # xs @ ys) = take (length pat) (x # xs)"
      by (intro take_Cons_append) simp
    with False Cons.IH [OF i(1) le] i(2) show ?thesis by simp
  qed
qed

lemma index_of_append: "index_of pat xs = Some k \<Longrightarrow> index_of pat (xs @ ys) = Some k"
proof (induction xs arbitrary: k)
  case Nil
  then show ?case by (cases ys) (auto split: if_splits)
next
  case (Cons x xs)
  show ?case
  proof (cases "take (length pat) (x # xs) = pat")
    case True
    then have "length pat \<le> length (x # xs)" by (metis length_take min.cobounded1)
    then have "take (length pat) ((x # xs) @ ys) = take (length pat) (x # xs)"
      by (simp add: take_Cons_append)
    with True Cons.prems show ?thesis by simp
  next
    case False
    with Cons.prems obtain i where i: "index_of pat xs = Some i" "k = Suc i" by auto
    have "take (length pat) (x # xs @ ys) \<noteq> pat"
    proof
      assume a: "take (length pat) (x # xs @ ys) = pat"
      have "i + length pat \<le> length xs" using index_of_fits [OF i(1)] .
      then have "take (length pat) (x # xs @ ys) = take (length pat) (x # xs)"
        by (intro take_Cons_append) simp
      with a False show False by simp
    qed
    with Cons.IH [OF i(1)] i(2) show ?thesis by simp
  qed
qed

lemma index_of_later:
  assumes "index_of pat (xs @ ys) = Some k" and "index_of pat xs = None"
  shows "length xs < k + length pat"
proof (rule ccontr)
  assume "\<not> length xs < k + length pat"
  then have "k + length pat \<le> length xs" by simp
  from index_of_prefix [OF assms(1) this] assms(2) show False by simp
qed

lemma concat_split_crlf: "concat (map (\<lambda>l. l @ CRLF) (split_crlf s)) = s @ CRLF"
proof (induction s rule: split_crlf.induct)
  case (2 x xs)
  show ?case
  proof (cases "x = 13 \<and> xs \<noteq> [] \<and> hd xs = 10")
    case True
    then have "xs = 10 # tl xs" by (cases xs) auto
    with True 2(1) show ?thesis by (simp add: CRLF_def)
  next
    case False
    from 2(2) [OF False] False show ?thesis
      by (cases "split_crlf xs") auto
  qed
qed (simp add: CRLF_def)

section \<open>The request head\<close>

lemma user_agent_line_not_forwarded:
  "\<not> is_forwarded (bytes_of_string ''User-Agent: '' @ ua)"
  by (simp add: is_forwarded_def HasPrefix_def ToLower_def bytes_of_string_def)

text \<open>The sanitizer leaves no trace of the client. The rewritten head of an HTTP request is a
  sequence of lines, each the replacement User-Agent line or a line of the original head; no line
  names another user agent, none is a forwarding header when these are stripped; and a head with
  nothing to rewrite comes out with one CRLF too many, since the empty string after the final
  separator is written as a line.\<close>

lemma sanitized_head_lines:
  fixes head :: bytes and c :: SanitizeConfig
  assumes "startsHTTP head"
  defines "r \<equiv> SanitizeRequestHead head c"
    and "ua \<equiv> bytes_of_string ''User-Agent: '' @ userAgent c"
  shows "(\<exists>ls. fst r = concat (map (\<lambda>l. l @ CRLF) ls) \<and>
      (\<forall>l\<in>set ls. (l = ua \<or> l \<in> set (split_crlf head)) \<and> (is_user_agent l \<longrightarrow> l = ua)
         \<and> (StripForwarded c \<longrightarrow> \<not> is_forwarded l)))
    \<and> (\<not> snd r \<longrightarrow> fst r = head @ CRLF)"
proof -
  define keep where "keep l = (\<not> (\<not> is_user_agent l \<and> StripForwarded c \<and> is_forwarded l))" for l
  define new where "new l = (if is_user_agent l then ua else l)" for l
  have line: "sanitize_line c l = (if keep l then new l @ CRLF else [])" for l
    by (simp add: sanitize_line_def keep_def new_def ua_def)
  have cat: "concat (map (sanitize_line c) ls) = concat (map (\<lambda>l. l @ CRLF) (map new (filter keep ls)))"
    for ls
    by (induction ls) (simp_all add: line)
  have r: "fst r = concat (map (sanitize_line c) (split_crlf head))"
    "snd r \<longleftrightarrow> (\<exists>l\<in>set (split_crlf head). is_user_agent l \<or> StripForwarded c \<and> is_forwarded l)"
    using assms(1) by (simp_all add: r_def SanitizeRequestHead_def Let_def)
  have "(new l = ua \<or> new l \<in> set (split_crlf head)) \<and> (is_user_agent (new l) \<longrightarrow> new l = ua)
      \<and> (StripForwarded c \<longrightarrow> \<not> is_forwarded (new l))"
    if "l \<in> set (filter keep (split_crlf head))" for l
    using that user_agent_line_not_forwarded [of "userAgent c"]
    by (auto simp: new_def keep_def ua_def)
  moreover have "fst r = head @ CRLF" if "\<not> snd r"
  proof -
    have "\<forall>l\<in>set (split_crlf head). sanitize_line c l = l @ CRLF"
      using that r(2) by (auto simp: sanitize_line_def)
    then have "map (sanitize_line c) (split_crlf head) = map (\<lambda>l. l @ CRLF) (split_crlf head)"
      by simp
    then show ?thesis using r(1) concat_split_crlf by metis
  qed
  ultimately show ?thesis
    using r(1) cat by (intro conjI exI [of _ "map new (filter keep (split_crlf head))"]) auto
qed

definition demo_sanitize :: SanitizeConfig where
  "demo_sanitize = \<lparr>Enabled = True, UserAgent = [88], StripForwarded = True\<rparr>"

definition demo_head :: bytes where
  "demo_head = bytes_of_string ''GET / HTTP/1.1'' @ CRLF @ bytes_of_string ''Host: a'' @ CRLF @ CRLF"

lemma demo_head_http: "startsHTTP demo_head"
  by (simp add: startsHTTP_def httpMethods_def demo_head_def bytes_of_string_def)

lemma sanitized_head_lines_example:
  "fst (SanitizeRequestHead demo_head demo_sanitize) = demo_head @ CRLF"
proof -
  have "\<not> snd (SanitizeRequestHead demo_head demo_sanitize)"
    by (simp add: SanitizeRequestHead_def demo_head_http Let_def)
      (simp add: demo_head_def bytes_of_string_def CRLF_def is_user_agent_def is_forwarded_def
        HasPrefix_def ToLower_def)
  with sanitized_head_lines [OF demo_head_http, of demo_sanitize] show ?thesis by blast
qed

section \<open>What the sanitized connection passes on\<close>

lemma conn_write_n_ok: "wok w \<Longrightarrow> conn_write_n b w = ((length b, None), w\<lparr>wbytes := wbytes w @ b\<rparr>)"
  by (simp add: conn_write_n_def)

lemma SanitizedWrite_hold:
  assumes "\<not> sc_done c" and "index_of (CRLF @ CRLF) (sc_buf c @ b) = None"
    and "length (sc_buf c @ b) < maxHeadHold"
  shows "SanitizedWrite wr b c = ((length b, None), c\<lparr>sc_buf := sc_buf c @ b\<rparr>)"
  using assms by (simp add: SanitizedWrite_def Let_def)

lemma SanitizedWrite_head:
  assumes "\<not> sc_done c" and "index_of (CRLF @ CRLF) (sc_buf c @ b) = Some k" and "wok (Conn c)"
  shows "\<exists>c'. SanitizedWrite conn_write_n b c = ((length b, None), c') \<and> sc_done c' \<and> wok (Conn c')
    \<and> wbytes (Conn c') = wbytes (Conn c)
        @ fst (SanitizeRequestHead (take (k + 4) (sc_buf c @ b)) (sc_cfg c))
        @ drop (k + 4) (sc_buf c @ b)"
  using assms by (simp add: SanitizedWrite_def Let_def conn_write_n_ok)

lemma sanitized_writes_done:
  assumes "sc_done c" and "wok (Conn c)"
  shows "\<exists>c'. sanitized_writes conn_write_n bs c = (map (\<lambda>b. (length b, None)) bs, c')
    \<and> wbytes (Conn c') = wbytes (Conn c) @ concat bs"
  using assms
proof (induction bs arbitrary: c)
  case (Cons b bs)
  define d where "d = c\<lparr>Conn := (Conn c)\<lparr>wbytes := wbytes (Conn c) @ b\<rparr>\<rparr>"
  have "SanitizedWrite conn_write_n b c = ((length b, None), d)"
    using Cons.prems by (simp add: SanitizedWrite_def conn_write_n_ok d_def)
  moreover have "sc_done d" "wok (Conn d)" using Cons.prems by (simp_all add: d_def)
  then obtain c' where "sanitized_writes conn_write_n bs d = (map (\<lambda>b. (length b, None)) bs, c')"
    "wbytes (Conn c') = wbytes (Conn d) @ concat bs" using Cons.IH by blast
  ultimately show ?case by (simp add: d_def)
qed simp

text \<open>A prefix without the separator, of data that contains it within the bound, is still held.\<close>

lemma prefix_held:
  assumes "index_of (CRLF @ CRLF) (xs @ ys) = Some k" and "k + 4 \<le> maxHeadHold"
    and "index_of (CRLF @ CRLF) xs = None"
  shows "length xs < maxHeadHold"
  using index_of_later [OF assms(1,3)] assms(2) by (simp add: CRLF_def)

text \<open>C21: A request head is rewritten however it is cut into writes. Over a working connection, if the
  bytes of a sequence of writes have their first blank line within the first 16 KiB, every write is
  reported complete and the connection receives the rewritten head and then everything after it
  unchanged; a payload that is not HTTP arrives as it was written.\<close>

theorem sanitized_stream:
  fixes c :: "wconn SanitizedConn"
  assumes "\<not> sc_done c" and "wok (Conn c)"
    and "index_of (CRLF @ CRLF) (sc_buf c @ concat bs) = Some k" and "k + 4 \<le> maxHeadHold"
    and "index_of (CRLF @ CRLF) (sc_buf c) = None"
  shows "\<exists>c'. sanitized_writes conn_write_n bs c = (map (\<lambda>b. (length b, None)) bs, c')
    \<and> wbytes (Conn c') = wbytes (Conn c)
        @ fst (SanitizeRequestHead (take (k + 4) (sc_buf c @ concat bs)) (sc_cfg c))
        @ drop (k + 4) (sc_buf c @ concat bs)
    \<and> (\<not> startsHTTP (take (k + 4) (sc_buf c @ concat bs)) \<longrightarrow>
        wbytes (Conn c') = wbytes (Conn c) @ sc_buf c @ concat bs)"
  using assms
proof (induction bs arbitrary: c)
  case Nil
  then show ?case by simp
next
  case (Cons b bs)
  have whole: "index_of (CRLF @ CRLF) ((sc_buf c @ b) @ concat bs) = Some k"
    using Cons.prems(3) by simp
  show ?case
  proof (cases "index_of (CRLF @ CRLF) (sc_buf c @ b)")
    case None
    define d where "d = c\<lparr>sc_buf := sc_buf c @ b\<rparr>"
    have step: "SanitizedWrite conn_write_n b c = ((length b, None), d)"
      unfolding d_def
      by (rule SanitizedWrite_hold [OF Cons.prems(1) None prefix_held [OF whole Cons.prems(4) None]])
    have "\<exists>c'. sanitized_writes conn_write_n bs d = (map (\<lambda>b. (length b, None)) bs, c')
      \<and> wbytes (Conn c') = wbytes (Conn d)
          @ fst (SanitizeRequestHead (take (k + 4) (sc_buf d @ concat bs)) (sc_cfg d))
          @ drop (k + 4) (sc_buf d @ concat bs)
      \<and> (\<not> startsHTTP (take (k + 4) (sc_buf d @ concat bs)) \<longrightarrow>
          wbytes (Conn c') = wbytes (Conn d) @ sc_buf d @ concat bs)"
      by (rule Cons.IH) (use Cons.prems whole None in \<open>simp_all add: d_def\<close>)
    then show ?thesis by (auto simp: step d_def)
  next
    case (Some i)
    then have i: "i = k" using index_of_append [OF Some, of "concat bs"] whole by simp
    have fits: "k + 4 \<le> length (sc_buf c @ b)"
      using index_of_fits [OF Some] i by (simp add: CRLF_def)
    obtain d where d: "SanitizedWrite conn_write_n b c = ((length b, None), d)" "sc_done d" "wok (Conn d)"
      "wbytes (Conn d) = wbytes (Conn c)
        @ fst (SanitizeRequestHead (take (k + 4) (sc_buf c @ b)) (sc_cfg c)) @ drop (k + 4) (sc_buf c @ b)"
      using SanitizedWrite_head [OF Cons.prems(1) Some Cons.prems(2)] i by auto
    obtain c' where c': "sanitized_writes conn_write_n bs d = (map (\<lambda>b. (length b, None)) bs, c')"
      "wbytes (Conn c') = wbytes (Conn d) @ concat bs"
      using sanitized_writes_done [OF d(2,3)] by blast
    have all: "sc_buf c @ concat (b # bs) = (sc_buf c @ b) @ concat bs" by simp
    have cut: "take (k + 4) ((sc_buf c @ b) @ concat bs) = take (k + 4) (sc_buf c @ b)"
      "drop (k + 4) ((sc_buf c @ b) @ concat bs) = drop (k + 4) (sc_buf c @ b) @ concat bs"
      using fits by (simp_all only: take_append drop_append) simp_all
    have raw: "fst (SanitizeRequestHead h sc) = h" if "\<not> startsHTTP h" for h sc
      using that by (simp add: SanitizeRequestHead_def)
    have parts: "take (k + 4) (sc_buf c @ b) @ drop (k + 4) (sc_buf c @ b) = sc_buf c @ b"
      by (rule append_take_drop_id)
    have sent: "wbytes (Conn c') = wbytes (Conn c)
        @ fst (SanitizeRequestHead (take (k + 4) (sc_buf c @ b)) (sc_cfg c))
        @ drop (k + 4) (sc_buf c @ b) @ concat bs"
      using d(4) c'(2) by simp
    have "wbytes (Conn c') = wbytes (Conn c) @ (sc_buf c @ b) @ concat bs"
      if "\<not> startsHTTP (take (k + 4) (sc_buf c @ b))"
      unfolding sent raw [OF that] by (subst parts [symmetric]) (simp only: append_assoc)
    then show ?thesis
      unfolding all cut using sent d(1) c'(1) by (intro exI [of _ c'] conjI impI) simp_all
  qed
qed

theorem sanitized_stream_witness:
  "\<exists>c'. sanitized_writes conn_write_n [[71, 13, 10], [13, 10, 7]]
      \<lparr>Conn = \<lparr>wbytes = [], wok = True\<rparr>, sc_cfg = demo_sanitize, sc_buf = [], sc_done = False\<rparr>
    = ([(3, None), (3, None)], c') \<and> wbytes (Conn c') = [71, 13, 10, 13, 10, 7]"
proof -
  let ?c = "\<lparr>Conn = \<lparr>wbytes = [], wok = True\<rparr>, sc_cfg = demo_sanitize, sc_buf = [], sc_done = False\<rparr>"
  have "index_of (CRLF @ CRLF) (sc_buf ?c @ concat [[71, 13, 10], [13, 10, 7]]) = Some 1"
    by (simp add: CRLF_def)
  from sanitized_stream [of ?c, OF _ _ this] show ?thesis
    by (simp add: maxHeadHold_def CRLF_def startsHTTP_def httpMethods_def bytes_of_string_def
        numeral_3_eq_3) blast
qed

text \<open>A flow whose peer must speak first after a short message is never sent. Whatever is
  written on a sanitized connection, as long as it holds no blank line and stays below 16 KiB - a
  TLS ClientHello, an SSH banner - every write is reported complete and not one byte reaches the
  connection, however it behaves.\<close>

lemma small_flow_held:
  assumes "\<not> sc_done c" and "index_of (CRLF @ CRLF) (sc_buf c @ concat bs) = None"
    and "length (sc_buf c @ concat bs) < maxHeadHold"
  shows "sanitized_writes wr bs c
    = (map (\<lambda>b. (length b, None)) bs, c\<lparr>sc_buf := sc_buf c @ concat bs\<rparr>)"
  using assms
proof (induction bs arbitrary: c)
  case (Cons b bs)
  have "index_of (CRLF @ CRLF) (sc_buf c @ b) = None"
    using index_of_append [of "CRLF @ CRLF" "sc_buf c @ b" _ "concat bs"] Cons.prems(2)
    by (cases "index_of (CRLF @ CRLF) (sc_buf c @ b)") auto
  moreover have "length (sc_buf c @ b) < maxHeadHold" using Cons.prems(3) by simp
  ultimately have "SanitizedWrite wr b c = ((length b, None), c\<lparr>sc_buf := sc_buf c @ b\<rparr>)"
    using SanitizedWrite_hold Cons.prems(1) by blast
  moreover have "sanitized_writes wr bs (c\<lparr>sc_buf := sc_buf c @ b\<rparr>)
      = (map (\<lambda>b. (length b, None)) bs, c\<lparr>sc_buf := sc_buf c @ concat (b # bs)\<rparr>)"
    using Cons.IH [of "c\<lparr>sc_buf := sc_buf c @ b\<rparr>"] Cons.prems by simp
  ultimately show ?case by simp
qed simp

lemma small_flow_held_example:
  "sanitized_writes conn_write_n [[22, 3, 1, 0, 5], [1, 0, 0, 1, 3]]
      \<lparr>Conn = \<lparr>wbytes = [], wok = True\<rparr>, sc_cfg = demo_sanitize, sc_buf = [], sc_done = False\<rparr>
    = ([(5, None), (5, None)], \<lparr>Conn = \<lparr>wbytes = [], wok = True\<rparr>, sc_cfg = demo_sanitize,
         sc_buf = [22, 3, 1, 0, 5, 1, 0, 0, 1, 3], sc_done = False\<rparr>)"
  by (subst small_flow_held) (simp_all add: CRLF_def maxHeadHold_def)

section \<open>Dialing\<close>

text \<open>Whether the pacer would let a dial through.\<close>

definition admits :: "pacer option \<Rightarrow> bool" where
  "admits po \<longleftrightarrow> (case po of None \<Rightarrow> True | Some p \<Rightarrow> maxStreams p \<le> 0 \<or> active p < maxStreams p)"

lemma DialTCP_admitted:
  assumes "d_session d = Some s" and "admits (d_pacer d)"
  shows "fst (DialTCP a port d) = fst (open_flow a port s (d_sanitizer d))"
    and "d_session (snd (DialTCP a port d)) = Some (snd (open_flow a port s (d_sanitizer d)))"
    and "d_sanitizer (snd (DialTCP a port d)) = d_sanitizer d"
  using assms
  by (auto simp: DialTCP_def admits_def acquire_def split: option.splits prod.splits if_splits)

lemma dial_target_valid:
  assumes "length a = 4 \<or> length a = 16"
  shows "\<exists>t. dial_target a port = Some t \<and> valid_target t \<and> Network t = NetTCP
    \<and> Port t = of_int port \<and> Address t = (case To4 a of Some b \<Rightarrow> b | None \<Rightarrow> a)
    \<and> ATYP t = (if To4 a = None then ATYPIPv6 else ATYPIPv4)"
proof (cases "To4 a")
  case None
  then have "length a = 16" using assms by (auto simp: To4_def split: if_splits)
  with None show ?thesis by (simp add: dial_target_def To16_def valid_target_def target_consts)
next
  case (Some b)
  then have "length b = 4" by (auto simp: To4_def split: if_splits)
  with Some show ?thesis by (simp add: dial_target_def valid_target_def target_consts)
qed

lemma length_dial_bytes: "valid_target t \<Longrightarrow> ATYP t \<noteq> ATYPFQDN \<Longrightarrow> length (AppendTarget [] t) \<le> 20"
  by (erule valid_target_cases) (auto simp: AppendTarget_def target_consts)

text \<open>C22: A dialed flow carries its destination. On an open session over a working link, dialing any
  IPv4 or IPv6 address succeeds and writes exactly one frame, a valid SYN on the next id of the
  session, whose payload the peer's parser reads back as a TCP target with the address (an
  IPv4-mapped IPv6 address as IPv4) and the port modulo 2^16.\<close>

theorem dial_sends_target:
  assumes "d_session d = Some s" and "\<not> closed s" and "wok (conn s)" and "nextID s \<noteq> 0"
    and "20 \<le> unat (MaxFramePayload (cfg s))" and "admits (d_pacer d)"
    and "length a = 4 \<or> length a = 16"
  shows "\<exists>flow s' f t. fst (DialTCP a port d) = Inr flow
    \<and> d_session (snd (DialTCP a port d)) = Some s'
    \<and> wbytes (conn s') = wbytes (conn s) @ encode_frame f
    \<and> validateFrame f = None \<and> StreamID f = nextID s
    \<and> ParseTarget (Payload f) = Inr t \<and> Network t = NetTCP \<and> Port t = of_int port
    \<and> Address t = (case To4 a of Some b \<Rightarrow> b | None \<Rightarrow> a)"
proof -
  obtain t where t: "dial_target a port = Some t" "valid_target t" "Network t = NetTCP"
    "Port t = of_int port" "Address t = (case To4 a of Some b \<Rightarrow> b | None \<Rightarrow> a)"
    "ATYP t = (if To4 a = None then ATYPIPv6 else ATYPIPv4)"
    using dial_target_valid [OF assms(7)] by blast
  define f where "f = mk_frame FlagSYN (nextID s) (AppendTarget [] t)"
  have "length (AppendTarget [] t) \<le> 20"
    by (rule length_dial_bytes [OF t(2)]) (simp add: t(6) target_consts)
  then have send: "sendable (MaxFramePayload (cfg s)) f" using assms(5) by (simp add: f_def)
  obtain s' where s': "Open t s = (Inr (length (heap s)), s')"
    "wbytes (conn s') = wbytes (conn s) @ encode_frame f"
    using assms(2,3) send by (simp add: Open_def Let_def writeFrame_ok flip: f_def)
  have "\<exists>flow. open_flow a port s (d_sanitizer d) = (Inr flow, s')"
    using t(1) s'(1) by (simp add: open_flow_def split: option.split)
  then obtain flow where flow: "open_flow a port s (d_sanitizer d) = (Inr flow, s')" by blast
  have valid: "validateFrame f = None"
    using assms(4) by (simp add: f_def)
  have parse: "ParseTarget (Payload f) = Inr t"
    using Parse_AppendTarget [OF t(2), of "[]"] by (simp add: f_def mk_frame_def)
  have id: "StreamID f = nextID s" by (simp add: f_def mk_frame_def)
  show ?thesis
    using DialTCP_admitted [OF assms(1,6), of a port] flow s'(2) t(3-5) valid parse id by auto
qed

definition demo_dialer :: TunnelDialer where
  "demo_dialer = \<lparr>d_session = Some demo_fresh, d_sanitizer = None, d_pacer = Some (NewPacer 1 0)\<rparr>"

theorem dial_sends_target_witness:
  "\<exists>flow. fst (DialTCP (v4_prefix @ [8, 8, 4, 4]) 443 demo_dialer) = Inr flow"
proof -
  have "\<exists>flow s' f t. fst (DialTCP (v4_prefix @ [8, 8, 4, 4]) 443 demo_dialer) = Inr flow
    \<and> d_session (snd (DialTCP (v4_prefix @ [8, 8, 4, 4]) 443 demo_dialer)) = Some s'
    \<and> wbytes (conn s') = wbytes (conn demo_fresh) @ encode_frame f
    \<and> validateFrame f = None \<and> StreamID f = nextID demo_fresh
    \<and> ParseTarget (Payload f) = Inr t \<and> Network t = NetTCP \<and> Port t = of_int 443
    \<and> Address t = (case To4 (v4_prefix @ [8, 8, 4, 4]) of Some b \<Rightarrow> b | None \<Rightarrow> v4_prefix @ [8, 8, 4, 4])"
    by (rule dial_sends_target)
      (simp_all add: demo_dialer_def demo_fresh_eq demo_config_def admits_def NewPacer_def v4_prefix_def)
  then show ?thesis by blast
qed

section \<open>The pacing gate\<close>

fun dials :: "(ip \<times> int) list \<Rightarrow> TunnelDialer \<Rightarrow> (relay_err + flow_conn) list \<times> TunnelDialer" where
  "dials [] d = ([], d)"
| "dials ((a, port) # as) d =
     (case DialTCP a port d of
        (r, d') \<Rightarrow> (case dials as d' of (rs, d'') \<Rightarrow> (r # rs, d'')))"

lemma DialTCP_idle:
  assumes "active p = 0" and "d_pacer d = Some p"
  shows "\<exists>r s'. DialTCP a port d = (r, d\<lparr>d_session := s'\<rparr>)
    \<and> DialTCP a port (d\<lparr>d_pacer := None\<rparr>) = (r, d\<lparr>d_session := s', d_pacer := None\<rparr>)"
proof (cases "d_session d")
  case None
  with assms show ?thesis by (cases d) (simp add: DialTCP_def)
next
  case (Some s)
  obtain r s' where o: "open_flow a port s (d_sanitizer d) = (r, s')" by force
  have "\<exists>p'. acquire p = (None, p') \<and> release p' = p"
    using assms(1) by (cases p) (simp add: acquire_def release_def)
  then obtain p' where p': "acquire p = (None, p')" "release p' = p" by blast
  with Some assms(2) o show ?thesis by (cases d) (simp add: DialTCP_def)
qed

text \<open>The pacing gate limits nothing. DialTCP gives its slot back when it returns, so with a fresh
  pacer of any cap, dials made one after the other have exactly the results they have without a
  pacer, however many of the flows they opened are still running.\<close>

lemma pacing_never_limits:
  assumes "d_pacer d = Some (NewPacer m jit)"
  shows "fst (dials as d) = fst (dials as (d\<lparr>d_pacer := None\<rparr>))
    \<and> d_pacer (snd (dials as d)) = Some (NewPacer m jit)
    \<and> d_session (snd (dials as d)) = d_session (snd (dials as (d\<lparr>d_pacer := None\<rparr>)))"
  using assms
proof (induction as arbitrary: d)
  case (Cons x as)
  obtain a port where x: "x = (a, port)" by force
  obtain r s' where r: "DialTCP a port d = (r, d\<lparr>d_session := s'\<rparr>)"
    "DialTCP a port (d\<lparr>d_pacer := None\<rparr>) = (r, d\<lparr>d_session := s', d_pacer := None\<rparr>)"
    using DialTCP_idle [OF _ Cons.prems, of a port] by (auto simp: NewPacer_def)
  have run: "dials (x # as) d = (r # fst (dials as (d\<lparr>d_session := s'\<rparr>)), snd (dials as (d\<lparr>d_session := s'\<rparr>)))"
    by (simp add: x r(1) case_prod_beta)
  have free: "dials (x # as) (d\<lparr>d_pacer := None\<rparr>)
      = (r # fst (dials as (d\<lparr>d_session := s'\<rparr>\<lparr>d_pacer := None\<rparr>)),
         snd (dials as (d\<lparr>d_session := s'\<rparr>\<lparr>d_pacer := None\<rparr>)))"
    by (simp only: x dials.simps r(2) case_prod_beta fst_conv snd_conv)
  have "d_pacer (d\<lparr>d_session := s'\<rparr>) = Some (NewPacer m jit)" using Cons.prems by simp
  note ih = Cons.IH [OF this]
  show ?case unfolding run free using ih by (simp only: fst_conv snd_conv simp_thms)
qed simp

lemma pacing_never_limits_example:
  "(let rs = fst (dials [([1, 1, 1, 1], 443), ([8, 8, 8, 8], 443)] demo_dialer)
    in rs = [Inr (StreamConn 0), Inr (StreamConn 1)])"
proof -
  have eq: "fst (dials [([1, 1, 1, 1], 443), ([8, 8, 8, 8], 443)] demo_dialer)
      = fst (dials [([1, 1, 1, 1], 443), ([8, 8, 8, 8], 443)] (demo_dialer\<lparr>d_pacer := None\<rparr>))"
    by (rule pacing_never_limits [THEN conjunct1, of _ 1 0]) (simp add: demo_dialer_def)
  show ?thesis unfolding eq
    by (simp add: demo_dialer_def DialTCP_def open_flow_def dial_target_def To4_def Let_def Open_def
        demo_fresh_eq demo_config_def writeFrame_ok AppendTarget_def target_consts)
qed

end
