(* ===== verification/Host_Port.thy ===== *)
theory Host_Port
  imports Go_Strings
begin

text \<open>
  Host and port as text: \<open>net.JoinHostPort\<close> and \<open>net.SplitHostPort\<close>, and the verb \<open>%d\<close> of
  \<open>fmt.Sscanf\<close> with which a port is read back. The facts are the round trips between them.
\<close>

section \<open>Splitting and joining\<close>

definition contains_char :: "char \<Rightarrow> string \<Rightarrow> bool" where
  "contains_char c s \<longleftrightarrow> c \<in> set s"

text \<open>What follows the last colon, and what stands before it.\<close>

definition after_colon :: "string \<Rightarrow> string" where
  "after_colon s = rev (takeWhile (\<lambda>c. c \<noteq> CHR '':'') (rev s))"

definition before_colon :: "string \<Rightarrow> string" where
  "before_colon s = rev (tl (dropWhile (\<lambda>c. c \<noteq> CHR '':'') (rev s)))"

datatype addr_err = MissingPort | MissingBracket | TooManyColons | UnexpectedOpen | UnexpectedClose

text \<open>\<open>net.SplitHostPort\<close>: the host, in brackets if it has a colon, and the port.\<close>

definition SplitHostPort :: "string \<Rightarrow> addr_err + string \<times> string" where
  "SplitHostPort s =
     (if \<not> contains_char CHR '':'' s then Inl MissingPort
      else if hd s = CHR ''[''
      then (let host = takeWhile (\<lambda>c. c \<noteq> CHR '']'') (tl s); rest = drop (length host + 2) s
            in if \<not> contains_char CHR '']'' s then Inl MissingBracket
               else if rest = [] then Inl MissingPort
               else if hd rest \<noteq> CHR '':'' then Inl MissingPort
               else if contains_char CHR '':'' (tl rest) then Inl TooManyColons
               else if contains_char CHR ''['' (tl s) then Inl UnexpectedOpen
               else if contains_char CHR '']'' rest then Inl UnexpectedClose
               else Inr (host, tl rest))
      else if contains_char CHR '':'' (before_colon s) then Inl TooManyColons
      else if contains_char CHR ''['' s then Inl UnexpectedOpen
      else if contains_char CHR '']'' s then Inl UnexpectedClose
      else Inr (before_colon s, after_colon s))"

definition is_digit :: "char \<Rightarrow> bool" where
  "is_digit c \<longleftrightarrow> c \<in> set ''0123456789''"

definition dec_value :: "string \<Rightarrow> nat" where
  "dec_value ds = fold (\<lambda>c n. 10 * n + (of_char c - 48)) ds 0"

text \<open>
  \<open>fmt.Sscanf(s, "%d", &n)\<close> into an \<open>int\<close>: leading blanks, a sign and digits; \<open>None\<close> is an error, which
  leaves \<open>n\<close> as it was.
\<close>

definition Sscanf_d :: "string \<Rightarrow> int option" where
  "Sscanf_d s =
     (let t = dropWhile (\<lambda>c. c = CHR '' '') s;
          neg = (t \<noteq> [] \<and> hd t = CHR ''-'');
          u = (if t \<noteq> [] \<and> hd t \<in> {CHR ''-'', CHR ''+''} then tl t else t);
          ds = takeWhile is_digit u;
          v = (if neg then - int (dec_value ds) else int (dec_value ds))
      in if ds = [] \<or> v < - (2 ^ 63) \<or> v \<ge> 2 ^ 63 then None else Some v)"

definition JoinHostPort :: "string \<Rightarrow> string \<Rightarrow> string" where
  "JoinHostPort host port =
     (if contains_char CHR '':'' host then ''['' @ host @ '']:'' @ port else host @ '':'' @ port)"

section \<open>Round trips\<close>

lemma takeWhile_until: "c \<notin> set xs \<Longrightarrow> takeWhile (\<lambda>x. x \<noteq> c) (xs @ c # ys) = xs"
  by (induction xs) auto

lemma dropWhile_until: "c \<notin> set xs \<Longrightarrow> dropWhile (\<lambda>x. x \<noteq> c) (xs @ c # ys) = c # ys"
  by (induction xs) auto

lemma last_colon:
  "CHR '':'' \<notin> set port \<Longrightarrow> after_colon (host @ CHR '':'' # port) = port"
  "CHR '':'' \<notin> set port \<Longrightarrow> before_colon (host @ CHR '':'' # port) = host"
  using takeWhile_until [of "CHR '':''" "rev port" "rev host"]
    dropWhile_until [of "CHR '':''" "rev port" "rev host"]
  by (simp_all add: after_colon_def before_colon_def)

lemma Split_Join:
  assumes "CHR '':'' \<notin> set port" "CHR ''['' \<notin> set port" "CHR '']'' \<notin> set port"
    and "CHR ''['' \<notin> set host" "CHR '']'' \<notin> set host"
  shows "SplitHostPort (JoinHostPort host port) = Inr (host, port)"
proof (cases "CHR '':'' \<in> set host")
  case True
  have "takeWhile (\<lambda>c. c \<noteq> CHR '']'') (host @ CHR '']'' # CHR '':'' # port) = host"
    by (rule takeWhile_until [OF assms(5)])
  with True assms show ?thesis
    by (simp add: SplitHostPort_def JoinHostPort_def contains_char_def Let_def)
next
  case False
  then have "host @ CHR '':'' # port \<noteq> []" "hd (host @ CHR '':'' # port) \<noteq> CHR ''[''"
    using assms(4) by (cases host; auto)+
  with False assms last_colon [OF assms(1), of host] show ?thesis
    by (simp add: SplitHostPort_def JoinHostPort_def contains_char_def)
qed

lemma digit_cases: "k < 10 \<Longrightarrow> k \<in> {0, 1, 2, 3, 4, 5, 6, 7, 8, 9 :: nat}"
  by auto

lemma digit_char:
  "k < 10 \<Longrightarrow> is_digit (''0123456789'' ! k) \<and> of_char (''0123456789'' ! k) - 48 = k"
  by (drule digit_cases) (auto simp: is_digit_def)

lemma dec_value_snoc: "dec_value (ds @ [c]) = 10 * dec_value ds + (of_char c - 48)"
  by (simp add: dec_value_def)

lemma nat_dec_digits: "nat_dec n \<noteq> [] \<and> (\<forall>c\<in>set (nat_dec n). is_digit c) \<and> dec_value (nat_dec n) = n"
proof (induction n rule: nat_dec.induct)
  case (1 n)
  show ?case
  proof (cases "n < 10")
    case True
    with digit_char [OF True] dec_value_snoc [of "[]"] show ?thesis
      by (simp add: nat_dec.simps [of n] dec_value_def)
  next
    case False
    have "n mod 10 < 10" by simp
    from digit_char [OF this] 1 False show ?thesis
      by (simp add: nat_dec.simps [of n] dec_value_snoc)
  qed
qed

lemma digit_plain: "is_digit c \<Longrightarrow> c \<notin> {CHR '' '', CHR ''-'', CHR ''+'', CHR '':'', CHR ''['', CHR '']''}"
  by (auto simp: is_digit_def)

lemma nat_dec_plain: "c \<in> {CHR '' '', CHR ''-'', CHR ''+'', CHR '':'', CHR ''['', CHR '']''} \<Longrightarrow> c \<notin> set (nat_dec n)"
  using nat_dec_digits [of n] digit_plain by blast

lemma Sscanf_digits:
  assumes "ds \<noteq> []" and "\<forall>c\<in>set ds. is_digit c" and "dec_value ds < 2 ^ 63"
  shows "Sscanf_d ds = Some (int (dec_value ds))"
proof -
  have "hd ds \<in> set ds" using assms(1) by simp
  then have hd: "hd ds \<noteq> CHR '' ''" "hd ds \<noteq> CHR ''-''" "hd ds \<noteq> CHR ''+''"
    using assms(2) digit_plain by blast+
  have "dropWhile (\<lambda>c. c = CHR '' '') ds = ds" using assms(1) hd(1) by (cases ds) auto
  moreover have "takeWhile is_digit ds = ds" using assms(2) by (simp add: takeWhile_eq_all_conv)
  moreover have "int (dec_value ds) < 2 ^ 63" using assms(3) by (metis of_nat_less_iff of_nat_numeral of_nat_power)
  ultimately show ?thesis using assms(1) hd
    by (simp add: Sscanf_d_def Let_def del: takeWhile_eq_all_conv)
qed

lemma Sscanf_Itoa: "0 \<le> i \<Longrightarrow> i < 2 ^ 63 \<Longrightarrow> Sscanf_d (Itoa i) = Some i"
  using nat_dec_digits [of "nat i"] Sscanf_digits [of "nat_dec (nat i)"] by (simp add: Itoa_def nat_less_iff)

end
