(* ===== verification/Flow_Conn.thy ===== *)
theory Flow_Conn
  imports Relay Host_Port
begin

unbundle bit_operations_syntax

text \<open>
  A flow as a \<open>net.Conn\<close>, desktop/internal/relay/dialer.go: \<open>StreamConn\<close>, which passes \<open>Read\<close>, \<open>Write\<close>
  and \<open>Close\<close> on to the stream and turns the multiplexer's errors into those of package net, its
  addresses, and the construction of the dialer and the exchange of its session; with
  \<open>Target.String\<close> of desktop/internal/mux/target.go, the address it reports.
\<close>

section \<open>The address\<close>

definition Target_String :: "target \<Rightarrow> string" where
  "Target_String t =
     (let host = (if ATYP t = ATYPIPv4 \<or> ATYP t = ATYPIPv6 then ip_String (Address t)
                  else if ATYP t = ATYPFQDN then map (\<lambda>b. char_of (unat b)) (Address t) else []);
          netName = (if Network t = NetUDP then ''udp'' else ''tcp'')
      in JoinHostPort host (Itoa (uint (Port t))) @ ''/'' @ netName)"

definition RemoteAddr :: "nat \<Rightarrow> session \<Rightarrow> string" where
  "RemoteAddr a s = Target_String (Target (heap s ! a))"

section \<open>Reading, writing, closing\<close>

datatype flow_read = FlowWait | FlowErr relay_err | FlowData bytes

definition StreamConn_Read :: "nat \<Rightarrow> nat \<Rightarrow> session \<Rightarrow> flow_read \<times> session" where
  "StreamConn_Read a n s =
     (case StreamRead a n s of
        (ReadBlock, s') \<Rightarrow> (FlowWait, s')
      | (ReadErr e, s') \<Rightarrow> (FlowErr (mapErr e), s')
      | (ReadData xs _, s') \<Rightarrow> (FlowData xs, s'))"

text \<open>The count and the error of a \<open>Write\<close> that returns; \<open>None\<close> while it waits, or when it panics.\<close>

definition write_outcome :: "write_result \<Rightarrow> (nat \<times> relay_err option) option" where
  "write_outcome r =
     (case r of
        Written n \<Rightarrow> Some (n, None)
      | WriteFailed n e \<Rightarrow> Some (n, Some (mapErr e))
      | WriteBlocked _ \<Rightarrow> None
      | WritePanicked _ \<Rightarrow> None)"

definition StreamConn_Write :: "nat \<Rightarrow> bytes \<Rightarrow> session \<Rightarrow> ((nat \<times> relay_err option) option \<times> session) option" where
  "StreamConn_Write a p s = map_option (\<lambda>(r, s'). (write_outcome r, s')) (StreamWrite a p s)"

definition StreamConn_Close :: "nat \<Rightarrow> session \<Rightarrow> mux_err option \<times> session" where
  "StreamConn_Close a s = StreamClose a s"

section \<open>The dialer's session\<close>

definition NewTunnelDialer :: "session option \<Rightarrow> SanitizeConfig option \<Rightarrow> pacer option \<Rightarrow> TunnelDialer" where
  "NewTunnelDialer s sanitize p = \<lparr>d_session = s, d_sanitizer = sanitize, d_pacer = p\<rparr>"

definition SetSession :: "session option \<Rightarrow> TunnelDialer \<Rightarrow> TunnelDialer" where
  "SetSession s d = d\<lparr>d_session := s\<rparr>"

section \<open>Facts\<close>

text \<open>A flow on a stream that is gone says so in the terms of package net; an end of stream stays one.\<close>

lemma StreamConn_Read_gone:
  assumes "0 < n" and "buf (heap s ! a) = []"
  shows "fst (StreamConn_Read a n s) =
     (if reset (heap s ! a) then FlowErr ErrClosed
      else if finRecv (heap s ! a) then FlowErr (MuxErr (ErrIO EOF))
      else if sclosed (heap s ! a) then FlowErr ErrClosed else FlowWait)"
  using assms by (simp add: StreamConn_Read_def StreamRead_def Read_locked_def mapErr_def)

text \<open>The port of a target is read back from its text.\<close>

lemma Target_String_IPv4:
  assumes "ATYP t = ATYPIPv4" and "Network t = NetTCP" and "Address t = [a, b, c, d]"
  shows "Target_String t = nat_dec (unat a) @ ''.'' @ nat_dec (unat b) @ ''.'' @ nat_dec (unat c) @ ''.''
    @ nat_dec (unat d) @ '':'' @ Itoa (uint (Port t)) @ ''/tcp''"
proof -
  have "CHR '':'' \<notin> set (ip_String [a, b, c, d])"
    using nat_dec_plain [of "CHR '':''"] by (simp add: ip_String_def To4_def)
  then show ?thesis
    using assms by (simp add: Target_String_def JoinHostPort_def contains_char_def ip_String_def To4_def
        NetTCP_def NetUDP_def)
qed

end
