(* ===== verification/Resolver.thy ===== *)
theory Resolver
  imports Byte_IO Go_Strings
begin

unbundle bit_operations_syntax

text \<open>
  The local resolver, desktop/internal/resolver/resolver.go: the UDP responder that answers every
  query with the truncation flag, the DNS-over-TCP handler that forwards one query upstream, and
  the DoH upstream that tries the configured servers in order. The HTTP client (net/http over the
  tunnel) is a parameter, \<open>post\<close>: it returns an error, or a status and a body to be read.
\<close>

section \<open>The truncated response\<close>

definition flagQR :: u16 where "flagQR = 0x8000"
definition flagTC :: u16 where "flagTC = 0x0200"

text \<open>\<open>copy(buf[i:], b)\<close>, where \<open>b\<close> fits.\<close>

definition put_at :: "nat \<Rightarrow> bytes \<Rightarrow> bytes \<Rightarrow> bytes" where
  "put_at i b xs = take i xs @ b @ drop (i + length b) xs"

definition truncatedResponse :: "bytes \<Rightarrow> bytes" where
  "truncatedResponse query =
     (let resp = put_at 0 (take 4 query) (replicate 12 0);
          qFlags = get_u16 (take 2 (drop 2 query));
          h = (qFlags AND 0x7900) OR flagQR OR flagTC;
          resp = put_at 2 (put_u16 h) resp;
          resp = put_at 4 (put_u16 (get_u16 (take 2 (drop 4 query)))) resp
      in put_at 6 (replicate 6 0) resp)"

text \<open>
  The loop of \<open>ServeUDP\<close> after the bind. Each element of the list is one \<open>ReadFromUDP\<close>: whether
  \<open>Close\<close> was called before it returned, and what it returned. The result is the datagrams sent
  and whether the loop has ended.
\<close>

datatype udp_read = ReadFailed | Datagram bytes

fun ServeUDP :: "bool \<Rightarrow> (bool \<times> udp_read) list \<Rightarrow> bytes list \<times> bool" where
  "ServeUDP is_closed [] = ([], is_closed)"
| "ServeUDP is_closed ((cl, r) # evs) =
     (if is_closed then ([], True)
      else (case r of
              ReadFailed \<Rightarrow> if cl then ([], True) else ServeUDP cl evs
            | Datagram b \<Rightarrow>
                (if length b < 12 then ServeUDP cl evs
                 else (case ServeUDP cl evs of (sent, fin) \<Rightarrow> (truncatedResponse b # sent, fin)))))"

section \<open>DNS over HTTPS\<close>

datatype doh_err =
    PostErr io_err | DohStatus int | ResponseTooLarge | ResponseTruncated
  | AllServersFailed "doh_err option"

text \<open>
  The loop that reads the body: a read that returns nothing, or any error, ends it.
\<close>

function doh_body :: "'b reader \<Rightarrow> bytes \<Rightarrow> 'b \<Rightarrow> (doh_err + bytes) \<times> 'b" where
  "doh_body rd body b =
     (case rd 4096 b of
        (xs, e, b') \<Rightarrow>
          (if length xs = 0 \<or> e \<noteq> None then (Inr (body @ xs), b')
           else if length (body @ xs) > 64 * 1024 then (Inl ResponseTooLarge, b')
           else doh_body rd (body @ xs) b'))"
  by pat_completeness auto
termination
  by (relation "measure (\<lambda>(rd, body, b). 64 * 1024 + 1 - length body)")
    (auto simp: not_less neq_Nil_conv)

declare doh_body.simps [simp del]

text \<open>
  \<open>post server query net\<close>: the error of the request, or the status and the response's body.
\<close>

type_synonym ('b, 'n) http_post =
  "string \<Rightarrow> bytes \<Rightarrow> 'n \<Rightarrow> (io_err + int \<times> 'b) \<times> 'n"

definition dohPost :: "('b, 'n) http_post \<Rightarrow> 'b reader \<Rightarrow> string \<Rightarrow> bytes \<Rightarrow> 'n
    \<Rightarrow> (doh_err + bytes) \<times> 'n" where
  "dohPost post rd server query net =
     (case post server query net of
        (Inl err, net') \<Rightarrow> (Inl (PostErr err), net')
      | (Inr (status, b), net') \<Rightarrow>
          (if status \<noteq> 200 then (Inl (DohStatus status), net')
           else (case doh_body rd [] b of
                   (Inl err, _) \<Rightarrow> (Inl err, net')
                 | (Inr body, _) \<Rightarrow>
                     (if length body < 12 then (Inl ResponseTruncated, net')
                      else (Inr body, net')))))"

fun query_servers :: "('b, 'n) http_post \<Rightarrow> 'b reader \<Rightarrow> doh_err option \<Rightarrow> string list
    \<Rightarrow> bytes \<Rightarrow> 'n \<Rightarrow> (doh_err + bytes) \<times> 'n" where
  "query_servers post rd lastErr [] query net = (Inl (AllServersFailed lastErr), net)"
| "query_servers post rd lastErr (server # servers) query net =
     (case dohPost post rd server query net of
        (Inl err, net') \<Rightarrow> query_servers post rd (Some err) servers query net'
      | (Inr resp, net') \<Rightarrow> (Inr resp, net'))"

definition QueryWire :: "('b, 'n) http_post \<Rightarrow> 'b reader \<Rightarrow> string list \<Rightarrow> bytes \<Rightarrow> 'n
    \<Rightarrow> (doh_err + bytes) \<times> 'n" where
  "QueryWire post rd ServerURLs query net = query_servers post rd None ServerURLs query net"

section \<open>DNS over TCP\<close>

datatype tcp_err = TcpIO io_err | BadSize nat | Upstream doh_err

text \<open>A connection of the netstack: its two directions, and whether it was closed.\<close>

record ('s, 'w) tcp_conn =
  tin :: 's
  tout :: 'w
  tclosed :: bool

type_synonym 'u upstream = "bytes \<Rightarrow> 'u \<Rightarrow> (doh_err + bytes) \<times> 'u"

text \<open>
  \<open>HandleTCP\<close>; the value \<open>None\<close> is "does not return". The deferred \<open>conn.Close\<close> runs on every way
  out.
\<close>

definition reply_tcp :: "'w writer \<Rightarrow> bytes \<Rightarrow> 'w \<Rightarrow> io_err option \<times> 'w" where
  "reply_tcp wr response w =
     (let response = (if length response > 0xFFFF then take 0xFFFF response else response)
      in wr (put_u16 (of_nat (length response)) @ response) w)"

definition HandleTCP :: "'s reader \<Rightarrow> 'w writer \<Rightarrow> 'u upstream \<Rightarrow> ('s, 'w) tcp_conn \<Rightarrow> 'u
    \<Rightarrow> (tcp_err option \<times> ('s, 'w) tcp_conn \<times> 'u) option" where
  "HandleTCP rd wr up c u =
     (case readFull rd 2 (tin c) of
        None \<Rightarrow> None
      | Some (Inl e, s1) \<Rightarrow> Some (Some (TcpIO e), c\<lparr>tin := s1, tclosed := True\<rparr>, u)
      | Some (Inr lenBuf, s1) \<Rightarrow>
          (let size = unat (get_u16 lenBuf)
           in if size < 12 \<or> size > 4096
              then Some (Some (BadSize size), c\<lparr>tin := s1, tclosed := True\<rparr>, u)
              else
                (case readFull rd size s1 of
                   None \<Rightarrow> None
                 | Some (Inl e, s2) \<Rightarrow> Some (Some (TcpIO e), c\<lparr>tin := s2, tclosed := True\<rparr>, u)
                 | Some (Inr query, s2) \<Rightarrow>
                     (case up query u of
                        (Inl e, u') \<Rightarrow>
                          Some (Some (Upstream e), c\<lparr>tin := s2, tclosed := True\<rparr>, u')
                      | (Inr response, u') \<Rightarrow>
                          (case reply_tcp wr response (tout c) of
                             (e, w') \<Rightarrow>
                               Some (map_option TcpIO e,
                                     c\<lparr>tin := s2, tout := w', tclosed := True\<rparr>, u'))))))"

section \<open>Facts\<close>

lemma doh_body_length:
  "doh_body rd body b = (Inr r, b') \<Longrightarrow> (\<And>n s. length (fst (rd n s)) \<le> n) \<Longrightarrow>
    length body \<le> 64 * 1024 \<Longrightarrow> length r \<le> 64 * 1024 + 4096 \<and> (\<exists>xs. r = body @ xs)"
proof (induction rd body b rule: doh_body.induct)
  case (1 rd body b)
  obtain xs e b1 where rd: "rd 4096 b = (xs, e, b1)" by (metis prod_cases3)
  have fits: "length xs \<le> 4096" using "1.prems"(2) [of 4096 b] rd by simp
  show ?case
  proof (cases "length xs = 0 \<or> e \<noteq> None")
    case True
    then have "r = body @ xs" using "1.prems"(1) rd by (auto simp: doh_body.simps [of rd body b])
    then show ?thesis using fits "1.prems"(3) by simp
  next
    case False
    with "1.prems"(1) rd have more: "doh_body rd (body @ xs) b1 = (Inr r, b')"
        "\<not> length (body @ xs) > 64 * 1024"
      by (auto simp: doh_body.simps [of rd body b] split: if_splits)
    have "length r \<le> 64 * 1024 + 4096 \<and> (\<exists>ys. r = (body @ xs) @ ys)"
      using "1.IH" [OF rd [symmetric] refl False more(2) more(1) "1.prems"(2)] more(2) by auto
    then show ?thesis by auto
  qed
qed

lemma dohPost_length:
  assumes "dohPost post rd server query net = (Inr r, net')"
    and "\<And>n s. length (fst (rd n s)) \<le> n"
  shows "12 \<le> length r \<and> length r \<le> 64 * 1024 + 4096"
proof -
  obtain net1 b b' where "post server query net = (Inr (200, b), net1)"
    "doh_body rd [] b = (Inr r, b')" "12 \<le> length r"
    using assms(1) by (auto simp: dohPost_def split: sum.splits prod.splits if_splits)
  with doh_body_length [of rd "[]" b r b'] assms(2) show ?thesis by auto
qed

end
