(* ===== verification/Resolver_Properties.thy ===== *)
theory Resolver_Properties
  imports Resolver
begin

unbundle bit_operations_syntax

text \<open>
  The properties of the local resolver: the answer that makes a client retry over TCP, the
  DNS-over-TCP exchange over any chunking of the query, and the choice of the DoH server.
\<close>

section \<open>The truncated response\<close>

lemma list_of_12: "12 \<le> length q \<Longrightarrow> \<exists>a b c d e f r. q = a # b # c # d # e # f # r \<and> 6 \<le> length r"
  by (auto simp: numeral_eq_Suc Suc_le_length_iff)

lemma truncatedResponse_parts:
  assumes "12 \<le> length q"
  shows "truncatedResponse q = take 2 q
    @ put_u16 ((get_u16 (take 2 (drop 2 q)) AND 0x7900) OR 0x8000 OR 0x0200)
    @ take 2 (drop 4 q) @ replicate 6 0"
proof -
  obtain a b c d e f r where q: "q = a # b # c # d # e # f # r"
    using list_of_12 [OF assms] by blast
  have "put_u16 (get_u16 [e, f]) = [e, f]" by (rule put_get_u16)
  then show ?thesis
    by (simp add: q truncatedResponse_def Let_def put_at_def put_u16_def flagQR_def flagTC_def
        numeral_eq_Suc)
qed

lemma below_16: "(n :: nat) < 16 \<Longrightarrow> n \<in> {0, 1, 2, 3, 4, 5, 6, 7, 8, 9, 10, 11, 12, 13, 14, 15}"
  by (simp only: insert_iff empty_iff) presburger

lemma bit_7900: "bit (0x7900 :: u16) n \<longleftrightarrow> n \<in> {8, 11, 12, 13, 14}"
proof (cases "n < 16")
  case True
  from below_16 [OF this] show ?thesis by (elim insertE emptyE) simp_all
next
  case False
  then show ?thesis using bit_imp_le_length [of "0x7900 :: u16" n] by auto
qed

lemma bit_8200: "bit (0x8200 :: u16) n \<longleftrightarrow> n \<in> {9, 15}"
proof (cases "n < 16")
  case True
  from below_16 [OF this] show ?thesis by (elim insertE emptyE) simp_all
next
  case False
  then show ?thesis using bit_imp_le_length [of "0x8200 :: u16" n] by auto
qed

lemma reply_flags:
  "bit ((f AND 0x7900) OR 0x8000 OR 0x0200 :: u16) n \<longleftrightarrow>
    n = 15 \<or> n = 9 \<or> n \<in> {8, 11, 12, 13, 14} \<and> bit f n"
proof -
  have "(0x8000 OR 0x0200 :: u16) = 0x8200" by simp
  then have "bit ((f AND 0x7900) OR 0x8000 OR 0x0200) n \<longleftrightarrow> bit (f AND 0x7900) n \<or> bit (0x8200 :: u16) n"
    by (simp only: bit_or_iff)
  then show ?thesis unfolding bit_and_iff bit_7900 bit_8200 by blast
qed

text \<open>Every well-formed UDP query is answered so that the client retries over TCP: the answer has
  twelve bytes, the query's id, the response and truncation bits, the query's opcode and
  recursion-desired bits and no other, the query's question count (with no question following)
  and no records; and the loop answers the datagrams of at least twelve bytes, in order.\<close>

lemma truncated_answer:
  assumes "12 \<le> length q" and "\<forall>(cl, _)\<in>set evs. \<not> cl"
  shows "length (truncatedResponse q) = 12
    \<and> take 2 (truncatedResponse q) = take 2 q
    \<and> (\<forall>n. bit (get_u16 (take 2 (drop 2 (truncatedResponse q)))) n \<longleftrightarrow>
         n = 15 \<or> n = 9 \<or> n \<in> {8, 11, 12, 13, 14} \<and> bit (get_u16 (take 2 (drop 2 q))) n)
    \<and> take 2 (drop 4 (truncatedResponse q)) = take 2 (drop 4 q)
    \<and> drop 6 (truncatedResponse q) = replicate 6 0
    \<and> fst (ServeUDP False evs)
        = [truncatedResponse b. (_, Datagram b) \<leftarrow> evs, 12 \<le> length b]"
proof -
  have len: "length (take 2 q) = 2" "length (take 2 (drop 4 q)) = 2" using assms(1) by simp_all
  have serve: "fst (ServeUDP False evs) = [truncatedResponse b. (_, Datagram b) \<leftarrow> evs, 12 \<le> length b]"
    using assms(2)
  proof (induction evs)
    case (Cons x evs)
    then obtain r where x: "x = (False, r)" by (cases x) auto
    from Cons have "fst (ServeUDP False evs) = [truncatedResponse b. (_, Datagram b) \<leftarrow> evs, 12 \<le> length b]"
      by simp
    then show ?case by (cases r) (auto simp: x case_prod_beta)
  qed simp
  define h where "h = (get_u16 (take 2 (drop 2 q)) AND 0x7900) OR 0x8000 OR 0x0200"
  have parts: "truncatedResponse q = take 2 q @ put_u16 h @ take 2 (drop 4 q) @ replicate 6 0"
    unfolding h_def by (rule truncatedResponse_parts [OF assms(1)])
  have flags: "take 2 (drop 2 (truncatedResponse q)) = put_u16 h" unfolding parts using len by simp
  have bits: "bit (get_u16 (take 2 (drop 2 (truncatedResponse q)))) n \<longleftrightarrow>
      n = 15 \<or> n = 9 \<or> n \<in> {8, 11, 12, 13, 14} \<and> bit (get_u16 (take 2 (drop 2 q))) n" for n
    unfolding flags get_put_u16 unfolding h_def by (rule reply_flags)
  have "length (truncatedResponse q) = 12" "take 2 (truncatedResponse q) = take 2 q"
    "take 2 (drop 4 (truncatedResponse q)) = take 2 (drop 4 q)"
    "drop 6 (truncatedResponse q) = replicate 6 0"
    unfolding parts using len by simp_all
  with bits serve show ?thesis by blast
qed

definition demo_query :: bytes where
  "demo_query = [171, 205, 1, 0, 0, 1, 0, 0, 0, 0, 0, 0]"

lemma truncated_answer_example:
  "fst (ServeUDP False [(False, ReadFailed), (False, Datagram [1, 2]), (False, Datagram demo_query)])
    = [[171, 205, 131, 0, 0, 1, 0, 0, 0, 0, 0, 0]]"
proof -
  have "12 \<le> length demo_query"
    "\<forall>(cl, _)\<in>set [(False, ReadFailed), (False, Datagram [1, 2]), (False, Datagram demo_query)]. \<not> cl"
    by (simp_all add: demo_query_def)
  note spec = truncated_answer [OF this]
  have zeros: "replicate 6 (0 :: byte) = [0, 0, 0, 0, 0, 0]" by (simp add: numeral_eq_Suc)
  have "truncatedResponse demo_query = [171, 205, 131, 0, 0, 1, 0, 0, 0, 0, 0, 0]"
    by (simp add: truncatedResponse_def put_at_def demo_query_def Let_def get_u16_def put_u16_def
        flagQR_def flagTC_def zeros)
  with spec show ?thesis by (simp add: demo_query_def numeral_eq_Suc)
qed

section \<open>DNS over TCP\<close>

lemma size_prefix [simp]: "n < 65536 \<Longrightarrow> unat (get_u16 (put_u16 (of_nat n))) = n"
  by (simp add: unat_of_nat)

text \<open>C23: One query, one answer. Whatever chunks a length-prefixed query of 12 to 4096 bytes arrives
  in, HandleTCP asks the upstream exactly that query once and closes the connection. If the
  upstream answers, the client receives one message whose length prefix is right, holding the
  answer up to its first 65535 bytes, and the bytes after the query stay unread; if it fails,
  nothing is written.\<close>

theorem dns_over_tcp:
  assumes "12 \<le> length q" and "length q \<le> 4096"
    and "concat cs = put_u16 (of_nat (length q)) @ q @ rest" and "wok w" and "up q u = (r, u')"
  shows "\<exists>cs'. concat cs' = rest \<and>
    (case r of
       Inr ans \<Rightarrow>
         HandleTCP (src_read e) conn_write up \<lparr>tin = cs, tout = w, tclosed = False\<rparr> u
         = Some (None, \<lparr>tin = cs', tout = w\<lparr>wbytes := wbytes w
               @ put_u16 (of_nat (length (take 65535 ans))) @ take 65535 ans\<rparr>, tclosed = True\<rparr>, u')
         \<and> unat (get_u16 (put_u16 (of_nat (length (take 65535 ans))))) = length (take 65535 ans)
     | Inl err \<Rightarrow>
         HandleTCP (src_read e) conn_write up \<lparr>tin = cs, tout = w, tclosed = False\<rparr> u
         = Some (Some (Upstream err), \<lparr>tin = cs', tout = w, tclosed = True\<rparr>, u'))"
proof -
  have "2 \<le> length (concat cs)" using assms(3) by simp
  from src.readFull_full [OF TrueI this] obtain s1 where s1:
    "readFull (src_read e) 2 cs = Some (Inr (put_u16 (of_nat (length q))), s1)"
    "concat s1 = q @ rest" using assms(3) by auto
  have "length q \<le> length (concat s1)" using s1(2) by simp
  from src.readFull_full [OF TrueI this] obtain s2 where s2:
    "readFull (src_read e) (length q) s1 = Some (Inr q, s2)" "concat s2 = rest" using s1(2) by auto
  have size: "unat (of_nat (length q) :: u16) = length q"
    using assms(2) by (simp add: unat_of_nat)
  have cut: "(if length ans > 0xFFFF then take 0xFFFF ans else ans) = take 65535 ans" for ans :: bytes
    by simp
  note run = HandleTCP_def s1(1) s2(1) size Let_def
  show ?thesis
  proof (cases r)
    case (Inl err)
    then show ?thesis using assms s2(2) by (auto simp: run)
  next
    case (Inr ans)
    have "length (take 65535 ans) < 65536" by simp
    then have "unat (get_u16 (put_u16 (of_nat (length (take 65535 ans))))) = length (take 65535 ans)"
      by (rule size_prefix)
    with Inr show ?thesis using assms s2(2)
      by (intro exI [of _ s2]) (simp add: run reply_tcp_def cut)
  qed
qed

theorem dns_over_tcp_witness:
  "\<exists>cs'. concat cs' = [9] \<and>
    HandleTCP (src_read EOF) conn_write (\<lambda>q u. (Inr (rev q), u + 1))
      \<lparr>tin = [[0], [12, 1, 2, 3], [4, 5, 6, 7, 8, 9, 10, 11, 12, 9]], tout = \<lparr>wbytes = [], wok = True\<rparr>,
       tclosed = False\<rparr> (0 :: nat)
    = Some (None, \<lparr>tin = cs', tout = \<lparr>wbytes = [0, 12, 12, 11, 10, 9, 8, 7, 6, 5, 4, 3, 2, 1],
        wok = True\<rparr>, tclosed = True\<rparr>, 1)"
proof -
  have "concat [[0], [12, 1, 2, 3], [4, 5, 6, 7, 8, 9, 10, 11, 12, 9]]
      = put_u16 (of_nat (length [1, 2, 3, 4, 5, 6, 7, 8, 9, 10, 11, 12 :: byte])) @
        [1, 2, 3, 4, 5, 6, 7, 8, 9, 10, 11, 12] @ [9]"
    by (simp add: put_u16_def)
  from dns_over_tcp [OF _ _ this, of "\<lparr>wbytes = [], wok = True\<rparr>" "\<lambda>q u. (Inr (rev q), u + 1)" "0 :: nat"
      "Inr (rev [1, 2, 3, 4, 5, 6, 7, 8, 9, 10, 11, 12])" 1 EOF]
  show ?thesis by (simp add: put_u16_def) blast
qed

section \<open>The DoH upstream\<close>

text \<open>An answer: the servers before the one that gave it were asked in order, and failed.\<close>

lemma query_servers_answer:
  "query_servers post rd failed servers q net = (Inr r, net') \<Longrightarrow>
    \<exists>before server after err net1. servers = before @ server # after
      \<and> query_servers post rd failed before q net = (Inl err, net1)
      \<and> dohPost post rd server q net1 = (Inr r, net')"
proof (induction servers arbitrary: failed net)
  case (Cons server servers)
  obtain x net1 where post: "dohPost post rd server q net = (x, net1)" by force
  show ?case
  proof (cases x)
    case (Inl e)
    with Cons.prems post have "query_servers post rd (Some e) servers q net1 = (Inr r, net')" by simp
    from Cons.IH [OF this] obtain before s after err net2 where
      "servers = before @ s # after" "query_servers post rd (Some e) before q net1 = (Inl err, net2)"
      "dohPost post rd s q net2 = (Inr r, net')" by blast
    with post Inl show ?thesis
      by (intro exI [of _ "server # before"] exI [of _ s] exI [of _ after] exI [of _ err] exI [of _ net2])
        simp
  next
    case (Inr y)
    with Cons.prems post have "dohPost post rd server q net = (Inr r, net')" by simp
    then show ?thesis
      by (intro exI [of _ "[]"] exI [of _ server] exI [of _ servers]
          exI [of _ "AllServersFailed failed"] exI [of _ net]) simp
  qed
qed simp

text \<open>The size of an upstream answer is bounded and the servers are tried in order. Over any HTTP
  client whose body reads respect the buffer, an answer of QueryWire is at least a DNS header and
  at most 64 KiB plus one read long; it is the answer of one configured server, and asking just
  the servers before that one fails.\<close>

lemma doh_answer_bounded:
  assumes "\<And>n s. length (fst (rd n s)) \<le> n" and "QueryWire post rd servers q net = (Inr r, net')"
  shows "12 \<le> length r \<and> length r \<le> 64 * 1024 + 4096
    \<and> (\<exists>before server after err net1. servers = before @ server # after
        \<and> QueryWire post rd before q net = (Inl err, net1)
        \<and> dohPost post rd server q net1 = (Inr r, net'))"
proof -
  obtain before server after err net1 where
    *: "servers = before @ server # after" "QueryWire post rd before q net = (Inl err, net1)"
      "dohPost post rd server q net1 = (Inr r, net')"
    using query_servers_answer [OF assms(2) [unfolded QueryWire_def]] unfolding QueryWire_def by blast
  with dohPost_length [OF *(3) assms(1)] show ?thesis by blast
qed

text \<open>A client whose first server answers 503, and whose second delivers the body in two reads.\<close>

definition demo_post :: "(bytes list, nat) http_post" where
  "demo_post server q net =
     (if server = ''a'' then (Inr (503, []), net + 1) else (Inr (200, [take 5 q, drop 5 q]), net + 1))"

lemma src_read_fits: "length (fst (src_read e n s)) \<le> n"
  by (cases s) auto

lemma doh_answer_bounded_example:
  "QueryWire demo_post (src_read EOF) [''a'', ''b'', ''c''] demo_query 0 = (Inr demo_query, 2)
   \<and> (\<exists>before server after err net1. [''a'', ''b'', ''c''] = before @ server # after
        \<and> QueryWire demo_post (src_read EOF) before demo_query 0 = (Inl err, net1)
        \<and> dohPost demo_post (src_read EOF) server demo_query net1 = (Inr demo_query, 2))"
proof -
  have run: "QueryWire demo_post (src_read EOF) [''a'', ''b'', ''c''] demo_query 0 = (Inr demo_query, 2)"
    by (simp add: QueryWire_def demo_post_def dohPost_def doh_body.simps demo_query_def)
  with doh_answer_bounded [OF src_read_fits run] show ?thesis by blast
qed

end
