(* ===== verification/Vectors.thy ===== *)
theory Vectors
  imports Mux_Properties Handshake Go_Strings
begin

unbundle bit_operations_syntax

text \<open>
  The generator of the golden vectors, desktop/cmd/vectorgen/main.go: the frame, target and SAS
  cases that both implementations of the protocol are tested with. \<open>fatal\<close> ends the program, so
  a case that cannot be built is \<open>None\<close>. The JSON writer and the file names are left out.
\<close>

section \<open>encoding/hex\<close>

definition EncodeToString :: "bytes \<Rightarrow> string" where
  "EncodeToString b =
     concat (map (\<lambda>x. [hex_digit (unat x div 16), hex_digit (unat x mod 16)]) b)"

definition fromHexChar :: "char \<Rightarrow> nat option" where
  "fromHexChar c =
     (let n = of_char c :: nat
      in if 48 \<le> n \<and> n \<le> 57 then Some (n - 48)
         else if 97 \<le> n \<and> n \<le> 102 then Some (n - 87)
         else if 65 \<le> n \<and> n \<le> 70 then Some (n - 55)
         else None)"

fun DecodeString :: "string \<Rightarrow> bytes option" where
  "DecodeString [] = Some []"
| "DecodeString [c] = None"
| "DecodeString (c # d # s) =
     (case (fromHexChar c, fromHexChar d, DecodeString s) of
        (Some a, Some b, Some r) \<Rightarrow> Some (of_nat (a * 16 + b) # r)
      | _ \<Rightarrow> None)"

section \<open>Frame cases\<close>

record frameCase =
  fc_Name :: string
  fc_Kind :: string
  fc_Reason :: string
  fc_MaxPayload :: u32
  fc_Version :: int
  fc_Flags :: int
  fc_StreamID :: u32
  fc_PayloadHex :: string
  fc_EncodedHex :: string

definition validFrame :: "string \<Rightarrow> frame \<Rightarrow> u32 \<Rightarrow> frameCase option" where
  "validFrame name f maxPayload =
     (case AppendFrame [] f maxPayload of
        (_, Some _) \<Rightarrow> None
      | (encoded, None) \<Rightarrow>
          Some \<lparr>fc_Name = name, fc_Kind = ''valid'', fc_Reason = [], fc_MaxPayload = maxPayload,
            fc_Version = uint (Version f), fc_Flags = uint (Flags f), fc_StreamID = StreamID f,
            fc_PayloadHex = EncodeToString (Payload f), fc_EncodedHex = EncodeToString encoded\<rparr>)"

definition rawErrorFrame :: "string \<Rightarrow> string \<Rightarrow> u32 \<Rightarrow> int \<Rightarrow> int \<Rightarrow> u32 \<Rightarrow> string
    \<Rightarrow> frameCase option" where
  "rawErrorFrame name reason maxPayload version flags streamID payloadHex =
     (case DecodeString payloadHex of
        None \<Rightarrow> None
      | Some payload \<Rightarrow>
          (let header = [word_of_int version, word_of_int flags] @ put_u32 streamID
                 @ put_u32 (len32 payload)
           in Some \<lparr>fc_Name = name, fc_Kind = ''error'', fc_Reason = reason,
                fc_MaxPayload = maxPayload, fc_Version = 0, fc_Flags = 0, fc_StreamID = 0,
                fc_PayloadHex = [], fc_EncodedHex = EncodeToString (header @ payload)\<rparr>))"

definition mustFQDN :: "string \<Rightarrow> u16 \<Rightarrow> target option" where
  "mustFQDN host port =
     (case TCPFQDN (bytes_of_string host) port of Inl _ \<Rightarrow> None | Inr t \<Rightarrow> Some t)"

definition fd00One :: bytes where
  "fd00One = (replicate 16 0)[0 := 0xfd, 15 := 1]"

definition maxFrame :: u32 where "maxFrame = 65536"

fun collect :: "'a option list \<Rightarrow> 'a list option" where
  "collect [] = Some []"
| "collect (x # xs) = (case (x, collect xs) of (Some y, Some ys) \<Rightarrow> Some (y # ys) | _ \<Rightarrow> None)"

definition synCase :: "string \<Rightarrow> target option \<Rightarrow> u32 \<Rightarrow> frameCase option" where
  "synCase name t i =
     (case t of None \<Rightarrow> None
      | Some t \<Rightarrow> validFrame name \<lparr>Version = 1, Flags = FlagSYN, StreamID = i, Payload = AppendTarget [] t\<rparr> maxFrame)"

definition frame_cases :: "frameCase option list" where
  "frame_cases =
    [validFrame ''data_simple'' \<lparr>Version = 1, Flags = FlagDATA, StreamID = 1,
       Payload = bytes_of_string ''hello tlmp''\<rparr> maxFrame,
     synCase ''syn_fqdn'' (mustFQDN ''example.com'' 443) 3,
     synCase ''syn_ipv4'' (Some (TCPv4 [192, 168, 1, 1] 8080)) 5,
     synCase ''syn_ipv6'' (Some \<lparr>Network = NetTCP, ATYP = ATYPIPv6, Address = fd00One, Port = 53\<rparr>) 7,
     validFrame ''win_update'' \<lparr>Version = 1, Flags = FlagWIN, StreamID = 9, Payload = [0, 1, 0, 0]\<rparr> maxFrame,
     validFrame ''fin'' \<lparr>Version = 1, Flags = FlagFIN, StreamID = 11, Payload = []\<rparr> maxFrame,
     validFrame ''rst'' \<lparr>Version = 1, Flags = FlagRST, StreamID = 13, Payload = [ReasonBusy]\<rparr> maxFrame,
     validFrame ''ping'' \<lparr>Version = 1, Flags = FlagPING, StreamID = 0,
       Payload = [1, 2, 3, 4, 5, 6, 7, 8]\<rparr> maxFrame,
     validFrame ''pong'' \<lparr>Version = 1, Flags = FlagPONG, StreamID = 0,
       Payload = [1, 2, 3, 4, 5, 6, 7, 8]\<rparr> maxFrame,
     validFrame ''goaway'' \<lparr>Version = 1, Flags = FlagGOAWAY, StreamID = 0, Payload = [ReasonNormal]\<rparr> maxFrame,
     validFrame ''data_high_stream_id'' \<lparr>Version = 1, Flags = FlagDATA, StreamID = 65535,
       Payload = [0xaa]\<rparr> maxFrame,
     rawErrorFrame ''reject_unsupported_version'' ''unsupported_version'' maxFrame 2 (uint FlagDATA) 1 [],
     rawErrorFrame ''reject_frame_too_large'' ''frame_too_large'' 4 1 (uint FlagDATA) 1 ''aabbccddee'',
     rawErrorFrame ''reject_ping_with_stream_id'' ''control_stream_id'' maxFrame 1 (uint FlagPING) 4
       ''0000000000000000'',
     rawErrorFrame ''reject_win_short_payload'' ''win_payload_size'' maxFrame 1 (uint FlagWIN) 1 ''0001'',
     rawErrorFrame ''reject_rst_short_payload'' ''rst_payload_size'' maxFrame 1 (uint FlagRST) 1 ''0001'',
     rawErrorFrame ''reject_goaway_with_stream_id'' ''control_stream_id'' maxFrame 1 (uint FlagGOAWAY) 7 ''00'',
     rawErrorFrame ''reject_syn_combined_with_data'' ''syn_with_data'' maxFrame 1
       (uint (FlagSYN OR FlagDATA)) 1 []]"

definition buildFrames :: "frameCase list option" where
  "buildFrames = collect frame_cases"

section \<open>Target cases\<close>

record targetCase =
  tc_Name :: string
  tc_Kind :: string
  tc_Network :: string
  tc_ATYP :: string
  tc_Host :: string
  tc_Port :: u16
  tc_EncodedHex :: string

definition networkName :: "byte \<Rightarrow> string" where
  "networkName n = (if n = NetUDP then ''udp'' else ''tcp'')"

definition atypName :: "byte \<Rightarrow> string" where
  "atypName a = (if a = ATYPIPv4 then ''ipv4'' else if a = ATYPIPv6 then ''ipv6'' else ''fqdn'')"

definition hostString :: "target \<Rightarrow> string" where
  "hostString t = (if ATYP t = ATYPFQDN then map (\<lambda>b. char_of (unat b)) (Address t)
                   else ip_String (Address t))"

definition mustTarget :: "string \<Rightarrow> target \<Rightarrow> targetCase" where
  "mustTarget name t =
     \<lparr>tc_Name = name, tc_Kind = ''valid'', tc_Network = networkName (Network t),
      tc_ATYP = atypName (ATYP t), tc_Host = hostString t, tc_Port = Port t,
      tc_EncodedHex = EncodeToString (AppendTarget [] t)\<rparr>"

definition rawErrorTarget :: "string \<Rightarrow> string \<Rightarrow> targetCase" where
  "rawErrorTarget name encodedHex =
     \<lparr>tc_Name = name, tc_Kind = ''error'', tc_Network = [], tc_ATYP = [], tc_Host = [], tc_Port = 0,
      tc_EncodedHex = encodedHex\<rparr>"

definition buildTargets :: "targetCase list option" where
  "buildTargets = collect
     [Some (mustTarget ''tcp_ipv4''
        \<lparr>Network = NetTCP, ATYP = ATYPIPv4, Address = [192, 168, 1, 1], Port = 8080\<rparr>),
      map_option (mustTarget ''tcp_fqdn'') (mustFQDN ''example.com'' 443),
      Some (mustTarget ''udp_ipv6'' \<lparr>Network = NetUDP, ATYP = ATYPIPv6, Address = fd00One, Port = 53\<rparr>),
      Some (rawErrorTarget ''reject_truncated'' ''0101''),
      Some (rawErrorTarget ''reject_bad_network'' ''0901c0a801011f90''),
      Some (rawErrorTarget ''reject_bad_atyp'' ''0107c0a801011f90''),
      Some (rawErrorTarget ''reject_empty_fqdn'' ''010300''),
      Some (rawErrorTarget ''reject_fqdn_length_lie'' ''01030561626301bb''),
      Some (rawErrorTarget ''reject_short_ipv4'' ''0101c0a801'')]"

section \<open>SAS cases\<close>

record sasCase =
  sc_Name :: string
  sc_HandshakeHashHex :: string
  sc_Sas :: string

definition counting32 :: bytes where "counting32 = map of_nat [0..<32]"

definition ones32 :: bytes where "ones32 = replicate 32 0xff"

definition buildSAS :: "sasCase list" where
  "buildSAS =
     map (\<lambda>(name, hash). \<lparr>sc_Name = name, sc_HandshakeHashHex = EncodeToString hash,
            sc_Sas = ShortAuthString hash\<rparr>)
       [(''zero_hash'', replicate 32 0), (''counting_hash'', counting32), (''ff_hash'', ones32)]"

section \<open>What the repository ships\<close>

text \<open>The encodings in protocol/vectors/frames.json and targets.json, in their order.\<close>

definition committed_frames :: "string list" where
  "committed_frames =
    [''0110000000010000000a68656c6c6f20746c6d70'',
     ''0101000000030000001001030b6578616d706c652e636f6d01bb'',
     ''010100000005000000080101c0a801011f90'',
     ''010100000007000000140104fd0000000000000000000000000000010035'',
     ''0108000000090000000400010000'',
     ''01020000000b00000000'',
     ''01040000000d0000000102'',
     ''012000000000000000080102030405060708'',
     ''014000000000000000080102030405060708'',
     ''0180000000000000000100'',
     ''01100000ffff00000001aa'',
     ''02100000000100000000'',
     ''01100000000100000005aabbccddee'',
     ''012000000004000000080000000000000000'',
     ''010800000001000000020001'',
     ''010400000001000000020001'',
     ''0180000000070000000100'',
     ''01110000000100000000'']"

definition committed_targets :: "string list" where
  "committed_targets =
    [''0101c0a801011f90'',
     ''01030b6578616d706c652e636f6d01bb'',
     ''0204fd0000000000000000000000000000010035'',
     ''0101'',
     ''0901c0a801011f90'',
     ''0107c0a801011f90'',
     ''010300'',
     ''01030561626301bb'',
     ''0101c0a801'']"

section \<open>Facts\<close>

lemma hex_digit_value: "n < 16 \<Longrightarrow> fromHexChar (hex_digit n) = Some n"
proof -
  assume "n < 16"
  then have "n \<in> {0, 1, 2, 3, 4, 5, 6, 7, 8, 9, 10, 11, 12, 13, 14, 15}"
    by (simp only: insert_iff empty_iff) presburger
  then show ?thesis
    by (elim insertE emptyE) (simp_all add: hex_digit_def fromHexChar_def)
qed

lemma hex_roundtrip [simp]: "DecodeString (EncodeToString b) = Some b"
proof (induction b)
  case (Cons x b)
  have "unat x div 16 < 16" "unat x mod 16 < 16" using unat_byte_bound [of x] by auto
  then have "fromHexChar (hex_digit (unat x div 16)) = Some (unat x div 16)"
    "fromHexChar (hex_digit (unat x mod 16)) = Some (unat x mod 16)" by (simp_all only: hex_digit_value)
  moreover have "(of_nat (unat x div 16 * 16 + unat x mod 16) :: byte) = x"
    by (simp only: div_mult_mod_eq) simp
  ultimately show ?case using Cons by (simp add: EncodeToString_def del: of_nat_add of_nat_mult)
qed (simp add: EncodeToString_def)

end
