(* ===== verification/Vector_Properties.thy ===== *)
theory Vector_Properties
  imports Vectors
begin

unbundle bit_operations_syntax

text \<open>
  The golden vectors against the model: every frame and target case of the generator decodes, or is
  refused, as its fields say, and its encoding is the one committed in protocol/vectors.
\<close>

section \<open>The decoder's specification\<close>

text \<open>
  A frame as it comes off the wire, of any version and shape, and its verdict by section 4.2 of
  protocol/SPEC.md: the bits of the flags, the size each payload must have, and the stream id 0 of
  control frames. A frame that breaks more than one rule is refused for the first.
\<close>

definition raw_frame :: "byte \<Rightarrow> byte \<Rightarrow> u32 \<Rightarrow> bytes \<Rightarrow> bytes" where
  "raw_frame v fl i p = [v, fl] @ put_u32 i @ put_u32 (len32 p) @ p"

definition frame_rules :: "byte \<Rightarrow> u32 \<Rightarrow> nat \<Rightarrow> (bool \<times> violation) list" where
  "frame_rules fl i n =
     (let SYN = bit fl 0; RST = bit fl 2; WIN = bit fl 3; DATA = bit fl 4;
          PING = bit fl 5; PONG = bit fl 6; GOAWAY = bit fl 7
      in [(SYN \<and> DATA, SynWithData),
          ((PING \<or> PONG \<or> GOAWAY) \<and> i \<noteq> 0, ControlStreamID i),
          (WIN \<and> n \<noteq> 4, WinPayload n),
          (RST \<and> n \<noteq> 1, RstPayload n),
          (GOAWAY \<and> n \<noteq> 1, GoawayPayload n)])"

definition frame_verdict :: "u32 \<Rightarrow> byte \<Rightarrow> byte \<Rightarrow> u32 \<Rightarrow> bytes \<Rightarrow> mux_err + frame" where
  "frame_verdict m v fl i p =
     (if v \<noteq> 1 then Inl (ErrVersion v)
      else if unat m < length p then Inl (ErrFrameTooLarge (length p))
      else (case find fst (frame_rules fl i (length p)) of
              Some (_, err) \<Rightarrow> Inl (ErrProtocol err)
            | None \<Rightarrow> Inr \<lparr>Version = v, Flags = fl, StreamID = i, Payload = p\<rparr>))"

text \<open>The code's checks are these rules.\<close>

lemma flag_bit:
  "b AND (1 :: byte) \<noteq> 0 \<longleftrightarrow> bit b 0" "b AND (4 :: byte) \<noteq> 0 \<longleftrightarrow> bit b 2" "b AND (8 :: byte) \<noteq> 0 \<longleftrightarrow> bit b 3"
  "b AND (16 :: byte) \<noteq> 0 \<longleftrightarrow> bit b 4" "b AND (32 :: byte) \<noteq> 0 \<longleftrightarrow> bit b 5" "b AND (64 :: byte) \<noteq> 0 \<longleftrightarrow> bit b 6"
  "b AND (128 :: byte) \<noteq> 0 \<longleftrightarrow> bit b 7"
  using and_exp_eq_0_iff_not_bit [of b 0] and_exp_eq_0_iff_not_bit [of b 2] and_exp_eq_0_iff_not_bit [of b 3]
    and_exp_eq_0_iff_not_bit [of b 4] and_exp_eq_0_iff_not_bit [of b 5] and_exp_eq_0_iff_not_bit [of b 6]
    and_exp_eq_0_iff_not_bit [of b 7]
  by simp_all

lemma validateFrame_rules:
  "validateFrame f = map_option (ErrProtocol \<circ> snd) (find fst (frame_rules (Flags f) (StreamID f) (length (Payload f))))"
proof -
  have control: "has_flag f (FlagPING OR FlagPONG OR FlagGOAWAY) \<longleftrightarrow> bit (Flags f) 5 \<or> bit (Flags f) 6 \<or> bit (Flags f) 7"
    unfolding has_flag_def flag_defs bit.conj_disj_distrib or_eq_0_iff de_Morgan_conj flag_bit ..
  have "has_flag f FlagSYN \<longleftrightarrow> bit (Flags f) 0" "has_flag f FlagDATA \<longleftrightarrow> bit (Flags f) 4"
    "has_flag f FlagWIN \<longleftrightarrow> bit (Flags f) 3" "has_flag f FlagRST \<longleftrightarrow> bit (Flags f) 2"
    "has_flag f FlagGOAWAY \<longleftrightarrow> bit (Flags f) 7"
    unfolding has_flag_def flag_defs flag_bit by (rule refl)+
  with control all_flags_known [of "Flags f"] show ?thesis
    by (auto simp: validateFrame_def frame_rules_def Let_def)
qed

lemma frame_verdict_code:
  "frame_verdict m v fl i p =
     (if v \<noteq> ProtocolVersion then Inl (ErrVersion v)
      else if unat m < length p then Inl (ErrFrameTooLarge (length p))
      else (case validateFrame \<lparr>Version = v, Flags = fl, StreamID = i, Payload = p\<rparr> of
              Some err \<Rightarrow> Inl err
            | None \<Rightarrow> Inr \<lparr>Version = v, Flags = fl, StreamID = i, Payload = p\<rparr>))"
  by (auto simp: frame_verdict_def validateFrame_rules ProtocolVersion_def split: option.split)

lemma decoder_spec:
  assumes "concat cs = raw_frame v fl i p @ rest" and "length p < 2 ^ 32"
  shows "map_option fst (ReadFrame (src_read err) m cs) = Some (frame_verdict m v fl i p)"
proof -
  define hdr where "hdr = [v, fl] @ put_u32 i @ put_u32 (len32 p)"
  have len: "length hdr = HeaderSize" by (simp add: hdr_def HeaderSize_def)
  have fields: "hdr ! 0 = v" "hdr ! 1 = fl" "get_u32 (take 4 (drop 2 hdr)) = i"
    "get_u32 (take 4 (drop 6 hdr)) = len32 p"
    by (simp_all add: hdr_def)
  have cs: "concat cs = hdr @ p @ rest" using assms(1) by (simp add: hdr_def raw_frame_def)
  have "HeaderSize \<le> length (concat cs)" using cs len by simp
  from src.io_ReadFull_full [OF TrueI this] obtain s1 where s1:
    "io_ReadFull (src_read err) HeaderSize cs = Some (Inr hdr, s1)" "concat s1 = p @ rest"
    using cs len by auto
  have unat_len: "unat (len32 p) = length p" using assms(2) by simp
  then have big: "m < len32 p \<longleftrightarrow> unat m < length p" by (simp add: word_less_nat_alt)
  have zero: "0 < len32 p \<longleftrightarrow> p \<noteq> []" using unat_len by (cases p) (auto simp: word_less_nat_alt)
  obtain s2 where s2: "io_ReadFull (src_read err) (length p) s1 = Some (Inr p, s2)"
    using src.io_ReadFull_full [OF TrueI, of "length p" s1] s1(2) by auto
  show ?thesis
    using s1(1) s2 fields big zero unat_len
    by (cases "p = []") (auto simp: ReadFrame_def frame_verdict_code Let_def split: option.split)
qed



section \<open>The frame vectors\<close>

definition reason_matches :: "string \<Rightarrow> mux_err \<Rightarrow> bool" where
  "reason_matches r e =
     (case e of
        ErrVersion _ \<Rightarrow> r = ''unsupported_version''
      | ErrFrameTooLarge _ \<Rightarrow> r = ''frame_too_large''
      | ErrProtocol (ControlStreamID _) \<Rightarrow> r = ''control_stream_id''
      | ErrProtocol (WinPayload _) \<Rightarrow> r = ''win_payload_size''
      | ErrProtocol (RstPayload _) \<Rightarrow> r = ''rst_payload_size''
      | ErrProtocol SynWithData \<Rightarrow> r = ''syn_with_data''
      | _ \<Rightarrow> False)"

text \<open>A case is right: its bytes decode to its fields and are their encoding, or are refused for its
  reason.\<close>

definition frame_case_ok :: "frameCase \<Rightarrow> bool" where
  "frame_case_ok c =
     (case DecodeString (fc_EncodedHex c) of
        None \<Rightarrow> False
      | Some encoded \<Rightarrow>
          (case ReadFrame (src_read EOF) (fc_MaxPayload c) [encoded] of
             None \<Rightarrow> False
           | Some (Inl e, _) \<Rightarrow> fc_Kind c = ''error'' \<and> reason_matches (fc_Reason c) e
           | Some (Inr f, _) \<Rightarrow>
               fc_Kind c = ''valid'' \<and> uint (Version f) = fc_Version c \<and> uint (Flags f) = fc_Flags c
               \<and> StreamID f = fc_StreamID c \<and> DecodeString (fc_PayloadHex c) = Some (Payload f)
               \<and> AppendFrame [] f (fc_MaxPayload c) = (encoded, None)))"

lemma validFrame_ok:
  assumes "validateFrame f = None" and "sendable m f"
  shows "\<exists>c. validFrame name f m = Some c \<and> frame_case_ok c
    \<and> fc_EncodedHex c = EncodeToString (encode_frame f)"
proof -
  have enc: "AppendFrame [] f m = (encode_frame f, None)"
    using assms(2) by (simp add: encode_frame_def)
  obtain s' where "ReadFrame (src_read EOF) m [encode_frame f] = Some (Inr f, s')"
    using src.ReadFrame_encoded [of "[encode_frame f]" f "[]" m EOF] assms by (auto simp: wellformed_def)
  with enc show ?thesis by (simp add: validFrame_def frame_case_ok_def)
qed

lemma rawErrorFrame_ok:
  assumes "DecodeString hex = Some p" and "length p < 2 ^ 32"
    and "frame_verdict m (word_of_int v) (word_of_int fl) i p = Inl e" and "reason_matches reason e"
  shows "\<exists>c. rawErrorFrame name reason m v fl i hex = Some c \<and> frame_case_ok c
    \<and> fc_EncodedHex c = EncodeToString (raw_frame (word_of_int v) (word_of_int fl) i p)"
proof -
  have "concat [raw_frame (word_of_int v) (word_of_int fl) i p]
      = raw_frame (word_of_int v) (word_of_int fl) i p @ []" by simp
  have "map_option fst (ReadFrame (src_read EOF) m [raw_frame (word_of_int v) (word_of_int fl) i p])
      = Some (Inl e)"
    by (simp add: decoder_spec [OF \<open>concat _ = _\<close> assms(2)] assms(3))
  then obtain s' where
    "ReadFrame (src_read EOF) m [raw_frame (word_of_int v) (word_of_int fl) i p] = Some (Inl e, s')"
    by auto
  moreover have "raw_frame (word_of_int v) (word_of_int fl) i p
      = [word_of_int v, word_of_int fl] @ put_u32 i @ put_u32 (len32 p) @ p" by (simp add: raw_frame_def)
  ultimately show ?thesis using assms(1,4)
    by (simp add: rawErrorFrame_def frame_case_ok_def Let_def del: append_Cons)
qed

definition case_gives :: "frameCase option \<Rightarrow> string \<Rightarrow> bool" where
  "case_gives x h \<longleftrightarrow> (\<exists>c. x = Some c \<and> frame_case_ok c \<and> fc_EncodedHex c = h)"

lemma valid_gives:
  "validateFrame f = None \<Longrightarrow> sendable m f \<Longrightarrow> EncodeToString (encode_frame f) = h \<Longrightarrow>
    case_gives (validFrame name f m) h"
  using validFrame_ok [of f m name] by (auto simp: case_gives_def)

lemma error_gives:
  assumes "(case DecodeString hex of
      None \<Rightarrow> False
    | Some p \<Rightarrow> length p < 2 ^ 32
        \<and> (case frame_verdict m (word_of_int v) (word_of_int fl) i p of
             Inl e \<Rightarrow> reason_matches reason e | Inr _ \<Rightarrow> False)
        \<and> EncodeToString (raw_frame (word_of_int v) (word_of_int fl) i p) = h)"
  shows "case_gives (rawErrorFrame name reason m v fl i hex) h"
proof (cases "DecodeString hex")
  case (Some p)
  with assms obtain e where "frame_verdict m (word_of_int v) (word_of_int fl) i p = Inl e"
    "reason_matches reason e" "length p < 2 ^ 32"
    by (cases "frame_verdict m (word_of_int v) (word_of_int fl) i p") auto
  with rawErrorFrame_ok [OF Some] assms Some show ?thesis by (fastforce simp: case_gives_def)
qed (use assms in simp)

lemma collect_gives:
  "list_all2 case_gives xs hs \<Longrightarrow>
    \<exists>cs. collect xs = Some cs \<and> list_all frame_case_ok cs \<and> map fc_EncodedHex cs = hs"
  by (induction rule: list_all2_induct) (auto simp: case_gives_def)

lemmas frame_eval = sendable_def ProtocolVersion_def validateFrame_def has_flag_def flag_defs
  encode_frame_def frame_header_def put_u32_def len32_def EncodeToString_def hex_digit_def
  maxFrame_def reason_defs

lemmas error_eval = frame_verdict_code reason_matches_def raw_frame_def fromHexChar_def frame_eval

lemma fd00_eq: "fd00One = [0xfd, 0, 0, 0, 0, 0, 0, 0, 0, 0, 0, 0, 0, 0, 0, 1]"
  by code_simp

lemma wide_bytes: "(443 :: byte) = 187" "(8080 :: byte) = 144"
  by simp_all

lemma syn_cases:
  "synCase name (mustFQDN ''example.com'' 443) i = validFrame name \<lparr>Version = 1, Flags = FlagSYN,
     StreamID = i, Payload = [1, 3, 11, 101, 120, 97, 109, 112, 108, 101, 46, 99, 111, 109, 1, 187]\<rparr> maxFrame"
  "synCase name (Some (TCPv4 [192, 168, 1, 1] 8080)) i = validFrame name \<lparr>Version = 1,
     Flags = FlagSYN, StreamID = i, Payload = [1, 1, 192, 168, 1, 1, 31, 144]\<rparr> maxFrame"
  "synCase name (Some \<lparr>Network = NetTCP, ATYP = ATYPIPv6, Address = fd00One, Port = 53\<rparr>) i
     = validFrame name \<lparr>Version = 1, Flags = FlagSYN, StreamID = i,
         Payload = [1, 4, 253, 0, 0, 0, 0, 0, 0, 0, 0, 0, 0, 0, 0, 0, 0, 1, 0, 53]\<rparr> maxFrame"
  by (simp_all add: synCase_def mustFQDN_def TCPFQDN_def TCPv4_def bytes_of_string_def
      AppendTarget_def target_consts MaxFQDNLength_def fd00_eq wide_bytes)

lemma hello: "bytes_of_string ''hello tlmp'' = [104, 101, 108, 108, 111, 32, 116, 108, 109, 112]"
  by (simp add: bytes_of_string_def)

lemma all_frames_given: "list_all2 case_gives frame_cases committed_frames"
  unfolding frame_cases_def committed_frames_def syn_cases hello list_all2_Cons list_all2_Nil
  apply (intro conjI TrueI refl)
  apply (rule valid_gives; simp add: frame_eval)+
  apply (rule error_gives; simp add: error_eval)+
  done

text \<open>The golden frame vectors. The generator builds eighteen cases; each valid one decodes to
  exactly the version, flags, id and payload it declares and is the encoding of that frame, each
  error case is refused by the decoder for the rule it names, and the bytes are those committed in
  protocol/vectors/frames.json, which the Android implementation is tested with.\<close>

lemma frame_vectors:
  "\<exists>cs. buildFrames = Some cs \<and> length cs = 18 \<and> list_all frame_case_ok cs
    \<and> map fc_EncodedHex cs = committed_frames"
proof -
  obtain cs where cs: "collect frame_cases = Some cs" "list_all frame_case_ok cs"
    "map fc_EncodedHex cs = committed_frames"
    using collect_gives [OF all_frames_given] by blast
  have "length cs = length committed_frames" using cs(3) by (metis length_map)
  with cs show ?thesis by (simp add: buildFrames_def committed_frames_def)
qed

section \<open>The target vectors\<close>

definition target_case_ok :: "targetCase \<Rightarrow> bool" where
  "target_case_ok c =
     (case DecodeString (tc_EncodedHex c) of
        None \<Rightarrow> False
      | Some b \<Rightarrow>
          (case ParseTarget b of
             Inl _ \<Rightarrow> tc_Kind c = ''error''
           | Inr t \<Rightarrow> tc_Kind c = ''valid'' \<and> networkName (Network t) = tc_Network c
               \<and> atypName (ATYP t) = tc_ATYP c \<and> hostString t = tc_Host c \<and> Port t = tc_Port c
               \<and> AppendTarget [] t = b))"

lemma mustTarget_ok: "valid_target t \<Longrightarrow> target_case_ok (mustTarget name t)"
  using Parse_AppendTarget [of t "[]"] by (simp add: mustTarget_def target_case_ok_def)

lemma rawErrorTarget_ok:
  "DecodeString hex = Some b \<Longrightarrow> ParseTarget b = Inl e \<Longrightarrow> target_case_ok (rawErrorTarget name hex)"
  by (simp add: rawErrorTarget_def target_case_ok_def)

lemma bad_targets:
  "target_case_ok (rawErrorTarget name ''0101'')"
  "target_case_ok (rawErrorTarget name ''0901c0a801011f90'')"
  "target_case_ok (rawErrorTarget name ''0107c0a801011f90'')"
  "target_case_ok (rawErrorTarget name ''010300'')"
  "target_case_ok (rawErrorTarget name ''01030561626301bb'')"
  "target_case_ok (rawErrorTarget name ''0101c0a801'')"
  by (rule rawErrorTarget_ok, simp add: fromHexChar_def, simp add: ParseTarget_def target_consts)+

text \<open>The golden target vectors. Each valid target case of the generator parses back to a target
  with the network, address type, host and port it declares, whose encoding it is; each error case
  is refused; and the bytes are those committed in protocol/vectors/targets.json.\<close>

lemma target_vectors:
  "\<exists>cs. buildTargets = Some cs \<and> list_all target_case_ok cs
    \<and> map tc_EncodedHex cs = committed_targets
    \<and> map tc_Host cs = [''192.168.1.1'', ''example.com'', ''fd00::1'', [], [], [], [], [], []]"
proof -
  define t1 where "t1 = \<lparr>Network = NetTCP, ATYP = ATYPIPv4, Address = [192, 168, 1, 1], Port = 8080\<rparr>"
  define t2 where "t2 = \<lparr>Network = NetTCP, ATYP = ATYPFQDN,
    Address = [101, 120, 97, 109, 112, 108, 101, 46, 99, 111, 109], Port = 443\<rparr>"
  define t3 where "t3 = \<lparr>Network = NetUDP, ATYP = ATYPIPv6, Address = fd00One, Port = 53\<rparr>"
  have fqdn: "mustFQDN ''example.com'' 443 = Some t2"
    by (simp add: mustFQDN_def TCPFQDN_def bytes_of_string_def t2_def MaxFQDNLength_def)
  have ok: "target_case_ok (mustTarget ''tcp_ipv4'' t1)" "target_case_ok (mustTarget ''tcp_fqdn'' t2)"
    "target_case_ok (mustTarget ''udp_ipv6'' t3)"
    by (rule mustTarget_ok; simp add: valid_target_def t1_def t2_def t3_def target_consts
        MaxFQDNLength_def fd00_eq)+
  have bytes: "AppendTarget [] t1 = [1, 1, 192, 168, 1, 1, 31, 144]"
    "AppendTarget [] t2 = [1, 3, 11, 101, 120, 97, 109, 112, 108, 101, 46, 99, 111, 109, 1, 187]"
    "AppendTarget [] t3 = [2, 4, 253, 0, 0, 0, 0, 0, 0, 0, 0, 0, 0, 0, 0, 0, 0, 1, 0, 53]"
    by (simp_all add: AppendTarget_def t1_def t2_def t3_def target_consts fd00_eq wide_bytes)
  have hosts: "hostString t1 = ''192.168.1.1''" unfolding t1_def by code_simp
  have hosts2: "hostString t2 = ''example.com''" unfolding t2_def by code_simp
  have hosts3: "hostString t3 = ''fd00::1''" unfolding t3_def by code_simp
  show ?thesis
    unfolding buildTargets_def fqdn t1_def [symmetric] t3_def [symmetric]
    by (simp add: ok bad_targets committed_targets_def)
      (simp add: mustTarget_def rawErrorTarget_def bytes hosts hosts2 hosts3 EncodeToString_def hex_digit_def)
qed

end
