(* ===== verification/Config.thy ===== *)
theory Config
  imports Go_Strings
begin

text \<open>
  The configuration, desktop/internal/config/config.go: its records, the defaults, the validation
  and the loading. A Go \<open>int\<close> field holds a 64-bit value; the validation only compares, so it is
  an \<open>int\<close> here, and the casts of its users are written where they happen. The JSON decoder that
  overlays a file on the defaults is a parameter.
\<close>

section \<open>The records\<close>

record Netstack_cfg =
  n_AdapterName :: string
  n_TunnelIP :: string
  RouteMetric :: int
  n_RewritePhysicalDNS :: bool

record Obfuscation_cfg =
  Profile :: string
  MaxConcurrent :: int
  JitterMs :: int
  SanitizeHTTP :: bool
  o_UserAgent :: string

record API_cfg =
  a_Enabled :: bool
  Listen :: string

record Daemon_cfg =
  JournalPath :: string
  ReconnectInitialMs :: int
  ReconnectMaxMs :: int
  DNSModeOverride :: string

record Tunnel_cfg =
  MTU :: int
  t_MaxFramePayload :: int
  InitialStreamWindow :: int
  KeepAliveSecs :: int
  HandshakeTimeoutMs :: int
  ListenPort :: int

record ADB_cfg =
  Binary :: string
  HostPort :: int

record Transport_cfg =
  Priority :: "string list"
  c_ADB :: ADB_cfg
  HotspotAddr :: string

record Relay_cfg =
  MaxStreams :: int
  BufferKB :: int
  ExposeSOCKS :: bool
  SocksBind :: string

record DNS_cfg =
  Mode :: string
  DohServers :: "string list"
  BootstrapIPs :: "string list"

record Log_cfg =
  Level :: string
  Format :: string

record Config =
  c_Tunnel :: Tunnel_cfg
  c_Transport :: Transport_cfg
  c_Relay :: Relay_cfg
  c_DNS :: DNS_cfg
  c_Log :: Log_cfg
  c_Netstack :: Netstack_cfg
  c_Obfuscation :: Obfuscation_cfg
  c_API :: API_cfg
  c_Daemon :: Daemon_cfg
  KeysDir :: string

section \<open>Defaults\<close>

definition Default :: Config where
  "Default =
     \<lparr>c_Tunnel = \<lparr>MTU = 1380, t_MaxFramePayload = 64 * 1024, InitialStreamWindow = 256 * 1024,
        KeepAliveSecs = 15, HandshakeTimeoutMs = 5000, ListenPort = 47471\<rparr>,
      c_Transport = \<lparr>Priority = [''usb'', ''hotspot'', ''wfd''],
        c_ADB = \<lparr>Binary = ''adb'', HostPort = 47472\<rparr>, HotspotAddr = ''''\<rparr>,
      c_Relay = \<lparr>MaxStreams = 256, BufferKB = 256, ExposeSOCKS = False,
        SocksBind = ''127.0.0.1:47473''\<rparr>,
      c_DNS = \<lparr>Mode = ''phone_doh'',
        DohServers = [''https://cloudflare-dns.com/dns-query'', ''https://dns.google/dns-query''],
        BootstrapIPs = [''1.1.1.1'', ''8.8.8.8'']\<rparr>,
      c_Log = \<lparr>Level = ''info'', Format = ''text''\<rparr>,
      c_Netstack = \<lparr>n_AdapterName = ''Toppa'', n_TunnelIP = ''10.111.0.1'', RouteMetric = 5,
        n_RewritePhysicalDNS = True\<rparr>,
      c_Obfuscation = \<lparr>Profile = ''light'', MaxConcurrent = 0, JitterMs = 0, SanitizeHTTP = True,
        o_UserAgent = ''''\<rparr>,
      c_API = \<lparr>a_Enabled = True, Listen = ''127.0.0.1:47474''\<rparr>,
      c_Daemon = \<lparr>JournalPath = '''', ReconnectInitialMs = 1000, ReconnectMaxMs = 30000,
        DNSModeOverride = ''''\<rparr>,
      KeysDir = ''''\<rparr>"

section \<open>Validation\<close>

datatype config_err =
    BadMTU int | BadFramePayload int | WindowBelowPayload int int | BadKeepAlive int
  | BadHandshakeTimeout int | BadListenPort int | BadMaxStreams int | BadBufferKB int
  | BadDNSMode string | BadLogLevel string | BadLogFormat string

definition Validate :: "Config \<Rightarrow> config_err option" where
  "Validate c =
     (let t = c_Tunnel c
      in if MTU t < 576 \<or> MTU t > 65535 then Some (BadMTU (MTU t))
         else if t_MaxFramePayload t < 1024 \<or> t_MaxFramePayload t > 262144
         then Some (BadFramePayload (t_MaxFramePayload t))
         else if InitialStreamWindow t < t_MaxFramePayload t
         then Some (WindowBelowPayload (InitialStreamWindow t) (t_MaxFramePayload t))
         else if KeepAliveSecs t < 0 \<or> KeepAliveSecs t > 600 then Some (BadKeepAlive (KeepAliveSecs t))
         else if HandshakeTimeoutMs t < 500 \<or> HandshakeTimeoutMs t > 60000
         then Some (BadHandshakeTimeout (HandshakeTimeoutMs t))
         else if ListenPort t < 1024 \<or> ListenPort t > 65535 then Some (BadListenPort (ListenPort t))
         else if MaxStreams (c_Relay c) < 1 \<or> MaxStreams (c_Relay c) > 65535
         then Some (BadMaxStreams (MaxStreams (c_Relay c)))
         else if BufferKB (c_Relay c) < 4 \<or> BufferKB (c_Relay c) > 8192
         then Some (BadBufferKB (BufferKB (c_Relay c)))
         else if Mode (c_DNS c) \<notin> {''phone_doh'', ''pc_doh'', ''phone_system''}
         then Some (BadDNSMode (Mode (c_DNS c)))
         else if Level (c_Log c) \<notin> {''debug'', ''info'', ''warn'', ''error''}
         then Some (BadLogLevel (Level (c_Log c)))
         else if Format (c_Log c) \<notin> {''text'', ''json''} then Some (BadLogFormat (Format (c_Log c)))
         else None)"

section \<open>Loading\<close>

datatype 'e load_err = ReadFile 'e | ParseFile 'e | Invalid config_err

text \<open>
  \<open>Load path\<close> with the file system's answer \<open>read path\<close> and the strict decoder \<open>decode raw c\<close>
  (the JSON text \<open>raw\<close> overlaid on \<open>c\<close>, an unknown field being an error).
\<close>

definition Load :: "(string \<Rightarrow> 'e + bytes) \<Rightarrow> (bytes \<Rightarrow> Config \<Rightarrow> 'e + Config) \<Rightarrow> string
    \<Rightarrow> 'e load_err + Config" where
  "Load read decode path =
     (if path = '''' then (case Validate Default of Some err \<Rightarrow> Inl (Invalid err) | None \<Rightarrow> Inr Default)
      else (case read path of
              Inl err \<Rightarrow> Inl (ReadFile err)
            | Inr raw \<Rightarrow>
                (case decode raw Default of
                   Inl err \<Rightarrow> Inl (ParseFile err)
                 | Inr cfg \<Rightarrow>
                     (case Validate cfg of Some err \<Rightarrow> Inl (Invalid err) | None \<Rightarrow> Inr cfg))))"

text \<open>
  \<open>ResolveKeysDir\<close>; \<open>home\<close> is \<open>os.UserHomeDir\<close>'s result and \<open>join\<close> is \<open>filepath.Join\<close>.
\<close>

definition ResolveKeysDir :: "('e + string) \<Rightarrow> (string list \<Rightarrow> string) \<Rightarrow> Config \<Rightarrow> string" where
  "ResolveKeysDir home join c =
     (if KeysDir c \<noteq> '''' then KeysDir c
      else (case home of
              Inl _ \<Rightarrow> ''.toppa''
            | Inr h \<Rightarrow> join [h, ''.toppa'', ''desktop'']))"

section \<open>Facts\<close>

lemma Default_valid: "Validate Default = None"
  by (simp add: Validate_def Default_def Let_def)

lemma if_Some_None: "(if b then Some x else y) = None \<longleftrightarrow> \<not> b \<and> y = None"
  by simp

text \<open>What a configuration without a validation error satisfies.\<close>

lemma Validate_None:
  "Validate c = None \<longleftrightarrow>
    (576 \<le> MTU (c_Tunnel c) \<and> MTU (c_Tunnel c) \<le> 65535)
    \<and> (1024 \<le> t_MaxFramePayload (c_Tunnel c) \<and> t_MaxFramePayload (c_Tunnel c) \<le> 262144)
    \<and> t_MaxFramePayload (c_Tunnel c) \<le> InitialStreamWindow (c_Tunnel c)
    \<and> (0 \<le> KeepAliveSecs (c_Tunnel c) \<and> KeepAliveSecs (c_Tunnel c) \<le> 600)
    \<and> (500 \<le> HandshakeTimeoutMs (c_Tunnel c) \<and> HandshakeTimeoutMs (c_Tunnel c) \<le> 60000)
    \<and> (1024 \<le> ListenPort (c_Tunnel c) \<and> ListenPort (c_Tunnel c) \<le> 65535)
    \<and> (1 \<le> MaxStreams (c_Relay c) \<and> MaxStreams (c_Relay c) \<le> 65535)
    \<and> (4 \<le> BufferKB (c_Relay c) \<and> BufferKB (c_Relay c) \<le> 8192)
    \<and> Mode (c_DNS c) \<in> {''phone_doh'', ''pc_doh'', ''phone_system''}
    \<and> Level (c_Log c) \<in> {''debug'', ''info'', ''warn'', ''error''}
    \<and> Format (c_Log c) \<in> {''text'', ''json''}"
  unfolding Validate_def Let_def
  by (simp only: if_Some_None not_less de_Morgan_disj not_not simp_thms conj_assoc)

lemma Load_valid: "Load read decode path = Inr c \<Longrightarrow> Validate c = None"
  by (auto simp: Load_def split: if_splits sum.splits option.splits)

end
