(* ===== verification/Obfuscation.thy ===== *)
theory Obfuscation
  imports Session_Properties
begin

unbundle bit_operations_syntax

text \<open>
  The padding profiles, desktop/internal/obfuscation/obfuscation.go: the settings of a profile, the
  random padding, and the injector's goroutine, which sends the padding as PING payloads until it
  is stopped or the session refuses a frame. The random source is an argument: the size byte
  (\<open>None\<close> when \<open>rand.Read\<close> fails), whether the second read succeeds, and the bytes it gives.
\<close>

record Settings =
  PaddingInterval :: int
  PaddingMaxBytes :: int

definition SettingsFor :: "string \<Rightarrow> Settings" where
  "SettingsFor profile =
     (if profile = ''light'' then \<lparr>PaddingInterval = 3 * 10 ^ 9, PaddingMaxBytes = 256\<rparr>
      else if profile = ''paranoid'' then \<lparr>PaddingInterval = 750 * 10 ^ 6, PaddingMaxBytes = 2048\<rparr>
      else \<lparr>PaddingInterval = 0, PaddingMaxBytes = 0\<rparr>)"

definition randomPadding :: "int \<Rightarrow> byte option \<Rightarrow> bool \<Rightarrow> (nat \<Rightarrow> byte) \<Rightarrow> bytes" where
  "randomPadding mx sizeBuf fill_ok fill =
     (if mx \<le> 0 then []
      else (case sizeBuf of
              None \<Rightarrow> []
            | Some b \<Rightarrow>
                (let size = uint b mod mx
                 in if size = 0 then []
                    else if \<not> fill_ok then []
                    else map fill [0..<nat size])))"

text \<open>
  The injector's goroutine on the events it selects: the stop channel, or a tick with its random
  source. The flag says whether it has exited; an interval of zero starts no goroutine.
\<close>

datatype inj_event = StopCalled | Tick "byte option" bool "nat \<Rightarrow> byte"

fun inject_loop :: "Settings \<Rightarrow> inj_event list \<Rightarrow> session \<Rightarrow> bool \<times> session" where
  "inject_loop st [] s = (False, s)"
| "inject_loop st (StopCalled # evs) s = (True, s)"
| "inject_loop st (Tick b ok fill # evs) s =
     (case PingPayload (randomPadding (PaddingMaxBytes st) b ok fill) s of
        (Some err, s') \<Rightarrow> (True, s')
      | (None, s') \<Rightarrow> inject_loop st evs s')"

definition Injector :: "Settings \<Rightarrow> inj_event list \<Rightarrow> session \<Rightarrow> bool \<times> session" where
  "Injector st evs s = (if PaddingInterval st \<le> 0 then (True, s) else inject_loop st evs s)"

section \<open>Facts\<close>

lemma padding_size:
  assumes "0 < mx"
  shows "nat (uint (b :: byte) mod mx) \<le> 255" and "int (nat (uint b mod mx)) < mx"
proof -
  have "uint b \<le> 255" using unsigned_less [of b, where ?'a = int] by simp
  moreover have "uint b mod mx \<le> uint b" using assms by (simp add: zmod_le_nonneg_dividend)
  ultimately show "nat (uint b mod mx) \<le> 255" by linarith
  show "int (nat (uint b mod mx)) < mx" using assms by simp
qed

lemma randomPadding_length:
  "length (randomPadding mx b ok fill) \<le> 255
    \<and> (0 < mx \<longrightarrow> int (length (randomPadding mx b ok fill)) < mx)"
proof (cases "0 < mx")
  case True
  show ?thesis
  proof (cases b)
    case (Some x)
    have "length (randomPadding mx b ok fill) \<in> {0, nat (uint x mod mx)}"
      using True Some by (simp add: randomPadding_def Let_def)
    with padding_size [OF True, of x] True show ?thesis by auto
  qed (use True in \<open>simp add: randomPadding_def\<close>)
qed (simp add: randomPadding_def)

definition padding_frames :: "bytes list \<Rightarrow> bytes" where
  "padding_frames ps = concat (map (\<lambda>p. encode_frame (mk_frame FlagPING 0 p)) ps)"

lemma PingPayload_cases:
  assumes "length p \<le> 255"
  shows "PingPayload p s = (None, s\<lparr>conn := (conn s)\<lparr>wbytes := wbytes (conn s) @ padding_frames [p]\<rparr>\<rparr>)
    \<or> (\<exists>e. PingPayload p s = (Some e, s))"
proof (cases "closed s")
  case False
  have "length (Payload (mk_frame FlagPING 0 p)) < 2 ^ 32" using assms by simp
  then show ?thesis
  proof (cases rule: conn_WriteFrame_cases [where m = "MaxFramePayload (cfg s)" and c = "conn s"])
    case written
    with False show ?thesis by (simp add: PingPayload_def writeFrame_def padding_frames_def)
  next
    case (failed e)
    with False show ?thesis by (simp add: PingPayload_def writeFrame_def)
  qed
qed (simp add: PingPayload_def writeFrame_def)

lemma padding_frames_append: "padding_frames (ps @ qs) = padding_frames ps @ padding_frames qs"
  by (simp add: padding_frames_def)

lemma inject_loop_pads:
  "\<exists>ps. snd (inject_loop st evs s)
      = s\<lparr>conn := (conn s)\<lparr>wbytes := wbytes (conn s) @ padding_frames ps\<rparr>\<rparr>
    \<and> list_all (\<lambda>p. length p \<le> 255 \<and> (PaddingMaxBytes st \<le> 0 \<or> int (length p) < PaddingMaxBytes st)) ps"
    (is "\<exists>ps. ?ends evs s ps \<and> ?small ps")
proof (induction st evs s rule: inject_loop.induct)
  case (1 st s)
  then show ?case by (intro exI [of _ "[]"]) (simp add: padding_frames_def)
next
  case (2 st evs s)
  then show ?case by (intro exI [of _ "[]"]) (simp add: padding_frames_def)
next
  case (3 st b ok fill evs s)
  define p where "p = randomPadding (PaddingMaxBytes st) b ok fill"
  have small: "length p \<le> 255 \<and> (PaddingMaxBytes st \<le> 0 \<or> int (length p) < PaddingMaxBytes st)"
    using randomPadding_length [of "PaddingMaxBytes st" b ok fill] by (auto simp: p_def)
  from PingPayload_cases [of p s] small consider
    (sent) "PingPayload p s = (None, s\<lparr>conn := (conn s)\<lparr>wbytes := wbytes (conn s) @ padding_frames [p]\<rparr>\<rparr>)"
    | (failed) e where "PingPayload p s = (Some e, s)" by blast
  then show ?case
  proof cases
    case sent
    from 3 [OF sent [unfolded p_def, symmetric] refl] obtain ps where
      ps: "snd (inject_loop st evs (s\<lparr>conn := (conn s)\<lparr>wbytes := wbytes (conn s) @ padding_frames [p]\<rparr>\<rparr>))
          = s\<lparr>conn := (conn s)\<lparr>wbytes := wbytes (conn s) @ padding_frames [p] @ padding_frames ps\<rparr>\<rparr>"
        "list_all (\<lambda>p. length p \<le> 255 \<and> (PaddingMaxBytes st \<le> 0 \<or> int (length p) < PaddingMaxBytes st)) ps"
      by (auto simp: p_def)
    have "padding_frames (p # ps) = padding_frames [p] @ padding_frames ps"
      by (simp add: padding_frames_def)
    with ps sent small show ?thesis
      by (intro exI [of _ "p # ps"]) (simp add: p_def)
  next
    case (failed e)
    then show ?thesis
      by (intro exI [of _ "[]"]) (simp add: padding_frames_def p_def)
  qed
qed

text \<open>C28: Padding never touches the streams. Whatever ticks, stops and random bytes the injector of
  any profile sees, it changes nothing of the session but the bytes written, and these are whole
  PING frames on stream 0, each with at most 255 bytes of padding and, in a profile with padding,
  fewer than the profile's bound.\<close>

theorem padding_harmless:
  "\<exists>ps. snd (Injector st evs s)
      = s\<lparr>conn := (conn s)\<lparr>wbytes := wbytes (conn s) @ padding_frames ps\<rparr>\<rparr>
    \<and> list_all (\<lambda>p. length p \<le> 255 \<and> (PaddingMaxBytes st \<le> 0 \<or> int (length p) < PaddingMaxBytes st)) ps"
proof (cases "PaddingInterval st \<le> 0")
  case True
  then show ?thesis by (intro exI [of _ "[]"]) (simp add: Injector_def padding_frames_def)
next
  case False
  then show ?thesis using inject_loop_pads by (simp add: Injector_def)
qed

end
