(* ===== verification/Daemon.thy ===== *)
theory Daemon
  imports Config Obfuscation Sysroute Relay
begin

unbundle bit_operations_syntax

text \<open>
  The daemon, desktop/internal/daemon/daemon.go: one connection from the choice of the transport to
  the teardown, and the loop that reconnects with bounded exponential backoff. The calls whose
  inside is another component's (the transport, the key store, the handshake, the adapter, the
  netstack) enter by their outcome, given in the record \<open>host\<close>; the routes are the manager of
  Sysroute on the journal and the system. The log of the daemon records the acquisition and release
  of every resource, deferred calls included.
\<close>

section \<open>Transports\<close>

datatype transport = TransportADB string int int | TransportWLAN string

definition transport_ID :: "transport \<Rightarrow> string" where
  "transport_ID t = (case t of TransportADB _ _ _ \<Rightarrow> ''usb'' | TransportWLAN _ \<Rightarrow> ''hotspot'')"

fun pick_loop :: "(transport \<Rightarrow> bool) \<Rightarrow> Config \<Rightarrow> string list \<Rightarrow> transport option" where
  "pick_loop available c [] = None"
| "pick_loop available c (name # names) =
     (if name = ''usb''
      then (let t = TransportADB (Binary (c_ADB (c_Transport c))) (HostPort (c_ADB (c_Transport c)))
                      (ListenPort (c_Tunnel c))
            in if available t then Some t else pick_loop available c names)
      else if name = ''hotspot''
      then (if HotspotAddr (c_Transport c) = '''' then pick_loop available c names
            else (let t = TransportWLAN (HotspotAddr (c_Transport c))
                  in if available t then Some t else pick_loop available c names))
      else pick_loop available c names)"

definition pickTransport :: "(transport \<Rightarrow> bool) \<Rightarrow> Config \<Rightarrow> transport option" where
  "pickTransport available c = pick_loop available c (Priority (c_Transport c))"

section \<open>The parts of a session\<close>

text \<open>The multiplexer's configuration: \<open>uint32\<close> casts of the configured integers.\<close>

definition muxConfig :: "Config \<Rightarrow> bool \<Rightarrow> config" where
  "muxConfig c initiator =
     \<lparr>MaxFramePayload = word_of_int (t_MaxFramePayload (c_Tunnel c)),
      InitialWindow = word_of_int (InitialStreamWindow (c_Tunnel c)),
      KeepAlive = to_int64 (KeepAliveSecs (c_Tunnel c) * 10 ^ 9), PingTimeout = 0,
      IsInitiator = initiator, AcceptQueueDepth = 0\<rparr>"

definition daemon_dialer :: "Config \<Rightarrow> session \<Rightarrow> TunnelDialer" where
  "daemon_dialer c s =
     \<lparr>d_session = Some s,
      d_sanitizer = (if SanitizeHTTP (c_Obfuscation c)
                     then Some \<lparr>Enabled = True, UserAgent = bytes_of_string (o_UserAgent (c_Obfuscation c)),
                                StripForwarded = True\<rparr> else None),
      d_pacer = (if MaxConcurrent (c_Obfuscation c) > 0
                 then Some (NewPacer (MaxConcurrent (c_Obfuscation c)) (JitterMs (c_Obfuscation c)))
                 else None)\<rparr>"

definition desired :: "Config \<Rightarrow> ip \<Rightarrow> Desired" where
  "desired c tunnelIP =
     \<lparr>AdapterName = n_AdapterName (c_Netstack c), TunnelIP = tunnelIP, TunnelPrefixLen = 32,
      DefaultRouteMetric = RouteMetric (c_Netstack c), DNS = [tunnelIP],
      RewritePhysicalDNS = n_RewritePhysicalDNS (c_Netstack c)\<rparr>"

section \<open>State\<close>

datatype resource = Link | MuxSession | PadInjector | Adapter | Stack

datatype action =
    Acquire resource | Release resource | RoutesApplied | RoutesFailed | WentOnline | RolledBack

record 'w daemon =
  d_state :: string
  d_transport :: string
  d_journal :: journal
  d_system :: 'w
  d_log :: "action list"

datatype daemon_err =
    NoTransport | PrepareErr string | DialErr string | KeysErr string | HandshakeErr string
  | AdapterErr string | StackErr string | RoutesErr manager_err

text \<open>
  How the world answers one \<open>connect\<close>: which transports are available, the error of each call, and
  what others do to the system while the session is up.
\<close>

record 'w host =
  h_available :: "transport \<Rightarrow> bool"
  h_prepare :: "string option"
  h_dial :: "string option"
  h_keys :: "string option"
  h_handshake :: "string option"
  h_adapter :: "string option"
  h_stack :: "string option"
  h_meanwhile :: "'w \<Rightarrow> 'w"

text \<open>The operating system as \<open>sysroute\<close> sees it, with the ids the journal draws.\<close>

record 'w sys =
  s_gen :: "journal \<Rightarrow> string"
  s_configurer :: "'w NetConfigurer"
  s_run :: "string list \<Rightarrow> 'w \<Rightarrow> string option \<times> 'w"
  s_parse :: "string \<Rightarrow> ip"

definition noting :: "action list \<Rightarrow> 'w daemon \<Rightarrow> 'w daemon" where
  "noting acts d = d\<lparr>d_log := d_log d @ acts\<rparr>"

text \<open>A body with a resource whose release is deferred.\<close>

definition with_deferred :: "resource \<Rightarrow> ('w daemon \<Rightarrow> daemon_err option \<times> 'w daemon)
    \<Rightarrow> 'w daemon \<Rightarrow> daemon_err option \<times> 'w daemon" where
  "with_deferred r body d =
     (case body (noting [Acquire r] d) of (e, d') \<Rightarrow> (e, noting [Release r] d'))"

section \<open>One connection\<close>

text \<open>The routes, the wait for the session's end, and the teardown.\<close>

definition run_routes :: "Config \<Rightarrow> 'w sys \<Rightarrow> 'w host \<Rightarrow> 'w daemon \<Rightarrow> daemon_err option \<times> 'w daemon" where
  "run_routes c sys h d =
     (case Manager_Apply (s_gen sys) (Some (s_configurer sys))
             (desired c (s_parse sys (n_TunnelIP (c_Netstack c)))) (d_journal d, d_system d) of
        (Some err, j, w) \<Rightarrow>
          (Some (RoutesErr err),
           noting [RoutesFailed, Release Stack, Release Adapter] (d\<lparr>d_journal := j, d_system := w\<rparr>))
      | (None, j, w) \<Rightarrow>
          (let d1 = noting [RoutesApplied, WentOnline]
                      (d\<lparr>d_journal := j, d_system := h_meanwhile h w, d_state := ''online''\<rparr>);
               d2 = noting [Release Stack] d1
           in case Manager_Rollback (s_run sys) (d_journal d2) (d_system d2) of
                (_, j', w') \<Rightarrow>
                  (None, noting [RolledBack, Release Adapter]
                           (d2\<lparr>d_journal := j', d_system := w', d_state := ''offline''\<rparr>))))"

definition run_adapter :: "Config \<Rightarrow> 'w sys \<Rightarrow> 'w host \<Rightarrow> 'w daemon \<Rightarrow> daemon_err option \<times> 'w daemon" where
  "run_adapter c sys h d =
     (case h_adapter h of
        Some err \<Rightarrow> (Some (AdapterErr err), d)
      | None \<Rightarrow>
          (let d1 = noting [Acquire Adapter] d
           in case h_stack h of
                Some err \<Rightarrow> (Some (StackErr err), noting [Release Adapter] d1)
              | None \<Rightarrow> run_routes c sys h (noting [Acquire Stack] d1)))"

definition run_link :: "Config \<Rightarrow> 'w sys \<Rightarrow> 'w host \<Rightarrow> 'w daemon \<Rightarrow> daemon_err option \<times> 'w daemon" where
  "run_link c sys h d =
     (case h_keys h of
        Some err \<Rightarrow> (Some (KeysErr err), d)
      | None \<Rightarrow>
          (case h_handshake h of
             Some err \<Rightarrow> (Some (HandshakeErr err), d)
           | None \<Rightarrow>
               with_deferred MuxSession (with_deferred PadInjector (run_adapter c sys h)) d))"

definition connect :: "Config \<Rightarrow> 'w sys \<Rightarrow> 'w host \<Rightarrow> 'w daemon \<Rightarrow> daemon_err option \<times> 'w daemon" where
  "connect c sys h d0 =
     (let d = d0\<lparr>d_state := ''connecting''\<rparr>
      in case pickTransport (h_available h) c of
           None \<Rightarrow> (Some NoTransport, d\<lparr>d_state := ''offline''\<rparr>)
         | Some tr \<Rightarrow>
             (let d1 = d\<lparr>d_transport := transport_ID tr\<rparr>
              in case h_prepare h of
                   Some err \<Rightarrow> (Some (PrepareErr err), d1)
                 | None \<Rightarrow>
                     (case h_dial h of
                        Some err \<Rightarrow> (Some (DialErr err), d1)
                      | None \<Rightarrow> with_deferred Link (run_link c sys h) d1)))"

section \<open>The reconnect loop\<close>

text \<open>
  Durations are \<open>int64\<close> nanoseconds. \<open>rnd n\<close> is \<open>rand.Int63n(n)\<close>, a number below \<open>n\<close> that is not
  negative.
\<close>

definition jitter :: "int \<Rightarrow> (int \<Rightarrow> int) \<Rightarrow> int" where
  "jitter base rnd = (if base \<le> 0 then 0 else to_int64 (base + rnd (base div 4 + 1)))"

definition millis :: "int \<Rightarrow> int" where
  "millis n = to_int64 (n * 10 ^ 6)"

definition next_backoff :: "int \<Rightarrow> int \<Rightarrow> int" where
  "next_backoff maxBackoff backoff =
     (let b = to_int64 (backoff * 2) in if b > maxBackoff then maxBackoff else b)"

datatype wait = CtxDone | ReconnectAsked | TimerFired

text \<open>
  One round of the loop: how the world answers \<open>connect\<close>, whether the context is cancelled before
  and after it, the random source and how the wait ends.
\<close>

record 'w loop_round =
  r_cancelled :: bool
  r_host :: "'w host"
  r_cancelled_after :: bool
  r_rand :: "int \<Rightarrow> int"
  r_wait :: wait

datatype loop_end = CtxErr | StillRunning

text \<open>The result has the delays the loop has armed, in order.\<close>

fun Run_loop :: "Config \<Rightarrow> 'w sys \<Rightarrow> int \<Rightarrow> 'w loop_round list \<Rightarrow> 'w daemon
    \<Rightarrow> loop_end \<times> int list \<times> 'w daemon" where
  "Run_loop c sys backoff [] d = (StillRunning, [], d)"
| "Run_loop c sys backoff (r # rs) d =
     (if r_cancelled r then (CtxErr, [], d)
      else
        (case connect c sys (r_host r) d of
           (e, d1) \<Rightarrow>
             (let b = (if e = None then millis (ReconnectInitialMs (c_Daemon c)) else backoff)
              in if e \<noteq> None \<and> r_cancelled_after r then (CtxErr, [], d1)
                 else if r_wait r = CtxDone then (CtxErr, [jitter b (r_rand r)], d1)
                 else (case Run_loop c sys
                              (next_backoff (millis (ReconnectMaxMs (c_Daemon c))) b) rs d1 of
                         (x, ds, d2) \<Rightarrow> (x, jitter b (r_rand r) # ds, d2)))))"

datatype run_err = ReconcileErr journal_err | APIErr string | Cancelled

text \<open>\<open>api_err\<close>: the error of the control API's \<open>Listen\<close>.\<close>

definition Run :: "Config \<Rightarrow> 'w sys \<Rightarrow> string option \<Rightarrow> 'w loop_round list \<Rightarrow> 'w daemon
    \<Rightarrow> run_err option \<times> int list \<times> 'w daemon" where
  "Run c sys api_err rs d =
     (case Manager_Reconcile (s_run sys) (d_journal d) (d_system d) of
        ((_, Some err), j, w) \<Rightarrow> (Some (ReconcileErr err), [], d\<lparr>d_journal := j, d_system := w\<rparr>)
      | ((_, None), j, w) \<Rightarrow>
          (let d1 = d\<lparr>d_journal := j, d_system := w\<rparr>
           in if a_Enabled (c_API c) \<and> api_err \<noteq> None then (Some (APIErr (the api_err)), [], d1)
              else (case Run_loop c sys (millis (ReconnectInitialMs (c_Daemon c))) rs d1 of
                      (CtxErr, ds, d2) \<Rightarrow> (Some Cancelled, ds, d2)
                    | (StillRunning, ds, d2) \<Rightarrow> (None, ds, d2))))"

end
