(* ===== verification/Daemon_Properties.thy ===== *)
theory Daemon_Properties
  imports Daemon
begin

unbundle bit_operations_syntax

text \<open>
  The properties of the daemon: that one connection releases what it acquired, last first, whatever
  fails; what it leaves in the journal; the schedule of the reconnect loop; and what a validated
  configuration makes of the multiplexer.
\<close>

section \<open>Resources\<close>

text \<open>
  The resources held after a log, innermost first; \<open>None\<close> if one is released out of order, the
  routes are applied without the stack running, or rolled back while it runs.
\<close>

fun holding :: "resource list \<Rightarrow> action list \<Rightarrow> resource list option" where
  "holding rs [] = Some rs"
| "holding rs (Acquire r # as) = holding (r # rs) as"
| "holding rs (Release r # as) =
     (case rs of x # xs \<Rightarrow> if x = r then holding xs as else None | [] \<Rightarrow> None)"
| "holding rs (RoutesApplied # as) = (if rs \<noteq> [] \<and> hd rs = Stack then holding rs as else None)"
| "holding rs (RoutesFailed # as) = (if rs \<noteq> [] \<and> hd rs = Stack then holding rs as else None)"
| "holding rs (WentOnline # as) = (if rs \<noteq> [] \<and> hd rs = Stack then holding rs as else None)"
| "holding rs (RolledBack # as) = (if rs \<noteq> [] \<and> hd rs = Adapter then holding rs as else None)"

lemma holding_append: "holding rs (as @ bs) = (case holding rs as of None \<Rightarrow> None | Some ss \<Rightarrow> holding ss bs)"
  by (induction rs as rule: holding.induct) (auto split: list.split)

text \<open>A body that gives back what it takes, whatever it was given.\<close>

definition neat :: "('w daemon \<Rightarrow> daemon_err option \<times> 'w daemon) \<Rightarrow> bool" where
  "neat body \<longleftrightarrow> (\<forall>d e d'. body d = (e, d') \<longrightarrow>
     (\<exists>as. d_log d' = d_log d @ as \<and> (\<forall>rs. holding rs as = Some rs))
     \<and> d_state d' \<in> {d_state d, ''offline''})"

lemma neatI:
  assumes "\<And>d e d'. body d = (e, d') \<Longrightarrow>
    \<exists>as. d_log d' = d_log d @ as \<and> (\<forall>rs. holding rs as = Some rs)"
    and "\<And>d e d'. body d = (e, d') \<Longrightarrow> d_state d' \<in> {d_state d, ''offline''}"
  shows "neat body"
  using assms by (auto simp: neat_def)

lemma neat_deferred:
  assumes "neat body"
  shows "neat (with_deferred r body)"
proof (rule neatI)
  fix d e d'
  assume run: "with_deferred r body d = (e, d')"
  obtain d1 where d1: "body (noting [Acquire r] d) = (e, d1)" "d' = noting [Release r] d1"
    using run by (auto simp: with_deferred_def split: prod.splits)
  from assms d1(1) obtain as where "d_log d1 = d_log (noting [Acquire r] d) @ as"
    "\<forall>rs. holding rs as = Some rs" unfolding neat_def by blast
  then show "\<exists>as. d_log d' = d_log d @ as \<and> (\<forall>rs. holding rs as = Some rs)"
    using d1(2) by (intro exI [of _ "Acquire r # as @ [Release r]"])
      (simp add: noting_def holding_append)
next
  fix d e d'
  assume "with_deferred r body d = (e, d')"
  then obtain d1 where d1: "body (noting [Acquire r] d) = (e, d1)" "d' = noting [Release r] d1"
    by (auto simp: with_deferred_def split: prod.splits)
  from assms d1(1) have "d_state d1 \<in> {d_state (noting [Acquire r] d), ''offline''}"
    unfolding neat_def by blast
  then show "d_state d' \<in> {d_state d, ''offline''}" by (simp add: d1(2) noting_def)
qed

lemma run_routes_log:
  "run_routes c sys h d = (e, d') \<Longrightarrow>
    \<exists>as. d_log d' = d_log d @ as \<and> (\<forall>rs. holding (Stack # Adapter # rs) as = Some rs)
      \<and> d_state d' \<in> {d_state d, ''offline''}"
  by (auto simp: run_routes_def noting_def Let_def split: prod.splits option.splits)

lemma neat_adapter: "neat (run_adapter c sys h)"
proof (rule neatI)
  fix d e d'
  assume run: "run_adapter c sys h d = (e, d')"
  show "\<exists>as. d_log d' = d_log d @ as \<and> (\<forall>rs. holding rs as = Some rs)"
  proof (cases "h_adapter h = None \<and> h_stack h = None")
    case True
    with run have "run_routes c sys h (noting [Acquire Stack] (noting [Acquire Adapter] d)) = (e, d')"
      by (simp add: run_adapter_def Let_def)
    from run_routes_log [OF this] obtain as where
      "d_log d' = d_log (noting [Acquire Stack] (noting [Acquire Adapter] d)) @ as"
      "\<forall>rs. holding (Stack # Adapter # rs) as = Some rs" by blast
    then show ?thesis
      by (intro exI [of _ "Acquire Adapter # Acquire Stack # as"]) (simp add: noting_def)
  next
    case False
    with run show ?thesis
      by (auto simp: run_adapter_def noting_def Let_def split: option.splits)
  qed
next
  fix d e d'
  assume "run_adapter c sys h d = (e, d')"
  then show "d_state d' \<in> {d_state d, ''offline''}"
    using run_routes_log
    by (fastforce simp: run_adapter_def noting_def Let_def split: option.splits)
qed

lemma neat_link: "neat (run_link c sys h)"
proof -
  have body: "neat (with_deferred MuxSession (with_deferred PadInjector (run_adapter c sys h)))"
    by (intro neat_deferred neat_adapter)
  show ?thesis
  proof (cases "h_keys h = None \<and> h_handshake h = None")
    case True
    then have "run_link c sys h = with_deferred MuxSession (with_deferred PadInjector (run_adapter c sys h))"
      by (intro ext) (simp add: run_link_def)
    with body show ?thesis by simp
  next
    case False
    then show ?thesis
      by (intro neatI) (auto simp: run_link_def split: option.splits)
  qed
qed

text \<open>C25: A connection gives back everything it took, last first. However the transport, the keys, the
  handshake, the adapter, the netstack and the routes answer, the resources one connect acquires -
  the link, the mux session, the padding injector, the adapter, the stack - are all released when it
  returns, in the reverse order; the routes are applied only while the stack runs and rolled back
  only after it has stopped and before the adapter is closed; and the daemon no longer says online.\<close>

theorem connect_releases:
  "\<exists>as. d_log (snd (connect c sys h d)) = d_log d @ as \<and> holding [] as = Some []
    \<and> d_state (snd (connect c sys h d)) \<in> {''connecting'', ''offline''}"
proof (cases "pickTransport (h_available h) c")
  case None
  then show ?thesis by (simp add: connect_def)
next
  case (Some tr)
  define d1 where "d1 = d\<lparr>d_state := ''connecting'', d_transport := transport_ID tr\<rparr>"
  show ?thesis
  proof (cases "h_prepare h = None \<and> h_dial h = None")
    case True
    obtain e d2 where run: "with_deferred Link (run_link c sys h) d1 = (e, d2)" by force
    have "neat (with_deferred Link (run_link c sys h))" by (intro neat_deferred neat_link)
    with run have "(\<exists>as. d_log d2 = d_log d1 @ as \<and> (\<forall>rs. holding rs as = Some rs))
        \<and> d_state d2 \<in> {d_state d1, ''offline''}" unfolding neat_def by blast
    moreover have "snd (connect c sys h d) = d2"
      using Some True run by (simp add: connect_def Let_def d1_def)
    ultimately show ?thesis by (auto simp: d1_def)
  next
    case False
    with Some show ?thesis
      by (auto simp: connect_def Let_def split: option.splits)
  qed
qed

section \<open>What is left in the journal\<close>

text \<open>The ids of the journal stay distinct, and its file can be written, through every step.\<close>

definition sound :: "journal \<Rightarrow> bool" where
  "sound j \<longleftrightarrow> distinct (map ID (entries j)) \<and> faults j = []"

text \<open>A step that only adds pending entries.\<close>

definition adds :: "'w step_fn \<Rightarrow> bool" where
  "adds f \<longleftrightarrow> (\<forall>j w e j' w'. sound j \<longrightarrow> f (j, w) = (e, j', w') \<longrightarrow>
     sound j' \<and> (\<exists>es. entries j' = entries j @ es \<and> (\<forall>x\<in>set es. State x = StatePending)))"

lemma addsD:
  "adds f \<Longrightarrow> sound j \<Longrightarrow> f (j, w) = (e, j', w') \<Longrightarrow>
    sound j' \<and> (\<exists>es. entries j' = entries j @ es \<and> (\<forall>x\<in>set es. State x = StatePending))"
  unfolding adds_def by blast

lemma adds_done: "adds done_step"
  by (auto simp: adds_def done_step_def)

lemma adds_and_then:
  assumes "adds f" and "adds g"
  shows "adds (and_then f g)"
  unfolding adds_def
proof (intro allI impI)
  fix j w e j' w'
  assume j: "sound j" and run: "and_then f g (j, w) = (e, j', w')"
  obtain e1 j1 w1 where f1: "f (j, w) = (e1, j1, w1)" by (metis prod_cases3)
  from assms(1) j f1 obtain es where s1: "sound j1" and
    es: "entries j1 = entries j @ es" "\<forall>x\<in>set es. State x = StatePending"
    unfolding adds_def by blast
  show "sound j' \<and> (\<exists>es. entries j' = entries j @ es \<and> (\<forall>x\<in>set es. State x = StatePending))"
  proof (cases e1)
    case (Some err)
    with run f1 have "j' = j1" by (simp add: and_then_def)
    with s1 es show ?thesis by auto
  next
    case None
    with run f1 have "g (j1, w1) = (e, j', w')" by (simp add: and_then_def)
    with assms(2) s1 obtain fs where "sound j'" "entries j' = entries j1 @ fs"
      "\<forall>x\<in>set fs. State x = StatePending" unfolding adds_def by blast
    with es show ?thesis by (intro conjI exI [of _ "es @ fs"]) auto
  qed
qed

lemma adds_for_each: "(\<And>x. adds (f x)) \<Longrightarrow> adds (for_each f xs)"
  unfolding for_each_def by (induction xs) (auto intro: adds_and_then adds_done)

lemma Add_sound:
  assumes "sound j" and "i \<notin> ID ` set (entries j)"
  shows "\<exists>e j'. Add i des a u j = (Inr e, j') \<and> sound j' \<and> entries j' = entries j @ [e]
    \<and> State e = StatePending"
  using assms by (auto simp: sound_def Add_def persist_def next_fault_def Let_def)

text \<open>\<open>gen\<close> draws ids that are not in the journal.\<close>

definition fresh_ids :: "(journal \<Rightarrow> string) \<Rightarrow> bool" where
  "fresh_ids gen \<longleftrightarrow> (\<forall>j. gen j \<notin> ID ` set (entries j))"

lemma adds_mutate:
  assumes "fresh_ids gen"
  shows "adds (mutate gen what des call)"
  unfolding adds_def
proof (intro allI impI)
  fix j w e j' w'
  assume j: "sound j" and run: "mutate gen what des call (j, w) = (e, j', w')"
  obtain r w1 where call: "call w = (r, w1)" by force
  show "sound j' \<and> (\<exists>es. entries j' = entries j @ es \<and> (\<forall>x\<in>set es. State x = StatePending))"
  proof (cases r)
    case (Inl err)
    with run call have "j' = j" by (simp add: mutate_def)
    with j show ?thesis by auto
  next
    case (Inr au)
    obtain a u where au: "au = (a, u)" by force
    have "gen j \<notin> ID ` set (entries j)" using assms by (simp add: fresh_ids_def)
    from Add_sound [OF j this, of des a u] obtain x j1 where
      "Add (gen j) des a u j = (Inr x, j1)" "sound j1" "entries j1 = entries j @ [x]"
      "State x = StatePending" by blast
    with run call Inr au show ?thesis by (auto simp: mutate_def)
  qed
qed

lemma adds_Apply:
  assumes "fresh_ids gen"
  shows "adds (Manager_Apply gen (Some cf) des)"
proof -
  note m = adds_mutate [OF assms]
  have phys: "adds (step_physical_dns gen cf des)"
    unfolding adds_def
  proof (intro allI impI)
    fix j w e j' w'
    assume j: "sound j" and run: "step_physical_dns gen cf des (j, w) = (e, j', w')"
    define f where "f = (\<lambda>i :: InterfaceInfo. if Name i = AdapterName des then done_step
      else mutate gen (''sysroute: rewrite dns on '' @ quote (Name i))
             (''physical dns '' @ Name i) (SetDNS cf (Name i) (DNS des)))"
    have each: "adds (for_each f ifaces)" for ifaces
      by (rule adds_for_each) (simp add: f_def adds_done m)
    show "sound j' \<and> (\<exists>es. entries j' = entries j @ es \<and> (\<forall>x\<in>set es. State x = StatePending))"
    proof (cases "RewritePhysicalDNS des")
      case False
      with run j show ?thesis by (auto simp: step_physical_dns_def done_step_def)
    next
      case True
      obtain r w1 where l: "ListInterfaces cf w = (r, w1)" by force
      show ?thesis
      proof (cases r)
        case (Inl err)
        with run j l True show ?thesis by (auto simp: step_physical_dns_def)
      next
        case (Inr ifaces)
        with run l True have "for_each f ifaces (j, w1) = (e, j', w')"
          by (simp add: step_physical_dns_def f_def)
        with each j show ?thesis unfolding adds_def by blast
      qed
    qed
  qed
  have "adds (step_tunnel_dns gen cf des)" by (simp add: step_tunnel_dns_def m adds_done)
  moreover have "adds (step_address gen cf des)" unfolding step_address_def by (rule m)
  moreover have "adds (for_each (step_route gen cf des) default_routes)"
    by (rule adds_for_each) (simp add: step_route_def m)
  ultimately have "adds (and_then (step_address gen cf des) (and_then
      (for_each (step_route gen cf des) default_routes)
      (and_then (step_tunnel_dns gen cf des) (step_physical_dns gen cf des))))"
    using phys by (intro adds_and_then)
  moreover have "Manager_Apply gen (Some cf) des = and_then (step_address gen cf des) (and_then
      (for_each (step_route gen cf des) default_routes)
      (and_then (step_tunnel_dns gen cf des) (step_physical_dns gen cf des)))"
    by (rule ext) (simp add: Manager_Apply_def)
  ultimately show ?thesis by simp
qed

lemma run_undo_ok: "(\<And>cmd v. fst (runFn cmd v) = None) \<Longrightarrow> fst (run_undo runFn cmds w) = None"
proof (induction cmds arbitrary: w)
  case (Cons cmd cmds)
  obtain w' where "runFn (Fields cmd) w = (None, w')"
    using Cons.prems [of "Fields cmd" w] by (cases "runFn (Fields cmd) w") auto
  with Cons show ?case by (simp add: Let_def)
qed simp

text \<open>What a connection does to the journal and the system, by the way it ends.\<close>

definition ends_as :: "journal \<times> 'w \<Rightarrow> daemon_err option \<Rightarrow> journal \<times> 'w \<Rightarrow> bool" where
  "ends_as s e s' \<longleftrightarrow> sound (fst s') \<and>
     (case e of
        None \<Rightarrow> Outstanding (fst s') = []
      | Some (RoutesErr _) \<Rightarrow>
          \<exists>es. entries (fst s') = entries (fst s) @ es \<and> (\<forall>x\<in>set es. State x = StatePending)
      | Some _ \<Rightarrow> s' = s)"

lemma ends_as_refl: "sound (fst s) \<Longrightarrow> e \<noteq> None \<Longrightarrow> \<forall>m. e \<noteq> Some (RoutesErr m) \<Longrightarrow> ends_as s e s"
  by (auto simp: ends_as_def split: daemon_err.split)

lemma noting_simps [simp]:
  "d_journal (noting as d) = d_journal d" "d_system (noting as d) = d_system d"
  by (simp_all add: noting_def)

definition settles :: "('w daemon \<Rightarrow> daemon_err option \<times> 'w daemon) \<Rightarrow> bool" where
  "settles body \<longleftrightarrow> (\<forall>d e d'. sound (d_journal d) \<longrightarrow> body d = (e, d') \<longrightarrow>
     ends_as (d_journal d, d_system d) e (d_journal d', d_system d'))"

lemma settlesD:
  "settles body \<Longrightarrow> sound (d_journal d) \<Longrightarrow> body d = (e, d') \<Longrightarrow>
    ends_as (d_journal d, d_system d) e (d_journal d', d_system d')"
  unfolding settles_def by blast

lemma settles_deferred:
  assumes "settles body"
  shows "settles (with_deferred r body)"
  unfolding settles_def
proof (intro allI impI)
  fix d e d'
  assume j: "sound (d_journal d)" and "with_deferred r body d = (e, d')"
  then obtain d1 where d1: "body (noting [Acquire r] d) = (e, d1)" "d' = noting [Release r] d1"
    by (auto simp: with_deferred_def split: prod.splits)
  from settlesD [OF assms _ d1(1)] j d1(2)
  show "ends_as (d_journal d, d_system d) e (d_journal d', d_system d')" by simp
qed

lemma settles_routes:
  assumes "fresh_ids (s_gen sys)" and "\<And>cmd v. fst (s_run sys cmd v) = None"
  shows "settles (run_routes c sys h)"
  unfolding settles_def
proof (intro allI impI)
  fix d e d'
  assume j: "sound (d_journal d)" and run: "run_routes c sys h d = (e, d')"
  define des where "des = desired c (s_parse sys (n_TunnelIP (c_Netstack c)))"
  obtain e1 j1 w1 where ap: "Manager_Apply (s_gen sys) (Some (s_configurer sys)) des
      (d_journal d, d_system d) = (e1, j1, w1)" by (metis prod_cases3)
  from addsD [OF adds_Apply [OF assms(1)] j ap] have j1: "sound j1"
    "\<exists>es. entries j1 = entries (d_journal d) @ es \<and> (\<forall>x\<in>set es. State x = StatePending)"
    by simp_all
  show "ends_as (d_journal d, d_system d) e (d_journal d', d_system d')"
  proof (cases e1)
    case (Some err)
    with run ap j1 show ?thesis
      by (auto simp: run_routes_def des_def ends_as_def)
  next
    case None
    obtain n j2 w2 where rb: "Manager_Rollback (s_run sys) j1 (h_meanwhile h w1) = (n, j2, w2)"
      by (metis prod_cases3)
    have "\<forall>x\<in>set (Outstanding j1). \<forall>v. fst (run_undo (s_run sys) (Undo x) v) = None"
      using run_undo_ok [of "s_run sys"] assms(2) by blast
    with RollbackAll_all [of j1 "\<lambda>x. run_undo (s_run sys) (Undo x)" "h_meanwhile h w1"] j1(1) rb
    have "Outstanding j2 = []" "sound j2" by (auto simp: sound_def Manager_Rollback_def)
    with run ap rb None show ?thesis
      by (auto simp: run_routes_def des_def ends_as_def Let_def)
  qed
qed

lemma settles_adapter:
  assumes "settles (run_routes c sys h)"
  shows "settles (run_adapter c sys h)"
  unfolding settles_def
proof (intro allI impI)
  fix d e d'
  assume j: "sound (d_journal d)" and run: "run_adapter c sys h d = (e, d')"
  show "ends_as (d_journal d, d_system d) e (d_journal d', d_system d')"
  proof (cases "h_adapter h = None \<and> h_stack h = None")
    case True
    with run have "run_routes c sys h (noting [Acquire Stack] (noting [Acquire Adapter] d)) = (e, d')"
      by (simp add: run_adapter_def Let_def)
    from settlesD [OF assms _ this] j show ?thesis by simp
  next
    case False
    with run j show ?thesis
      by (auto simp: run_adapter_def Let_def intro!: ends_as_refl split: option.splits)
  qed
qed

lemma settles_link:
  assumes "settles (run_routes c sys h)"
  shows "settles (run_link c sys h)"
proof -
  have body: "settles (with_deferred MuxSession (with_deferred PadInjector (run_adapter c sys h)))"
    by (intro settles_deferred settles_adapter assms)
  show ?thesis unfolding settles_def
  proof (intro allI impI)
    fix d e d'
    assume j: "sound (d_journal d)" and run: "run_link c sys h d = (e, d')"
    show "ends_as (d_journal d, d_system d) e (d_journal d', d_system d')"
    proof (cases "h_keys h = None \<and> h_handshake h = None")
      case True
      with run have "with_deferred MuxSession (with_deferred PadInjector (run_adapter c sys h)) d = (e, d')"
        by (simp add: run_link_def)
      from settlesD [OF body j this] show ?thesis .
    next
      case False
      with run j show ?thesis
        by (auto simp: run_link_def intro!: ends_as_refl split: option.splits)
    qed
  qed
qed

lemma connect_ends:
  assumes "sound (d_journal d)" and "fresh_ids (s_gen sys)" and "\<And>cmd v. fst (s_run sys cmd v) = None"
    and run: "connect c sys h d = (e, d')"
  shows "ends_as (d_journal d, d_system d) e (d_journal d', d_system d')"
proof (cases "pickTransport (h_available h) c")
  case None
  with run assms(1) show ?thesis by (auto simp: connect_def intro!: ends_as_refl)
next
  case (Some tr)
  define d1 where "d1 = d\<lparr>d_state := ''connecting'', d_transport := transport_ID tr\<rparr>"
  show ?thesis
  proof (cases "h_prepare h = None \<and> h_dial h = None")
    case True
    with Some run have "with_deferred Link (run_link c sys h) d1 = (e, d')"
      by (simp add: connect_def Let_def d1_def)
    moreover have "settles (with_deferred Link (run_link c sys h))"
      by (intro settles_deferred settles_link settles_routes assms(2,3))
    moreover have "sound (d_journal d1)" using assms(1) by (simp add: d1_def)
    ultimately have "ends_as (d_journal d1, d_system d1) e (d_journal d', d_system d')"
      by (intro settlesD)
    then show ?thesis by (simp add: d1_def)
  next
    case False
    with Some run assms(1) show ?thesis
      by (auto simp: connect_def Let_def intro!: ends_as_refl split: option.splits)
  qed
qed

text \<open>C26: What a connection leaves behind. With fresh journal ids, a journal that can be written and
  undo commands that succeed: when a session has ended, for whatever reason, no mutation is left
  outstanding, so the routes are gone while the daemon reconnects; when applying the routes fails,
  the mutations made so far stay in force, journaled as pending; and any earlier failure leaves the
  journal and the system as they were. The journal stays sound for the next round.\<close>

theorem connect_routes:
  assumes "sound (d_journal d)" and "fresh_ids (s_gen sys)"
    and "\<And>cmd v. fst (s_run sys cmd v) = None"
  shows "sound (d_journal (snd (connect c sys h d))) \<and>
    (case fst (connect c sys h d) of
       None \<Rightarrow> Outstanding (d_journal (snd (connect c sys h d))) = []
     | Some (RoutesErr _) \<Rightarrow>
         \<exists>es. entries (d_journal (snd (connect c sys h d))) = entries (d_journal d) @ es
           \<and> (\<forall>x\<in>set es. State x = StatePending)
     | Some _ \<Rightarrow> d_journal (snd (connect c sys h d)) = d_journal d
         \<and> d_system (snd (connect c sys h d)) = d_system d)"
proof -
  obtain e d' where run: "connect c sys h d = (e, d')" by force
  from connect_ends [OF assms run] show ?thesis
    by (auto simp: run ends_as_def split: option.split daemon_err.split)
qed

text \<open>A system whose every command succeeds and is recorded, and a host on which all goes well.\<close>

definition demo_sys :: "string list list sys" where
  "demo_sys = \<lparr>s_gen = (\<lambda>j. concat (map ID (entries j)) @ ''a''),
     s_configurer = \<lparr>SetInterfaceIP = (\<lambda>i a n w. (Inr [''undo ip''], w)),
       AddRoute = (\<lambda>dst i m w. (Inr ([], [''undo route'']), w)),
       SetDNS = (\<lambda>i ss w. (Inr ([], [''undo dns'']), w)),
       ListInterfaces = (\<lambda>w. (Inr [\<lparr>Name = ''Wi-Fi'', IfDescription = []\<rparr>], w))\<rparr>,
     s_run = (\<lambda>cmd w. (None, w @ [cmd])), s_parse = (\<lambda>s. [10, 111, 0, 1])\<rparr>"

definition demo_host :: "string list list host" where
  "demo_host = \<lparr>h_available = (\<lambda>t. True), h_prepare = None, h_dial = None, h_keys = None,
     h_handshake = None, h_adapter = None, h_stack = None, h_meanwhile = (\<lambda>w. w)\<rparr>"

definition demo_daemon :: "string list list daemon" where
  "demo_daemon = \<lparr>d_state = ''offline'', d_transport = [],
     d_journal = \<lparr>entries = [], jfile = None, jtmp = None, faults = []\<rparr>, d_system = [], d_log = []\<rparr>"

lemma demo_fresh_ids: "fresh_ids (s_gen demo_sys)"
proof -
  have "i \<in> ID ` set (entries j) \<Longrightarrow> length i \<le> length (concat (map ID (entries j)))"
    for i and j :: journal
    by (auto simp: length_concat intro!: member_le_sum_list)
  then have "concat (map ID (entries j)) @ ''a'' \<notin> ID ` set (entries j)" for j :: journal
    by (metis length_append_singleton not_less_eq_eq order_refl)
  then show ?thesis by (simp add: fresh_ids_def demo_sys_def)
qed

lemma demo_run:
  "fst (connect Default demo_sys demo_host demo_daemon) = None
   \<and> d_system (snd (connect Default demo_sys demo_host demo_daemon))
     = [[''undo'', ''dns''], [''undo'', ''dns''], [''undo'', ''route''], [''undo'', ''route''], [''undo'', ''ip'']]"
  by code_simp

theorem connect_routes_witness:
  "Outstanding (d_journal (snd (connect Default demo_sys demo_host demo_daemon))) = []"
proof -
  have "sound (d_journal demo_daemon)" by (simp add: sound_def demo_daemon_def)
  moreover have "\<And>cmd v. fst (s_run demo_sys cmd v) = None" by (simp add: demo_sys_def)
  ultimately show ?thesis
    using connect_routes [OF _ demo_fresh_ids, of demo_daemon Default demo_host] demo_run by simp
qed

section \<open>The reconnect schedule\<close>

text \<open>The contract of \<open>rand.Int63n\<close>.\<close>

definition below :: "(int \<Rightarrow> int) \<Rightarrow> bool" where
  "below rnd \<longleftrightarrow> (\<forall>n > 0. 0 \<le> rnd n \<and> rnd n < n)"

text \<open>The first delay's base, and the bound, in nanoseconds.\<close>

definition schedule_ok :: "Config \<Rightarrow> bool" where
  "schedule_ok c \<longleftrightarrow> 0 < ReconnectInitialMs (c_Daemon c)
     \<and> ReconnectInitialMs (c_Daemon c) \<le> ReconnectMaxMs (c_Daemon c)
     \<and> ReconnectMaxMs (c_Daemon c) \<le> 10 ^ 12"

abbreviation "first_ns c \<equiv> ReconnectInitialMs (c_Daemon c) * 10 ^ 6"
abbreviation "max_ns c \<equiv> ReconnectMaxMs (c_Daemon c) * 10 ^ 6"

lemma schedule_millis:
  "schedule_ok c \<Longrightarrow> millis (ReconnectInitialMs (c_Daemon c)) = first_ns c
    \<and> millis (ReconnectMaxMs (c_Daemon c)) = max_ns c \<and> 0 < first_ns c \<and> first_ns c \<le> max_ns c
    \<and> max_ns c \<le> 10 ^ 18"
  by (simp add: schedule_ok_def millis_def)

lemma next_backoff_eq: "0 < b \<Longrightarrow> b \<le> 10 ^ 18 \<Longrightarrow> next_backoff m b = min (2 * b) m"
  by (simp add: next_backoff_def Let_def min_def)

lemma jitter_bounds:
  assumes "0 < b" and "b \<le> 10 ^ 18" and "below rnd"
  shows "b \<le> jitter b rnd \<and> jitter b rnd \<le> b + b div 4"
proof -
  have "0 < b div 4 + 1" using assms(1) by simp
  with assms(3) have r: "0 \<le> rnd (b div 4 + 1)" "rnd (b div 4 + 1) \<le> b div 4"
    unfolding below_def by (force, smt (verit))
  have "b div 4 \<le> 10 ^ 18" using assms(1,2) by linarith
  with r assms have "to_int64 (b + rnd (b div 4 + 1)) = b + rnd (b div 4 + 1)"
    by (intro to_int64_id) auto
  with r assms(1) show ?thesis by (simp add: jitter_def)
qed

lemma Run_loop_delays:
  assumes "schedule_ok c" and "first_ns c \<le> b" and "b \<le> max_ns c"
    and "\<forall>r\<in>set rs. below (r_rand r)"
  shows "list_all (\<lambda>x. first_ns c \<le> x \<and> x \<le> max_ns c + max_ns c div 4) (fst (snd (Run_loop c sys b rs d)))"
  using assms(2-4)
proof (induction rs arbitrary: b d)
  case (Cons r rs)
  note sched = schedule_millis [OF assms(1)]
  have rnd: "below (r_rand r)" using Cons.prems(3) by simp
  obtain e d1 where con: "connect c sys (r_host r) d = (e, d1)" by force
  define b1 where "b1 = (if e = None then first_ns c else b)"
  have b1: "first_ns c \<le> b1" "b1 \<le> max_ns c" "0 < b1" "b1 \<le> 10 ^ 18"
    using Cons.prems(1,2) sched by (auto simp: b1_def)
  have "jitter b1 (r_rand r) \<le> max_ns c + max_ns c div 4" "first_ns c \<le> jitter b1 (r_rand r)"
    using jitter_bounds [OF b1(3,4) rnd] b1(1,2) by (linarith, linarith)
  moreover have nb: "first_ns c \<le> next_backoff (max_ns c) b1" "next_backoff (max_ns c) b1 \<le> max_ns c"
    using b1 by (auto simp: next_backoff_eq [OF b1(3,4)])
  moreover have "list_all (\<lambda>x. first_ns c \<le> x \<and> x \<le> max_ns c + max_ns c div 4)
      (fst (snd (Run_loop c sys (next_backoff (max_ns c) b1) rs d1)))"
    using Cons.IH [OF nb] Cons.prems(3) by simp
  ultimately show ?case
    using sched by (auto simp: con Let_def b1_def split: prod.splits)
qed simp

text \<open>A round whose dialing fails, and that is not cancelled.\<close>

definition failing :: "'w loop_round \<Rightarrow> bool" where
  "failing r \<longleftrightarrow> h_dial (r_host r) \<noteq> None \<and> \<not> r_cancelled r \<and> \<not> r_cancelled_after r \<and> r_wait r \<noteq> CtxDone"

lemma failing_connect: "h_dial h \<noteq> None \<Longrightarrow> fst (connect c sys h d) \<noteq> None"
  by (auto simp: connect_def Let_def split: option.splits)

lemma min_doubled: "0 \<le> m \<Longrightarrow> min (2 * min x m) m = min (x * 2) (m :: int)"
  by (auto simp: min_def)

lemma Run_loop_doubles:
  assumes "schedule_ok c" and "\<forall>r\<in>set rs. failing r"
  shows "fst (snd (Run_loop c sys (min (first_ns c * 2 ^ k) (max_ns c)) rs d))
    = map (\<lambda>(i, r). jitter (min (first_ns c * 2 ^ i) (max_ns c)) (r_rand r)) (enumerate k rs)"
  using assms(2)
proof (induction rs arbitrary: k d)
  case (Cons r rs)
  note sched = schedule_millis [OF assms(1)]
  define b where "b = min (first_ns c * 2 ^ k) (max_ns c)"
  have f: "failing r" using Cons.prems by simp
  obtain e d1 where con: "connect c sys (r_host r) d = (Some e, d1)"
    using failing_connect [of "r_host r" c sys d] f by (cases "connect c sys (r_host r) d") (auto simp: failing_def)
  have b: "0 < b" "b \<le> 10 ^ 18" using sched by (auto simp: b_def)
  have nb: "next_backoff (max_ns c) b = min (first_ns c * 2 ^ Suc k) (max_ns c)"
  proof -
    have "next_backoff (max_ns c) b = min (2 * b) (max_ns c)" by (rule next_backoff_eq [OF b])
    also have "\<dots> = min (first_ns c * 2 ^ k * 2) (max_ns c)"
      unfolding b_def using sched by (intro min_doubled) linarith
    also have "first_ns c * 2 ^ k * 2 = first_ns c * 2 ^ Suc k" by (simp only: power_Suc mult_ac)
    finally show ?thesis .
  qed
  have "fst (snd (Run_loop c sys (next_backoff (max_ns c) b) rs d1))
      = map (\<lambda>(i, r). jitter (min (first_ns c * 2 ^ i) (max_ns c)) (r_rand r)) (enumerate (Suc k) rs)"
    unfolding nb using Cons.IH [of "Suc k" d1] Cons.prems by simp
  then show ?case
    using f con sched by (auto simp: failing_def Let_def b_def split: prod.splits)
qed simp

text \<open>C27: The reconnect delays. For a first delay that is positive and at most the bound (of at most
  10^12 ms), every delay the reconnect loop arms lies between the first delay and 1.25 times the
  bound, whatever fails or succeeds; and while dialing keeps failing, the base of the k-th delay is
  the first delay doubled k times, cut at the bound, with no overflow.\<close>

theorem reconnect_backoff:
  assumes "schedule_ok c" and "\<forall>r\<in>set rs. below (r_rand r)"
  shows "list_all (\<lambda>x. first_ns c \<le> x \<and> x \<le> max_ns c + max_ns c div 4)
      (fst (snd (Run_loop c sys (millis (ReconnectInitialMs (c_Daemon c))) rs d)))
    \<and> ((\<forall>r\<in>set rs. failing r) \<longrightarrow>
        fst (snd (Run_loop c sys (millis (ReconnectInitialMs (c_Daemon c))) rs d))
        = map (\<lambda>(k, r). jitter (min (first_ns c * 2 ^ k) (max_ns c)) (r_rand r)) (enumerate 0 rs))"
proof -
  note sched = schedule_millis [OF assms(1)]
  have "min (first_ns c * 2 ^ 0) (max_ns c) = first_ns c" using sched by simp
  with Run_loop_doubles [OF assms(1), of rs sys 0 d] Run_loop_delays [OF assms(1) _ _ assms(2), of "first_ns c"]
    sched show ?thesis by simp
qed

definition demo_round :: "string list list loop_round" where
  "demo_round = \<lparr>r_cancelled = False, r_host = demo_host\<lparr>h_dial := Some ''refused''\<rparr>,
     r_cancelled_after = False, r_rand = (\<lambda>n. 0), r_wait = TimerFired\<rparr>"

theorem reconnect_backoff_witness:
  "fst (snd (Run_loop Default demo_sys (millis 1000) (replicate 7 demo_round) demo_daemon))
    = [10 ^ 9, 2 * 10 ^ 9, 4 * 10 ^ 9, 8 * 10 ^ 9, 16 * 10 ^ 9, 30 * 10 ^ 9, 30 * 10 ^ 9]"
proof -
  have "schedule_ok Default" by (simp add: schedule_ok_def Default_def)
  moreover have "\<forall>r\<in>set (replicate 7 demo_round). below (r_rand r)"
    by (simp add: demo_round_def below_def)
  moreover have "\<forall>r\<in>set (replicate 7 demo_round). failing r"
    by (simp add: demo_round_def failing_def demo_host_def)
  ultimately have "fst (snd (Run_loop Default demo_sys (millis (ReconnectInitialMs (c_Daemon Default)))
        (replicate 7 demo_round) demo_daemon))
      = map (\<lambda>(k, r). jitter (min (first_ns Default * 2 ^ k) (max_ns Default)) (r_rand r))
          (enumerate 0 (replicate 7 demo_round))"
    using reconnect_backoff [of Default "replicate 7 demo_round" demo_sys demo_daemon] by blast
  moreover have "replicate 7 demo_round = [demo_round, demo_round, demo_round, demo_round,
      demo_round, demo_round, demo_round]" by (simp add: numeral_eq_Suc)
  ultimately show ?thesis
    by (simp add: Default_def demo_round_def jitter_def enumerate_eq_zip upt_rec)
qed

section \<open>What a validated configuration makes of a session\<close>

lemma unat_cast: "unat (word_of_int i :: u32) = nat (i mod 2 ^ 32)"
  by (simp add: unsigned_of_int take_bit_eq_mod)

lemma muxConfig_exact:
  assumes "Validate c = None"
  shows "unat (MaxFramePayload (muxConfig c b)) = nat (t_MaxFramePayload (c_Tunnel c))"
    and "unat (InitialWindow (muxConfig c b)) = nat (InitialStreamWindow (c_Tunnel c) mod 2 ^ 32)"
    and "KeepAlive (muxConfig c b) = KeepAliveSecs (c_Tunnel c) * 10 ^ 9"
  using assms by (simp_all add: Validate_None muxConfig_def unat_cast)

text \<open>What validation guarantees of a session. From every validated configuration the daemon and
  the control tool build a multiplexer that starts, whose frame limit is the configured one and
  whose ping timeout is 45 seconds. If the window is below 2^32 it is the configured one and holds
  a whole frame; validation has no upper bound, and a window of exactly 2^32 silently becomes the
  default. A keepalive interval of up to 45 seconds makes the first tick on an idle link send one
  PING; a longer one, which validation allows, makes that tick close the session unasked.\<close>

lemma validated_session:
  assumes "Validate c = None" and "wok w"
  shows "\<exists>s. New w (muxConfig c b) now = Some s
    \<and> unat (MaxFramePayload (cfg s)) = nat (t_MaxFramePayload (c_Tunnel c))
    \<and> PingTimeout (cfg s) = 45 * 10 ^ 9
    \<and> (if InitialStreamWindow (c_Tunnel c) < 2 ^ 32
       then unat (InitialWindow (cfg s)) = nat (InitialStreamWindow (c_Tunnel c))
         \<and> MaxFramePayload (cfg s) \<le> InitialWindow (cfg s)
       else InitialStreamWindow (c_Tunnel c) = 2 ^ 32 \<longrightarrow> InitialWindow (cfg s) = 256 * 1024)
    \<and> (if KeepAliveSecs (c_Tunnel c) \<le> 45
       then keepAlive_tick (now + KeepAlive (cfg s)) s
         = (True, s\<lparr>conn := w\<lparr>wbytes := wbytes w @ encode_frame (mk_frame FlagPING 0
             (put_u64le (word_of_int (now + KeepAlive (cfg s)))))\<rparr>\<rparr>)
       else fst (keepAlive_tick (now + KeepAlive (cfg s)) s) = False
         \<and> closed (snd (keepAlive_tick (now + KeepAlive (cfg s)) s)))"
proof -
  note v = assms(1) [unfolded Validate_None] and x = muxConfig_exact [OF assms(1), of b]
  define m where "m = withDefaults (muxConfig c b)"
  define s where "s = \<lparr>conn = w, cfg = m, heap = [], streams = Map.empty,
    nextID = (if IsInitiator m then 1 else 2), acceptCh = [], closed = False, closeOnce = False,
    done_ch = False, lastRecv = now\<rparr>"
  have mfp: "MaxFramePayload (muxConfig c b) \<noteq> 0" using x(1) v by auto
  then have m: "MaxFramePayload m = MaxFramePayload (muxConfig c b)" "PingTimeout m = 45 * 10 ^ 9"
    "KeepAlive m = KeepAlive (muxConfig c b)" "AcceptQueueDepth m = 64"
    "InitialWindow m = (if InitialWindow (muxConfig c b) = 0 then 256 * 1024 else InitialWindow (muxConfig c b))"
    by (simp_all add: m_def withDefaults_def Let_def muxConfig_def)
  have new: "New w (muxConfig c b) now = Some s"
    using m(4) by (simp add: New_def Let_def m_def [symmetric] s_def)
  have window: "if InitialStreamWindow (c_Tunnel c) < 2 ^ 32
       then unat (InitialWindow m) = nat (InitialStreamWindow (c_Tunnel c))
         \<and> MaxFramePayload m \<le> InitialWindow m
       else InitialStreamWindow (c_Tunnel c) = 2 ^ 32 \<longrightarrow> InitialWindow m = 256 * 1024"
  proof (cases "InitialStreamWindow (c_Tunnel c) < 2 ^ 32")
    case True
    with x(2) v have w: "unat (InitialWindow (muxConfig c b)) = nat (InitialStreamWindow (c_Tunnel c))"
      by simp
    moreover have "InitialWindow (muxConfig c b) \<noteq> 0" using w v by auto
    ultimately show ?thesis using True m x(1) v by (simp add: word_le_nat_alt nat_mono)
  next
    case False
    then show ?thesis using m by (auto simp: muxConfig_def)
  qed
  have ka: "KeepAlive m = KeepAliveSecs (c_Tunnel c) * 10 ^ 9" using m(3) x(3) by simp
  have tick: "if KeepAliveSecs (c_Tunnel c) \<le> 45
       then keepAlive_tick (now + KeepAlive m) s
         = (True, s\<lparr>conn := w\<lparr>wbytes := wbytes w @ encode_frame (mk_frame FlagPING 0
             (put_u64le (word_of_int (now + KeepAlive m))))\<rparr>\<rparr>)
       else fst (keepAlive_tick (now + KeepAlive m) s) = False
         \<and> closed (snd (keepAlive_tick (now + KeepAlive m) s))"
  proof (cases "KeepAliveSecs (c_Tunnel c) \<le> 45")
    case True
    have "1024 \<le> t_MaxFramePayload (c_Tunnel c)" using v by blast
    then have "1024 \<le> unat (MaxFramePayload m)" unfolding m(1) x(1) by linarith
    then have "sendable (MaxFramePayload (cfg s))
        (mk_frame FlagPING 0 (put_u64le (word_of_int (now + KeepAlive m))))"
      by (simp add: s_def put_u64le_def)
    then have "writeFrame (mk_frame FlagPING 0 (put_u64le (word_of_int (now + KeepAlive m)))) s
      = (None, s\<lparr>conn := (conn s)\<lparr>wbytes := wbytes (conn s) @ encode_frame (mk_frame FlagPING 0
          (put_u64le (word_of_int (now + KeepAlive m))))\<rparr>\<rparr>)"
      by (intro writeFrame_ok) (simp_all add: s_def assms(2))
    moreover have "\<not> now + KeepAlive m - lastRecv s > PingTimeout (cfg s)"
      using True ka m(2) by (simp add: s_def)
    moreover have "conn s = w" by (simp add: s_def)
    ultimately show ?thesis using True by (simp add: keepAlive_tick_def)
  next
    case False
    have "closed (closeWithError True s)"
      by (simp add: closeWithError_def s_def wake_all_def Let_def)
    with False ka m(2) show ?thesis by (simp add: keepAlive_tick_def s_def)
  qed
  have "cfg s = m" by (simp add: s_def)
  then show ?thesis using new window tick m(1,2) x(1) by auto
qed

lemma validated_session_example:
  "\<exists>s. New \<lparr>wbytes = [], wok = True\<rparr> (muxConfig Default True) 0 = Some s
    \<and> unat (MaxFramePayload (cfg s)) = 65536 \<and> unat (InitialWindow (cfg s)) = 262144"
  using validated_session [OF Default_valid, of "\<lparr>wbytes = [], wok = True\<rparr>" True 0]
  by (auto simp: Default_def)

end
