(* ===== verification/Doh_Dial.thy ===== *)
theory Doh_Dial
  imports Daemon Resolver Host_Port
begin

text \<open>
  The dialing of the DoH servers: the dial function that \<open>connect\<close> gives to the resolver with
  \<open>hostOf\<close> and \<open>portOf\<close> (desktop/internal/daemon/daemon.go), and the HTTP client that dials with it
  (desktop/internal/resolver/http_util.go). The rest of net/http, the request over a connection,
  is the parameter \<open>exchange\<close>, and \<open>net.ParseIP\<close> is \<open>parse_ip\<close>, whose value for no address is the
  empty list.
\<close>

section \<open>The daemon's dial function\<close>

definition hostOf :: "string \<Rightarrow> string" where
  "hostOf addr = (case SplitHostPort addr of Inr (h, _) \<Rightarrow> h | Inl _ \<Rightarrow> addr)"

definition portOf :: "string \<Rightarrow> int" where
  "portOf addr =
     (case SplitHostPort addr of
        Inl _ \<Rightarrow> 443
      | Inr (_, p) \<Rightarrow> (case Sscanf_d p of Some port \<Rightarrow> port | None \<Rightarrow> 0))"

definition doh_dial :: "(string \<Rightarrow> ip) \<Rightarrow> string \<Rightarrow> TunnelDialer \<Rightarrow> (relay_err + flow_conn) \<times> TunnelDialer" where
  "doh_dial parse_ip addr d = DialTCP (parse_ip (hostOf addr)) (portOf addr) d"

section \<open>The HTTP client\<close>

text \<open>
  The address net/http dials for an https URL, of the standard library: the host and the port of the
  URL as net/url splits them, where brackets enclose a host with colons and a port is what follows
  the last colon if that is digits, joined again with port 443 if it names none. The escapes and the
  letters beyond ASCII that a host may have are left out.
\<close>

definition url_Host :: "string \<Rightarrow> string" where
  "url_Host url =
     (let authority = takeWhile (\<lambda>c. c \<notin> {CHR ''/'', CHR ''?'', CHR ''#''}) (drop (length ''https://'') url)
      in rev (takeWhile (\<lambda>c. c \<noteq> CHR ''@'') (rev authority)))"

definition url_splitHostPort :: "string \<Rightarrow> string \<times> string" where
  "url_splitHostPort hostPort =
     (let (host, port) =
        (if contains_char CHR '':'' hostPort \<and> (\<forall>c\<in>set (after_colon hostPort). is_digit c)
         then (before_colon hostPort, after_colon hostPort) else (hostPort, []))
      in (if host \<noteq> [] \<and> hd host = CHR ''['' \<and> last host = CHR '']'' then butlast (tl host) else host, port))"

definition url_addr :: "string \<Rightarrow> string" where
  "url_addr url =
     (case url_splitHostPort (url_Host url) of
        (host, port) \<Rightarrow> JoinHostPort host (if port = [] then ''443'' else port))"

text \<open>
  \<open>newHTTPClient(dial).Post\<close>: the connection comes from \<open>dial\<close>, whose error is the request's;
  \<open>exchange\<close> is TLS and the request over it.
\<close>

definition http_Post :: "(string \<Rightarrow> TunnelDialer \<Rightarrow> (relay_err + flow_conn) \<times> TunnelDialer)
    \<Rightarrow> (flow_conn \<Rightarrow> string \<Rightarrow> bytes \<Rightarrow> TunnelDialer \<Rightarrow> (io_err + int \<times> 'b) \<times> TunnelDialer)
    \<Rightarrow> ('b, TunnelDialer) http_post" where
  "http_Post dial exchange url query d =
     (case dial (url_addr url) d of
        (Inl _, d') \<Rightarrow> (Inl ConnErr, d')
      | (Inr cn, d') \<Rightarrow> exchange cn url query d')"

section \<open>Properties\<close>

text \<open>A server's URL: a host, which stands in brackets if it has colons, a port or none, and the rest.\<close>

definition doh_url :: "string \<Rightarrow> string option \<Rightarrow> string \<Rightarrow> string" where
  "doh_url h port rest =
     ''https://'' @ (if CHR '':'' \<in> set h then ''['' @ h @ '']'' else h)
       @ (case port of None \<Rightarrow> [] | Some ps \<Rightarrow> CHR '':'' # ps) @ rest"

definition doh_server :: "string \<Rightarrow> string option \<Rightarrow> string \<Rightarrow> bool" where
  "doh_server h port rest \<longleftrightarrow>
     set h \<inter> set ''/?#@[]%'' = {} \<and> (\<forall>c\<in>set h. of_char c < (128 :: nat)) \<and>
     (\<forall>ps. port = Some ps \<longrightarrow> ps \<noteq> [] \<and> (\<forall>c\<in>set ps. is_digit c) \<and> dec_value ps < 65536) \<and>
     (rest = [] \<or> hd rest \<in> set ''/?#'')"

definition server_port :: "string option \<Rightarrow> string" where
  "server_port port = (case port of None \<Rightarrow> ''443'' | Some ps \<Rightarrow> ps)"

lemma takeWhile_all_stop: "\<forall>c\<in>set xs. P c \<Longrightarrow> ys = [] \<or> \<not> P (hd ys) \<Longrightarrow> takeWhile P (xs @ ys) = xs"
  by (cases ys) (simp_all add: takeWhile_append2)

lemma doh_serverD:
  assumes "doh_server h port rest"
  shows "c \<in> set h \<Longrightarrow> c \<notin> {CHR ''/'', CHR ''?'', CHR ''#'', CHR ''@'', CHR ''['', CHR '']''}"
    and "port = Some ps \<Longrightarrow> ps \<noteq> [] \<and> (\<forall>c\<in>set ps. is_digit c) \<and> dec_value ps < 65536"
    and "rest = [] \<or> hd rest \<in> {CHR ''/'', CHR ''?'', CHR ''#''}"
  using assms by (auto simp: doh_server_def)

definition authority :: "string \<Rightarrow> string option \<Rightarrow> string" where
  "authority h port = (if CHR '':'' \<in> set h then ''['' @ h @ '']'' else h)
     @ (case port of None \<Rightarrow> [] | Some ps \<Rightarrow> CHR '':'' # ps)"

lemma authority_chars:
  assumes "doh_server h port rest" and "c \<in> set (authority h port)"
  shows "c \<notin> {CHR ''/'', CHR ''?'', CHR ''#'', CHR ''@''}"
proof -
  from assms(2) consider "c \<in> set h" | "c \<in> {CHR ''['', CHR '']'', CHR '':''}" | ps where "port = Some ps" "c \<in> set ps"
    by (auto simp: authority_def split: option.splits if_splits)
  then show ?thesis
  proof cases
    case 1
    with doh_serverD(1) [OF assms(1)] show ?thesis by blast
  next
    case 3
    with doh_serverD(2) [OF assms(1)] have "is_digit c" by blast
    then show ?thesis by (auto simp: is_digit_def)
  qed auto
qed

lemma url_Host_server:
  assumes "doh_server h port rest"
  shows "url_Host (doh_url h port rest) = authority h port"
proof -
  note chars = authority_chars [OF assms]
  have "takeWhile (\<lambda>c. c \<notin> {CHR ''/'', CHR ''?'', CHR ''#''}) (authority h port @ rest) = authority h port"
    using chars doh_serverD(3) [OF assms] by (intro takeWhile_all_stop) blast+
  moreover have "takeWhile (\<lambda>c. c \<noteq> CHR ''@'') (rev (authority h port)) = rev (authority h port)"
    unfolding takeWhile_eq_all_conv set_rev using chars by blast
  moreover have "drop (length ''https://'') (doh_url h port rest) = authority h port @ rest"
    by (simp add: doh_url_def authority_def)
  ultimately show ?thesis by (simp only: url_Host_def Let_def rev_rev_ident)
qed

lemma split_server:
  assumes "doh_server h port rest"
  shows "url_splitHostPort (authority h port) = (h, case port of None \<Rightarrow> [] | Some ps \<Rightarrow> ps)"
proof -
  define host where "host = (if CHR '':'' \<in> set h then ''['' @ h @ '']'' else h)"
  have strip: "(if host \<noteq> [] \<and> hd host = CHR ''['' \<and> last host = CHR '']'' then butlast (tl host) else host) = h"
    using doh_serverD(1) [OF assms, of "hd h"] by (cases h) (auto simp: host_def)
  show ?thesis
  proof (cases port)
    case None
    have no: "\<not> (contains_char CHR '':'' host \<and> (\<forall>c\<in>set (after_colon host). is_digit c))"
    proof (cases "CHR '':'' \<in> set h")
      case True
      then have "CHR '']'' \<in> set (after_colon host)" by (simp add: after_colon_def host_def)
      moreover have "\<not> is_digit CHR '']''" by (simp add: is_digit_def)
      ultimately show ?thesis by blast
    qed (simp add: host_def contains_char_def)
    then show ?thesis
      unfolding url_splitHostPort_def authority_def host_def [symmetric] None option.case append_Nil2
      using strip by (simp only: if_not_P if_False Let_def prod.case)
  next
    case (Some ps)
    note ps = doh_serverD(2) [OF assms Some]
    then have "CHR '':'' \<notin> set ps" using digit_plain by blast
    from last_colon [OF this, of host] ps strip show ?thesis
      by (simp add: url_splitHostPort_def authority_def host_def [symmetric] Some contains_char_def Let_def)
  qed
qed

lemma server_addr:
  assumes "doh_server h port rest"
  shows "url_addr (doh_url h port rest) = JoinHostPort h (server_port port)"
  unfolding url_addr_def url_Host_server [OF assms] split_server [OF assms] server_port_def
  using doh_serverD(2) [OF assms] by (cases port) simp_all

lemma default_port: "is_digit CHR ''4''" "is_digit CHR ''3''" "dec_value ''443'' = 443"
  by (simp_all add: is_digit_def dec_value_def)

lemma server_dial:
  assumes "doh_server h port rest"
  shows "hostOf (url_addr (doh_url h port rest)) = h"
    and "portOf (url_addr (doh_url h port rest)) = int (dec_value (server_port port))"
proof -
  have digits: "server_port port \<noteq> []" "\<forall>c\<in>set (server_port port). is_digit c" "dec_value (server_port port) < 65536"
    using doh_serverD(2) [OF assms] by (cases port; simp add: server_port_def default_port)+
  have sep: "c \<notin> set (server_port port)" if "c \<in> {CHR '':'', CHR ''['', CHR '']''}" for c
    using digits(2) digit_plain that by blast
  have "SplitHostPort (url_addr (doh_url h port rest)) = Inr (h, server_port port)"
    unfolding server_addr [OF assms]
    by (rule Split_Join) (use sep doh_serverD(1) [OF assms] in blast)+
  with digits Sscanf_digits [of "server_port port"]
  show "hostOf (url_addr (doh_url h port rest)) = h"
    "portOf (url_addr (doh_url h port rest)) = int (dec_value (server_port port))"
    by (simp_all add: hostOf_def portOf_def)
qed

lemma DialTCP_no_address:
  assumes "d_session d = Some s"
  shows "\<exists>e d'. DialTCP [] port d = (Inl e, d') \<and> d_session d' = Some s"
  using assms
  by (auto simp: DialTCP_def open_flow_def dial_target_def To4_def To16_def split: option.split prod.split)

text \<open>Servers that cannot be reached are passed over.\<close>

lemma query_servers_unreachable:
  assumes "\<forall>url\<in>set urls. \<forall>d s. d_session d = Some s \<longrightarrow>
      (\<exists>e d'. post url query d = (Inl e, d') \<and> d_session d' = Some s)"
    and "d_session d = Some s"
  shows "\<exists>e d'. query_servers post rd lastErr (urls @ others) query d = query_servers post rd e others query d'
    \<and> d_session d' = Some s"
  using assms
proof (induction urls arbitrary: d lastErr)
  case Nil
  then show ?case by auto
next
  case (Cons url urls)
  from Cons.prems obtain e d1 where "post url query d = (Inl e, d1)" "d_session d1 = Some s"
    by (meson list.set_intros(1))
  moreover from this have "dohPost post rd url query d = (Inl (PostErr e), d1)"
    by (simp add: dohPost_def)
  ultimately show ?case using Cons.IH [of d1] Cons.prems(1) by simp
qed

lemma default_servers:
  "DohServers (c_DNS Default)
    = map (\<lambda>(h, port, rest). doh_url h port rest)
        [(''cloudflare-dns.com'', None, ''/dns-query''), (''dns.google'', None, ''/dns-query'')]"
  "doh_server ''cloudflare-dns.com'' None ''/dns-query''" "doh_server ''dns.google'' None ''/dns-query''"
  by (simp_all add: Default_def doh_url_def doh_server_def)

text \<open>C29: Which DoH servers can be asked. A server whose URL gives an address is dialed at that address,
  in version 6 without its brackets, and at the port of the URL, which is 443 when it names none.
  Servers whose URLs have hosts that are no addresses are never reached: whatever the query, the
  session, the pacer and the HTTP client are, no stream is opened for them, the session is left as
  it was, and the query goes on with the servers after them; if there are none it fails with
  \<open>AllServersFailed\<close>. So with the default configuration, whose servers are both named, every query
  fails.\<close>

theorem doh_needs_addresses:
  assumes "d_session d = Some s"
    and "\<forall>(h, port, rest)\<in>set named. doh_server h port rest \<and> parse_ip h = []"
    and "doh_server h port rest"
  shows "doh_dial parse_ip (url_addr (doh_url h port rest)) d
      = DialTCP (parse_ip h) (case port of None \<Rightarrow> 443 | Some ps \<Rightarrow> int (dec_value ps)) d
    \<and> (\<exists>e d'. QueryWire (http_Post (doh_dial parse_ip) exchange) rd
          (map (\<lambda>(h, port, rest). doh_url h port rest) named @ others) query d
        = query_servers (http_Post (doh_dial parse_ip) exchange) rd e others query d' \<and> d_session d' = Some s
        \<and> (others = [] \<longrightarrow> QueryWire (http_Post (doh_dial parse_ip) exchange) rd
          (map (\<lambda>(h, port, rest). doh_url h port rest) named) query d = (Inl (AllServersFailed e), d')))
    \<and> (parse_ip ''cloudflare-dns.com'' = [] \<and> parse_ip ''dns.google'' = [] \<longrightarrow>
        (\<exists>e d'. QueryWire (http_Post (doh_dial parse_ip) exchange) rd (DohServers (c_DNS Default)) query d
          = (Inl (AllServersFailed e), d') \<and> d_session d' = Some s))"
proof -
  let ?post = "http_Post (doh_dial parse_ip) exchange" and ?url = "\<lambda>(h, port, rest). doh_url h port rest"
  have skip: "\<exists>e d'. QueryWire ?post rd (map ?url us @ others) query d = query_servers ?post rd e others query d'
      \<and> d_session d' = Some s"
    if us: "\<forall>(h, port, rest)\<in>set us. doh_server h port rest \<and> parse_ip h = []" for us others
    unfolding QueryWire_def
  proof (rule query_servers_unreachable [OF _ assms(1)], intro ballI allI impI)
    fix url s' and d' :: TunnelDialer
    assume u: "url \<in> set (map ?url us)" "d_session d' = Some s'"
    with us have "parse_ip (hostOf (url_addr url)) = []" by (auto simp: server_dial(1))
    with DialTCP_no_address [OF u(2), of "portOf (url_addr url)"]
    show "\<exists>e d. ?post url query d' = (Inl e, d) \<and> d_session d = Some s'"
      by (auto simp: http_Post_def doh_dial_def)
  qed
  have "int (dec_value (server_port port)) = (case port of None \<Rightarrow> 443 | Some ps \<Rightarrow> int (dec_value ps))"
    by (simp add: server_port_def dec_value_def split: option.split)
  then have dial: "doh_dial parse_ip (url_addr (doh_url h port rest)) d
      = DialTCP (parse_ip h) (case port of None \<Rightarrow> 443 | Some ps \<Rightarrow> int (dec_value ps)) d"
    by (simp add: doh_dial_def server_dial [OF assms(3)])
  from skip [OF assms(2), of others] have named: "\<exists>e d'. QueryWire ?post rd (map ?url named @ others) query d
      = query_servers ?post rd e others query d' \<and> d_session d' = Some s
      \<and> (others = [] \<longrightarrow> QueryWire ?post rd (map ?url named) query d = (Inl (AllServersFailed e), d'))"
    by (cases "others = []") auto
  have "\<exists>e d'. QueryWire ?post rd (DohServers (c_DNS Default)) query d = (Inl (AllServersFailed e), d')
      \<and> d_session d' = Some s"
    if "parse_ip ''cloudflare-dns.com'' = []" "parse_ip ''dns.google'' = []"
    using skip [of "[(''cloudflare-dns.com'', None, ''/dns-query''), (''dns.google'', None, ''/dns-query'')]" "[]"]
      that default_servers by simp
  with dial named show ?thesis by blast
qed

definition demo_parse_ip :: "string \<Rightarrow> ip" where
  "demo_parse_ip h = (if h = ''1.1.1.1'' then v4_prefix @ [1, 1, 1, 1] else if h = ''::1'' then replicate 15 0 @ [1] else [])"

definition idle_dialer :: TunnelDialer where
  "idle_dialer = \<lparr>d_session = New \<lparr>wbytes = [], wok = True\<rparr> (muxConfig Default True) 0,
     d_sanitizer = None, d_pacer = None\<rparr>"

lemma withDefaults_queue: "AcceptQueueDepth c = 0 \<Longrightarrow> AcceptQueueDepth (withDefaults c) = 64"
  by (simp add: withDefaults_def Let_def)

theorem doh_needs_addresses_witness:
  "(\<exists>e d'. QueryWire (http_Post (doh_dial demo_parse_ip) (\<lambda>cn url q d. (Inr (200, [q]), d))) (src_read EOF)
      (DohServers (c_DNS Default)) (replicate 12 0) idle_dialer = (Inl (AllServersFailed e), d'))
   \<and> doh_dial demo_parse_ip (url_addr ''https://[::1]:8443/dns-query'') idle_dialer
      = DialTCP (replicate 15 0 @ [1]) 8443 idle_dialer"
proof -
  obtain s where s: "d_session idle_dialer = Some s"
    by (simp add: idle_dialer_def New_def Let_def withDefaults_queue muxConfig_def)
  have named: "\<forall>(h, port, rest)\<in>set [(''dns.example'', None, [])]. doh_server h port rest \<and> demo_parse_ip h = []"
    by (simp add: doh_server_def demo_parse_ip_def)
  have server: "doh_server ''::1'' (Some ''8443'') ''/dns-query''"
    by (simp add: doh_server_def is_digit_def dec_value_def)
  have url: "doh_url ''::1'' (Some ''8443'') ''/dns-query'' = ''https://[::1]:8443/dns-query''" "dec_value ''8443'' = 8443"
    by (simp_all add: doh_url_def dec_value_def)
  from doh_needs_addresses [OF s named server] url show ?thesis by (fastforce simp: demo_parse_ip_def)
qed

end
