(* ===== verification/Transport.thy ===== *)
theory Transport
  imports Doh_Dial
begin

text \<open>
  The transports, desktop/internal/transport/transport.go: USB through \<open>adb forward\<close> and Wi-Fi, with
  what \<open>connect\<close> (desktop/internal/daemon/daemon.go) does with the one it picked. Running a command
  and dialing a TCP address are the operating system's: \<open>exec\<close> as in Sysroute, and \<open>tcp\<close>, which
  gives an error or a connection. Timeouts are outcomes of these. The loopback transport serves
  tests only; it dials its address as the Wi-Fi transport does.
\<close>

section \<open>The operations\<close>

type_synonym ('c, 'w) tcp_dial = "string \<Rightarrow> 'w \<Rightarrow> (string + 'c) \<times> 'w"

text \<open>The commands of the USB transport.\<close>

definition adb_forward :: "string \<Rightarrow> int \<Rightarrow> int \<Rightarrow> string list" where
  "adb_forward bin hostPort phonePort = [bin, ''forward'', ''tcp:'' @ Itoa hostPort, ''tcp:'' @ Itoa phonePort]"

definition ADB_Prepare :: "'w os_exec \<Rightarrow> string \<Rightarrow> int \<Rightarrow> int \<Rightarrow> 'w \<Rightarrow> string option \<times> 'w" where
  "ADB_Prepare exec bin hostPort phonePort w =
     (case exec (adb_forward bin hostPort phonePort) w of
        ((out, None), w') \<Rightarrow> (None, w')
      | ((out, Some err), w') \<Rightarrow> (Some (''usb: adb forward failed: '' @ err @ '': '' @ out), w'))"

definition ADB_Available :: "'w os_exec \<Rightarrow> string \<Rightarrow> 'w \<Rightarrow> bool \<times> 'w" where
  "ADB_Available exec bin w = (case exec [bin, ''get-state''] w of ((_, err), w') \<Rightarrow> (err = None, w'))"

definition usb_addr :: "int \<Rightarrow> string" where
  "usb_addr hostPort = JoinHostPort ''127.0.0.1'' (Itoa hostPort)"

definition ADB_Dial :: "('c, 'w) tcp_dial \<Rightarrow> int \<Rightarrow> 'w \<Rightarrow> (string + 'c) \<times> 'w" where
  "ADB_Dial tcp hostPort w =
     (case tcp (usb_addr hostPort) w of
        (Inl err, w') \<Rightarrow> (Inl (''usb: dial '' @ Itoa hostPort @ '': '' @ err), w')
      | (Inr c, w') \<Rightarrow> (Inr c, w'))"

text \<open>\<open>dial\<close>; setting \<open>TCP_NODELAY\<close> on the connection has no effect on what is written.\<close>

definition transport_dial :: "('c, 'w) tcp_dial \<Rightarrow> string \<Rightarrow> 'w \<Rightarrow> (string + 'c) \<times> 'w" where
  "transport_dial tcp addr w =
     (case tcp addr w of
        (Inl err, w') \<Rightarrow> (Inl (''transport: dial '' @ addr @ '': '' @ err), w')
      | (Inr c, w') \<Rightarrow> (Inr c, w'))"

definition WLAN_Available :: "('c, 'w) tcp_dial \<Rightarrow> ('c \<Rightarrow> 'w \<Rightarrow> 'w) \<Rightarrow> string \<Rightarrow> 'w \<Rightarrow> bool \<times> 'w" where
  "WLAN_Available tcp close addr w =
     (case transport_dial tcp addr w of (Inl _, w') \<Rightarrow> (False, w') | (Inr c, w') \<Rightarrow> (True, close c w'))"

text \<open>The methods of the interface.\<close>

definition transport_Prepare :: "'w os_exec \<Rightarrow> transport \<Rightarrow> 'w \<Rightarrow> string option \<times> 'w" where
  "transport_Prepare exec tr w =
     (case tr of TransportADB bin h p \<Rightarrow> ADB_Prepare exec bin h p w | TransportWLAN _ \<Rightarrow> (None, w))"

definition transport_Available :: "'w os_exec \<Rightarrow> ('c, 'w) tcp_dial \<Rightarrow> ('c \<Rightarrow> 'w \<Rightarrow> 'w) \<Rightarrow> transport \<Rightarrow> 'w
    \<Rightarrow> bool \<times> 'w" where
  "transport_Available exec tcp close tr w =
     (case tr of TransportADB bin _ _ \<Rightarrow> ADB_Available exec bin w
      | TransportWLAN addr \<Rightarrow> WLAN_Available tcp close addr w)"

definition transport_Dial :: "('c, 'w) tcp_dial \<Rightarrow> transport \<Rightarrow> 'w \<Rightarrow> (string + 'c) \<times> 'w" where
  "transport_Dial tcp tr w =
     (case tr of TransportADB _ h _ \<Rightarrow> ADB_Dial tcp h w | TransportWLAN addr \<Rightarrow> transport_dial tcp addr w)"

text \<open>
  \<open>pickTransport\<close> with the probes it makes, and the part of \<open>connect\<close> up to the connection: pick,
  prepare, dial. \<open>None\<close> in the result is "no transport".
\<close>

fun probe_loop :: "'w os_exec \<Rightarrow> ('c, 'w) tcp_dial \<Rightarrow> ('c \<Rightarrow> 'w \<Rightarrow> 'w) \<Rightarrow> Config \<Rightarrow> string list \<Rightarrow> 'w
    \<Rightarrow> transport option \<times> 'w" where
  "probe_loop exec tcp close c [] w = (None, w)"
| "probe_loop exec tcp close c (name # names) w =
     (case pick_loop (\<lambda>_. True) c [name] of
        None \<Rightarrow> probe_loop exec tcp close c names w
      | Some tr \<Rightarrow>
          (case transport_Available exec tcp close tr w of
             (True, w') \<Rightarrow> (Some tr, w')
           | (False, w') \<Rightarrow> probe_loop exec tcp close c names w'))"

definition connect_transport :: "'w os_exec \<Rightarrow> ('c, 'w) tcp_dial \<Rightarrow> ('c \<Rightarrow> 'w \<Rightarrow> 'w) \<Rightarrow> Config \<Rightarrow> 'w
    \<Rightarrow> (string + 'c) option \<times> 'w" where
  "connect_transport exec tcp close c w =
     (case probe_loop exec tcp close c (Priority (c_Transport c)) w of
        (None, w1) \<Rightarrow> (None, w1)
      | (Some tr, w1) \<Rightarrow>
          (case transport_Prepare exec tr w1 of
             (Some err, w2) \<Rightarrow> (Some (Inl err), w2)
           | (None, w2) \<Rightarrow> (case transport_Dial tcp tr w2 of (r, w3) \<Rightarrow> (Some r, w3))))"

section \<open>Properties\<close>

text \<open>The address of a forwarded port is read back as that port.\<close>

lemma usb_addr_split:
  assumes "0 \<le> h" "h < 2 ^ 63"
  shows "hostOf (usb_addr h) = ''127.0.0.1'' \<and> portOf (usb_addr h) = h"
proof -
  have "SplitHostPort (usb_addr h) = Inr (''127.0.0.1'', Itoa h)"
    unfolding usb_addr_def using assms(1) nat_dec_plain [of _ "nat h"]
    by (intro Split_Join) (simp_all add: Itoa_def)
  with Sscanf_Itoa [OF assms] show ?thesis by (simp add: hostOf_def portOf_def)
qed

text \<open>The probing loop picks what \<open>pickTransport\<close> picks, when availability does not depend on the world.\<close>

lemma probe_loop_pick:
  assumes "\<And>tr w. transport_Available exec tcp close tr w = (avail tr, w)"
  shows "probe_loop exec tcp close c names w = (pick_loop avail c names, w)"
  by (induction names) (auto simp: assms Let_def)

text \<open>
  A world that logs what it is asked: the commands run and the addresses dialed, with any outcomes.
\<close>

definition logging_exec :: "(string list \<Rightarrow> string \<times> string option) \<Rightarrow> (string list list \<times> string list) os_exec" where
  "logging_exec out argv w = (out argv, (fst w @ [argv], snd w))"

definition logging_tcp :: "(string \<Rightarrow> string + 'c) \<Rightarrow> ('c, string list list \<times> string list) tcp_dial" where
  "logging_tcp out addr w = (out addr, (fst w, snd w @ [addr]))"

text \<open>C30: What a USB connection runs and dials. With usb first in the priority list and the device
  there, \<open>connect\<close> runs exactly two commands, the probe and one forwarding from the configured host
  port to the port the phone's relay listens on, and dials exactly one address, 127.0.0.1 at that
  host port (read back by splitting the address); a failed forwarding dials nothing. Nothing else
  of the system is asked, whatever the commands print.\<close>

theorem usb_link:
  assumes "Priority (c_Transport c) = ''usb'' # names" and "snd (out [Binary (c_ADB (c_Transport c)), ''get-state'']) = None"
    and "HostPort (c_ADB (c_Transport c)) = h" and "0 \<le> h" and "h < 2 ^ 63"
    and "fwd = [Binary (c_ADB (c_Transport c)), ''forward'', ''tcp:'' @ Itoa h, ''tcp:'' @ Itoa (ListenPort (c_Tunnel c))]"
  shows "\<exists>addr. hostOf addr = ''127.0.0.1'' \<and> portOf addr = h \<and>
    (case connect_transport (logging_exec out) (logging_tcp tcp) (\<lambda>_ w. w) c ([], []) of
       (r, cmds, addrs) \<Rightarrow>
         cmds = [[Binary (c_ADB (c_Transport c)), ''get-state''], fwd] \<and>
         (case snd (out fwd) of
            Some err \<Rightarrow> addrs = [] \<and> (\<exists>msg. r = Some (Inl msg))
          | None \<Rightarrow> addrs = [addr] \<and> (case tcp addr of Inr cn \<Rightarrow> r = Some (Inr cn) | Inl _ \<Rightarrow> \<exists>msg. r = Some (Inl msg))))"
proof (intro exI conjI)
  show "hostOf (usb_addr h) = ''127.0.0.1''" "portOf (usb_addr h) = h"
    using usb_addr_split [OF assms(4,5)] by simp_all
  have probe: "probe_loop (logging_exec out) (logging_tcp tcp) (\<lambda>_ w. w) c (Priority (c_Transport c)) ([], [])
      = (Some (TransportADB (Binary (c_ADB (c_Transport c))) h (ListenPort (c_Tunnel c))),
         [[Binary (c_ADB (c_Transport c)), ''get-state'']], [])"
    using assms(1-3)
    by (cases "out [Binary (c_ADB (c_Transport c)), ''get-state'']")
      (simp add: transport_Available_def ADB_Available_def logging_exec_def Let_def)
  have fwd: "adb_forward (Binary (c_ADB (c_Transport c))) h (ListenPort (c_Tunnel c)) = fwd"
    unfolding adb_forward_def assms(6) ..
  show "case connect_transport (logging_exec out) (logging_tcp tcp) (\<lambda>_ w. w) c ([], []) of
      (r, cmds, addrs) \<Rightarrow> cmds = [[Binary (c_ADB (c_Transport c)), ''get-state''], fwd] \<and>
         (case snd (out fwd) of
            Some err \<Rightarrow> addrs = [] \<and> (\<exists>msg. r = Some (Inl msg))
          | None \<Rightarrow> addrs = [usb_addr h] \<and>
              (case tcp (usb_addr h) of Inr cn \<Rightarrow> r = Some (Inr cn) | Inl _ \<Rightarrow> \<exists>msg. r = Some (Inl msg)))"
    by (cases "out fwd"; cases "tcp (usb_addr h)")
      (auto simp: connect_transport_def probe transport_Prepare_def ADB_Prepare_def fwd logging_exec_def
        transport_Dial_def ADB_Dial_def logging_tcp_def split: option.split)
qed

theorem usb_link_witness:
  "\<exists>addr cmds. portOf addr = 47472 \<and>
    connect_transport (logging_exec (\<lambda>_. ([], None))) (logging_tcp (\<lambda>a. Inr a)) (\<lambda>_ w. w) Default ([], [])
      = (Some (Inr addr), cmds, [addr]) \<and> length cmds = 2"
proof -
  have "Priority (c_Transport Default) = ''usb'' # [''hotspot'', ''wfd'']"
    "HostPort (c_ADB (c_Transport Default)) = 47472" by (simp_all add: Default_def)
  moreover obtain r cmds addrs where run: "connect_transport (logging_exec (\<lambda>_. ([], None)))
      (logging_tcp (\<lambda>a. Inr a)) (\<lambda>_ w. w) Default ([], []) = (r, cmds, addrs)"
    by (metis prod_cases3)
  ultimately show ?thesis
    using usb_link [of Default "[''hotspot'', ''wfd'']" "\<lambda>_. ([], None)" 47472 _ "\<lambda>a. Inr a"] by auto
qed

end
