(* ===== verification/Keys.thy ===== *)
theory Keys
  imports Crypto Go_Strings
begin

unbundle bit_operations_syntax

text \<open>
  The key store, desktop/internal/keys/store.go, and what the control tool does with it
  (desktop/cmd/toppactl/main.go): the identity loaded or generated on first use, the pinned peers,
  and the pinning on first use of the serving side. The JSON encoding of a record and its decoding
  (encoding/json) and the joining of paths (path/filepath) are in the record \<open>codec\<close>.
\<close>

section \<open>The store\<close>

record Identity =
  Private :: bytes
  Public :: bytes

text \<open>
  The time of pinning is left out. \<open>None\<close> is the slice \<open>nil\<close>, which decoding leaves when the file has no
  key or the key null; encoding writes it as null.
\<close>

record pinnedPeer =
  pp_Public :: "bytes option"

datatype keys_err =
    CreateDir string | ParseErr string string | CorruptLengths string | ReadErr string string
  | WriteErr string string | BadPeerKey nat | GenerateErr string

record codec =
  marshal_id :: "Identity \<Rightarrow> bytes"
  unmarshal_id :: "bytes \<Rightarrow> string + Identity"
  marshal_peer :: "pinnedPeer \<Rightarrow> bytes"
  unmarshal_peer :: "bytes \<Rightarrow> string + pinnedPeer"
  path_join :: "string \<Rightarrow> string \<Rightarrow> string"

text \<open>
  The file system: the files, and the errors that reading, writing and making a directory give
  besides a file that does not exist. A write that fails leaves the file as the fault says: as it
  was, truncated or in part written.
\<close>

record disk =
  files :: "string \<Rightarrow> bytes option"
  read_fault :: "string \<Rightarrow> string option"
  write_fault :: "string \<Rightarrow> (string \<times> bytes option) option"
  mkdir_fault :: "string \<Rightarrow> string option"

definition NewStore :: "string \<Rightarrow> disk \<Rightarrow> keys_err + string" where
  "NewStore dir k = (case mkdir_fault k dir of Some e \<Rightarrow> Inl (CreateDir e) | None \<Rightarrow> Inr dir)"

definition writeJSON :: "codec \<Rightarrow> string \<Rightarrow> string \<Rightarrow> bytes \<Rightarrow> disk \<Rightarrow> keys_err option \<times> disk" where
  "writeJSON cd dir name raw k =
     (let path = path_join cd dir name
      in case write_fault k path of
           Some (e, rest) \<Rightarrow> (Some (WriteErr path e), k\<lparr>files := (files k)(path := rest)\<rparr>)
         | None \<Rightarrow> (None, k\<lparr>files := (files k)(path \<mapsto> raw)\<rparr>))"

definition SaveIdentity :: "codec \<Rightarrow> string \<Rightarrow> Identity \<Rightarrow> disk \<Rightarrow> keys_err option \<times> disk" where
  "SaveIdentity cd dir i k = writeJSON cd dir ''identity.json'' (marshal_id cd i) k"

text \<open>\<open>generate\<close>: \<open>rnd\<close> is the outcome of the random source for the private key.\<close>

definition generate :: "(string + bytes) \<Rightarrow> keys_err + Identity" where
  "generate rnd =
     (case rnd of
        Inl e \<Rightarrow> Inl (GenerateErr e)
      | Inr priv \<Rightarrow> Inr \<lparr>Private = priv, Public = x25519 priv basepoint\<rparr>)"

definition load_identity :: "codec \<Rightarrow> string \<Rightarrow> (string + bytes) \<Rightarrow> disk \<Rightarrow> (keys_err + Identity) \<times> disk" where
  "load_identity cd dir rnd k =
     (let path = path_join cd dir ''identity.json''
      in case read_fault k path of
           Some e \<Rightarrow> (Inl (ReadErr path e), k)
         | None \<Rightarrow>
             (case files k path of
                Some raw \<Rightarrow>
                  (case unmarshal_id cd raw of
                     Inl e \<Rightarrow> (Inl (ParseErr path e), k)
                   | Inr i \<Rightarrow>
                       (if length (Private i) \<noteq> 32 \<or> length (Public i) \<noteq> 32
                        then (Inl (CorruptLengths path), k) else (Inr i, k)))
              | None \<Rightarrow>
                  (case generate rnd of
                     Inl e \<Rightarrow> (Inl e, k)
                   | Inr i \<Rightarrow>
                       (case SaveIdentity cd dir i k of
                          (Some e, k') \<Rightarrow> (Inl e, k')
                        | (None, k') \<Rightarrow> (Inr i, k')))))"

definition peer_file :: "string \<Rightarrow> string" where
  "peer_file name = ''peer-'' @ name @ ''.json''"

definition PinPeer :: "codec \<Rightarrow> string \<Rightarrow> string \<Rightarrow> bytes \<Rightarrow> disk \<Rightarrow> keys_err option \<times> disk" where
  "PinPeer cd dir name pub k =
     (if length pub \<noteq> 32 then (Some (BadPeerKey (length pub)), k)
      else writeJSON cd dir (peer_file name) (marshal_peer cd \<lparr>pp_Public = Some pub\<rparr>) k)"

text \<open>
  The key, and whether one exists; a missing file is no error. Of a file that is there the key is
  returned as it was decoded, also when it is \<open>nil\<close>.
\<close>

definition PinnedPeerOf :: "codec \<Rightarrow> string \<Rightarrow> string \<Rightarrow> disk \<Rightarrow> keys_err + (bytes option \<times> bool)" where
  "PinnedPeerOf cd dir name k =
     (let path = path_join cd dir (peer_file name)
      in case read_fault k path of
           Some e \<Rightarrow> Inl (ReadErr path e)
         | None \<Rightarrow>
             (case files k path of
                None \<Rightarrow> Inr (None, False)
              | Some raw \<Rightarrow>
                  (case unmarshal_peer cd raw of
                     Inl e \<Rightarrow> Inl (ParseErr path e)
                   | Inr p \<Rightarrow> Inr (pp_Public p, True))))"

section \<open>The control tool\<close>

definition fingerprint :: "bytes \<Rightarrow> string" where
  "fingerprint pub =
     concat (map (\<lambda>x. [hex_digit (unat x div 16), hex_digit (unat x mod 16)]) (take 8 (sha256 pub)))"

definition pinnedIf :: "bool \<Rightarrow> bytes option \<Rightarrow> bytes option" where
  "pinnedIf has pinned = (if has then pinned else None)"

fun bytesEqual :: "bytes \<Rightarrow> bytes \<Rightarrow> bool" where
  "bytesEqual [] [] = True"
| "bytesEqual (x # xs) (y # ys) = (if x \<noteq> y then False else bytesEqual xs ys)"
| "bytesEqual xs ys = False"

text \<open>
  \<open>handleServeConn\<close> up to the multiplexer. \<open>hs\<close> is the handshake with the pin it is given: the
  peer's static key when it succeeds. The result says whether the connection is served.
\<close>

definition serve_conn :: "codec \<Rightarrow> string \<Rightarrow> bool \<Rightarrow> bytes option \<Rightarrow> (bytes option \<Rightarrow> bytes option)
    \<Rightarrow> disk \<Rightarrow> bool \<times> disk" where
  "serve_conn cd dir hasPin pinned hs k =
     (case hs (pinnedIf hasPin pinned) of
        None \<Rightarrow> (False, k)
      | Some peer \<Rightarrow>
          (True, if hasPin then k else snd (PinPeer cd dir ''default'' peer k)))"

text \<open>
  The accept loop of \<open>runServe\<close>: the pin has been read once, and every connection is handled with
  it, in the order in which they pin.
\<close>

fun serve_loop :: "codec \<Rightarrow> string \<Rightarrow> bool \<Rightarrow> bytes option \<Rightarrow> (bytes option \<Rightarrow> bytes option) list
    \<Rightarrow> disk \<Rightarrow> bool list \<times> disk" where
  "serve_loop cd dir hasPin pinned [] k = ([], k)"
| "serve_loop cd dir hasPin pinned (hs # hss) k =
     (case serve_conn cd dir hasPin pinned hs k of
        (b, k') \<Rightarrow> (case serve_loop cd dir hasPin pinned hss k' of (bs, k'') \<Rightarrow> (b # bs, k'')))"

text \<open>
  The start of both commands: the store, the identity and the pinned peer, in this order.
\<close>

definition open_store :: "codec \<Rightarrow> string \<Rightarrow> (string + bytes) \<Rightarrow> disk \<Rightarrow> (keys_err + bytes option \<times> bool) \<times> disk" where
  "open_store cd dir rnd k =
     (case NewStore dir k of
        Inl e \<Rightarrow> (Inl e, k)
      | Inr dir \<Rightarrow>
          (case load_identity cd dir rnd k of
             (Inl e, k') \<Rightarrow> (Inl e, k')
           | (Inr _, k') \<Rightarrow> (PinnedPeerOf cd dir ''default'' k', k')))"

text \<open>
  \<open>runPing\<close> up to the multiplexer, the initiating side: \<open>hs\<close> stands for dialing and the handshake with
  the pin it is given. An error of pinning is not reported.
\<close>

datatype ping_err = PingStore keys_err | PingHandshake

definition ping_conn :: "codec \<Rightarrow> string \<Rightarrow> (string + bytes) \<Rightarrow> (bytes option \<Rightarrow> bytes option) \<Rightarrow> disk
    \<Rightarrow> (ping_err + bytes) \<times> disk" where
  "ping_conn cd dir rnd hs k =
     (case open_store cd dir rnd k of
        (Inl e, k') \<Rightarrow> (Inl (PingStore e), k')
      | (Inr (pinned, hasPin), k') \<Rightarrow>
          (case hs (pinnedIf hasPin pinned) of
             None \<Rightarrow> (Inl PingHandshake, k')
           | Some peer \<Rightarrow>
               (Inr peer, if hasPin then k' else snd (PinPeer cd dir ''default'' peer k'))))"

section \<open>Properties\<close>

text \<open>
  The documented behaviour of encoding/json and path/filepath that the store relies on: decoding
  what was encoded gives it back, and joining a directory with two different plain file names
  gives two different paths. A name with a separator is not plain: joining cleans the path, and
  a peer name such as x/../identity would reach another file.
\<close>

definition plain :: "string \<Rightarrow> bool" where
  "plain n \<longleftrightarrow> CHR ''/'' \<notin> set n \<and> CHR 0x5C \<notin> set n \<and> n \<noteq> ''.'' \<and> n \<noteq> ''..'' \<and> n \<noteq> []"

definition codec_ok :: "codec \<Rightarrow> bool" where
  "codec_ok cd \<longleftrightarrow>
     (\<forall>i. unmarshal_id cd (marshal_id cd i) = Inr i) \<and>
     (\<forall>p. unmarshal_peer cd (marshal_peer cd p) = Inr p) \<and>
     (\<forall>dir m n. plain m \<and> plain n \<and> path_join cd dir m = path_join cd dir n \<longrightarrow> m = n)"

lemma bytesEqual_iff: "bytesEqual a b \<longleftrightarrow> a = b"
  by (induction a b rule: bytesEqual.induct) auto

lemma peer_file_inj: "peer_file m = peer_file n \<longleftrightarrow> m = n"
  by (simp add: peer_file_def)

lemma peer_file_not_identity: "peer_file m \<noteq> ''identity.json''"
  by (simp add: peer_file_def)

lemma plain_identity: "plain ''identity.json''"
  by (simp add: plain_def)

lemma plain_peer_file: "plain name \<Longrightarrow> plain (peer_file name)"
  by (auto simp: plain_def peer_file_def)

lemma peer_path_identity:
  "codec_ok cd \<Longrightarrow> plain name \<Longrightarrow>
    path_join cd dir (peer_file name) \<noteq> path_join cd dir ''identity.json''"
  using plain_identity plain_peer_file [of name] peer_file_not_identity [of name]
  unfolding codec_ok_def by blast

lemma peer_paths:
  "codec_ok cd \<Longrightarrow> plain m \<Longrightarrow> plain n \<Longrightarrow> m \<noteq> n \<Longrightarrow>
    path_join cd dir (peer_file m) \<noteq> path_join cd dir (peer_file n)"
  using plain_peer_file [of m] plain_peer_file [of n] peer_file_inj [of m n]
  unfolding codec_ok_def by blast

definition no_faults :: "disk \<Rightarrow> bool" where
  "no_faults k \<longleftrightarrow> (\<forall>p. read_fault k p = None \<and> write_fault k p = None \<and> mkdir_fault k p = None)"

lemma writeJSON_ok:
  "no_faults k \<Longrightarrow> writeJSON cd dir name raw k = (None, k\<lparr>files := (files k)(path_join cd dir name \<mapsto> raw)\<rparr>)"
  by (simp add: writeJSON_def no_faults_def Let_def)

lemma writeJSON_files:
  "writeJSON cd dir name raw k = (e, k') \<Longrightarrow> q \<noteq> path_join cd dir name \<Longrightarrow>
    files k' q = files k q \<and> read_fault k' = read_fault k"
  by (auto simp: writeJSON_def Let_def split: option.splits)

lemma PinPeer_files:
  "PinPeer cd dir name pub k = (e, k') \<Longrightarrow> q \<noteq> path_join cd dir (peer_file name) \<Longrightarrow>
    files k' q = files k q \<and> read_fault k' = read_fault k"
  by (auto simp: PinPeer_def dest: writeJSON_files split: if_splits)

lemma PinnedPeerOf_other_file:
  "q \<noteq> path_join cd dir (peer_file name) \<Longrightarrow>
    PinnedPeerOf cd dir name (k\<lparr>files := (files k)(q \<mapsto> raw)\<rparr>) = PinnedPeerOf cd dir name k"
  by (simp add: PinnedPeerOf_def Let_def split: option.split)

text \<open>What a successful load leaves on the disk.\<close>

lemma load_identity_saved:
  assumes "codec_ok cd" and "length priv = 32" and "load_identity cd dir (Inr priv) k = (Inr i, k1)"
  shows "length (Private i) = 32 \<and> length (Public i) = 32 \<and> read_fault k1 = read_fault k
    \<and> read_fault k (path_join cd dir ''identity.json'') = None
    \<and> (\<exists>raw. files k1 (path_join cd dir ''identity.json'') = Some raw \<and> unmarshal_id cd raw = Inr i)"
  using assms
  by (auto simp: load_identity_def Let_def generate_def SaveIdentity_def writeJSON_def codec_ok_def
      split: option.splits sum.splits if_splits)

text \<open>The identity is generated once. Whether it was found or generated from 32 random bytes, an
  identity that was returned is returned again by every later use, whatever that would draw, and
  nothing is written then, also after a peer has been pinned in between.\<close>

lemma identity_stable:
  assumes "codec_ok cd" and "length priv = 32" and "load_identity cd dir (Inr priv) k = (Inr i, k1)"
    and "plain name" and "PinPeer cd dir name pub k1 = (e, k2)"
  shows "load_identity cd dir rnd k2 = (Inr i, k2)"
proof -
  have "path_join cd dir ''identity.json'' \<noteq> path_join cd dir (peer_file name)"
    using peer_path_identity [OF assms(1,4), of dir] by simp
  from PinPeer_files [OF assms(5) this] load_identity_saved [OF assms(1-3)] show ?thesis
    by (auto simp: load_identity_def Let_def)
qed

text \<open>
  A codec and a disk for the witnesses: an identity laid out as the length of its private key in
  unary, the private key and the public key; a pinned peer as its key behind
  a one, or nothing at all for \<open>nil\<close>.
\<close>

definition demo_codec :: codec where
  "demo_codec = \<lparr>marshal_id = (\<lambda>i. replicate (length (Private i)) 1 @ [0] @ Private i @ Public i),
     unmarshal_id = (\<lambda>b. let n = length (takeWhile (\<lambda>x. x = 1) b)
       in Inr \<lparr>Private = take n (drop (n + 1) b), Public = drop (n + 1 + n) b\<rparr>),
     marshal_peer = (\<lambda>p. case pp_Public p of None \<Rightarrow> [] | Some b \<Rightarrow> 1 # b),
     unmarshal_peer = (\<lambda>b. Inr \<lparr>pp_Public = (if b = [] then None else Some (tl b))\<rparr>),
     path_join = (\<lambda>d n. d @ ''/'' @ n)\<rparr>"

lemma takeWhile_unary: "takeWhile (\<lambda>x. x = 1) (replicate n (1 :: byte) @ 0 # xs) = replicate n 1"
  by (induction n) auto

lemma demo_codec_ok: "codec_ok demo_codec"
  by (auto simp: codec_ok_def demo_codec_def takeWhile_unary Let_def split: option.split)

definition demo_disk :: disk where
  "demo_disk = \<lparr>files = Map.empty, read_fault = (\<lambda>p. None), write_fault = (\<lambda>p. None),
     mkdir_fault = (\<lambda>p. None)\<rparr>"

lemma demo_disk_ok: "no_faults demo_disk"
  by (simp add: no_faults_def demo_disk_def)

lemma identity_stable_example:
  "\<exists>i k1. load_identity demo_codec ''d'' (Inr (replicate 32 7)) demo_disk = (Inr i, k1)
    \<and> Private i = replicate 32 7
    \<and> fst (load_identity demo_codec ''d'' (Inl ''no entropy'')
        (snd (PinPeer demo_codec ''d'' ''default'' (replicate 32 9) k1))) = Inr i"
proof -
  obtain k1 where load: "load_identity demo_codec ''d'' (Inr (replicate 32 7)) demo_disk
      = (Inr \<lparr>Private = replicate 32 7, Public = x25519 (replicate 32 7) basepoint\<rparr>, k1)"
    using demo_disk_ok
    by (simp add: load_identity_def generate_def SaveIdentity_def writeJSON_ok Let_def demo_disk_def)
  obtain e k2 where pin: "PinPeer demo_codec ''d'' ''default'' (replicate 32 9) k1 = (e, k2)" by force
  have "length (replicate 32 (7 :: byte)) = 32" by simp
  moreover have "plain ''default''" by (simp add: plain_def)
  ultimately show ?thesis using identity_stable [OF demo_codec_ok _ load _ pin] load pin by auto
qed

text \<open>Pins are kept apart and read back. A key of 32 bytes pinned under a name is what is read for
  that name, the pins of other names and the identity are untouched (for names without a path
  separator), and a key of another length is
  refused without a write.\<close>

lemma pin_roundtrip:
  assumes "codec_ok cd" and "no_faults k" and "plain name"
  shows "if length pub = 32
    then (\<exists>k'. PinPeer cd dir name pub k = (None, k') \<and> PinnedPeerOf cd dir name k' = Inr (Some pub, True)
      \<and> (\<forall>other. plain other \<and> other \<noteq> name \<longrightarrow> PinnedPeerOf cd dir other k' = PinnedPeerOf cd dir other k)
      \<and> fst (load_identity cd dir rnd k') = fst (load_identity cd dir rnd k))
    else PinPeer cd dir name pub k = (Some (BadPeerKey (length pub)), k)"
proof (cases "length pub = 32")
  case True
  define k' where "k' = k\<lparr>files := (files k)(path_join cd dir (peer_file name)
      \<mapsto> marshal_peer cd \<lparr>pp_Public = Some pub\<rparr>)\<rparr>"
  have pin: "PinPeer cd dir name pub k = (None, k')"
    using True assms(2) by (simp add: PinPeer_def writeJSON_ok k'_def)
  have read: "PinnedPeerOf cd dir name k' = Inr (Some pub, True)"
    using assms by (simp add: PinnedPeerOf_def Let_def k'_def codec_ok_def no_faults_def)
  have others: "PinnedPeerOf cd dir other k' = PinnedPeerOf cd dir other k" 
    if "plain other" "other \<noteq> name" for other
    unfolding k'_def using peer_paths [OF assms(1) that(1) assms(3) that(2), of dir]
    by (intro PinnedPeerOf_other_file) simp
  have ident: "fst (load_identity cd dir rnd k') = fst (load_identity cd dir rnd k)"
    using assms(2) peer_path_identity [OF assms(1,3), of dir, symmetric]
    by (simp add: load_identity_def SaveIdentity_def writeJSON_def no_faults_def Let_def k'_def
        split: option.split sum.split)
  from pin read others ident True show ?thesis by auto
next
  case False
  then show ?thesis by (simp add: PinPeer_def)
qed

lemma pin_roundtrip_example:
  "\<exists>k'. PinPeer demo_codec ''d'' ''default'' (replicate 32 9) demo_disk = (None, k')
    \<and> PinnedPeerOf demo_codec ''d'' ''default'' k' = Inr (Some (replicate 32 9), True)"
  using pin_roundtrip [OF demo_codec_ok demo_disk_ok, of "''default''" "replicate 32 9" "''d''"]
  by (auto simp: plain_def)

text \<open>C33: Trust on first use at the serving side. The pin is read once when serving starts. When one
  exists, the handshake of every connection is given the key that was read, and is all that decides
  whether it is served, and the store is never written; without one, no connection of that run is
  checked against any pin, and each peer that completes the handshake overwrites the pin, so that
  the last one stays. So with a key in the pin's file a handshake that keeps to its pin serves that
  key only, while a file without a key counts as a pin and leaves every connection unchecked.\<close>

theorem serve_pinning:
  assumes "codec_ok cd" and "no_faults k"
    and "\<forall>hs\<in>set hss. \<forall>peer. hs None = Some peer \<longrightarrow> length peer = 32"
  shows "fst (serve_loop cd dir has pinned hss k)
      = map (\<lambda>hs. hs (if has then pinned else None) \<noteq> None) hss
    \<and> (if has then snd (serve_loop cd dir has pinned hss k) = k
       else PinnedPeerOf cd dir ''default'' (snd (serve_loop cd dir has pinned hss k))
         = (case List.map_filter (\<lambda>hs. hs None) hss of
              [] \<Rightarrow> PinnedPeerOf cd dir ''default'' k
            | p # ps \<Rightarrow> Inr (Some (last (p # ps)), True)))"
  using assms(2,3)
proof (induction hss arbitrary: k)
  case Nil
  then show ?case by (simp add: List.map_filter_simps)
next
  case (Cons hs hss)
  show ?case
  proof (cases "has \<or> hs None = None")
    case True
    then have "serve_conn cd dir has pinned hs k = (hs (if has then pinned else None) \<noteq> None, k)"
      by (auto simp: serve_conn_def pinnedIf_def split: option.split)
    with Cons True show ?thesis by (auto simp: case_prod_beta List.map_filter_simps)
  next
    case False
    then obtain peer where peer: "hs None = Some peer" "\<not> has" by auto
    then have len: "length peer = 32" using Cons.prems(2) by simp
    define k1 where "k1 = k\<lparr>files := (files k)(path_join cd dir (peer_file ''default'')
        \<mapsto> marshal_peer cd \<lparr>pp_Public = Some peer\<rparr>)\<rparr>"
    have pin: "PinPeer cd dir ''default'' peer k = (None, k1)"
      using len Cons.prems(1) by (simp add: PinPeer_def writeJSON_ok k1_def)
    have conn: "serve_conn cd dir has pinned hs k = (True, k1)"
      using peer pin by (simp add: serve_conn_def pinnedIf_def)
    have read: "PinnedPeerOf cd dir ''default'' k1 = Inr (Some peer, True)"
      using assms(1) Cons.prems(1) by (simp add: PinnedPeerOf_def Let_def k1_def codec_ok_def no_faults_def)
    have "no_faults k1" using Cons.prems(1) by (simp add: no_faults_def k1_def)
    from Cons.IH [OF this] Cons.prems(2) conn peer read show ?thesis
      by (auto simp: case_prod_beta List.map_filter_simps pinnedIf_def split: list.split)
  qed
qed

theorem serve_pinning_witness:
  "PinnedPeerOf demo_codec ''d'' ''default''
     (snd (serve_loop demo_codec ''d'' False None [\<lambda>p. Some (replicate 32 1), \<lambda>p. None, \<lambda>p. Some (replicate 32 2)]
       demo_disk)) = Inr (Some (replicate 32 2), True)
   \<and> fst (serve_loop demo_codec ''d'' True (Some (replicate 32 1))
       [\<lambda>p. if p = Some (replicate 32 2) then p else None, \<lambda>p. if p = Some (replicate 32 1) then p else None]
       demo_disk) = [False, True]"
proof
  show "PinnedPeerOf demo_codec ''d'' ''default''
     (snd (serve_loop demo_codec ''d'' False None [\<lambda>p. Some (replicate 32 1), \<lambda>p. None, \<lambda>p. Some (replicate 32 2)]
       demo_disk)) = Inr (Some (replicate 32 2), True)"
    using serve_pinning [OF demo_codec_ok demo_disk_ok,
        of "[\<lambda>p. Some (replicate 32 1), \<lambda>p. None, \<lambda>p. Some (replicate 32 2)]" "''d''" False None]
    by (simp add: List.map_filter_simps)
  have "(1 :: byte) \<noteq> 2" by simp
  then have "replicate 32 (1 :: byte) \<noteq> replicate 32 2" by (simp add: replicate_eq_replicate)
  then show "fst (serve_loop demo_codec ''d'' True (Some (replicate 32 1))
       [\<lambda>p. if p = Some (replicate 32 2) then p else None, \<lambda>p. if p = Some (replicate 32 1) then p else None]
       demo_disk) = [False, True]"
    using serve_pinning [OF demo_codec_ok demo_disk_ok,
        of "[\<lambda>p. if p = Some (replicate 32 2) then p else None, \<lambda>p. if p = Some (replicate 32 1) then p else None]"
          "''d''" True "Some (replicate 32 1)"]
    by (simp add: replicate_eq_replicate)
qed

text \<open>A peer's file without a key, as read.\<close>

lemma nil_pin_unchecked:
  assumes "read_fault k (path_join cd dir (peer_file ''default'')) = None"
    and "files k (path_join cd dir (peer_file ''default'')) = Some raw"
    and "unmarshal_peer cd raw = Inr \<lparr>pp_Public = None\<rparr>"
  shows "PinnedPeerOf cd dir ''default'' k = Inr (None, True)"
    and "serve_conn cd dir True None hs k = (hs None \<noteq> None, k)"
  using assms by (auto simp: PinnedPeerOf_def Let_def serve_conn_def pinnedIf_def split: option.split)

text \<open>C34: Trust on first use at the pinging side. Once a ping without a pin has authenticated a peer, the
  peer's key is pinned and every later ping demands it of the handshake and writes nothing: if the
  handshake keeps to the pin it is given, no other peer is ever accepted.\<close>

theorem tofu_enforced:
  assumes "codec_ok cd" and "no_faults k" and "length priv = 32"
    and "PinnedPeerOf cd dir ''default'' k = Inr (x, False)"
    and "ping_conn cd dir (Inr priv) hs k = (Inr peer, k1)" and "length peer = 32"
    and "ping_conn cd dir rnd hs' k1 = (r, k2)"
    and "\<forall>p q. hs' (Some p) = Some q \<longrightarrow> q = p"
  shows "hs None = Some peer \<and> k2 = k1 \<and> (r = Inr peer \<or> r = Inl PingHandshake)"
proof -
  have plain: "plain ''default''" by (simp add: plain_def)
  have mk: "NewStore dir k = Inr dir" using assms(2) by (simp add: NewStore_def no_faults_def)
  obtain res k0 where load: "load_identity cd dir (Inr priv) k = (res, k0)" by force
  from assms(5) mk load obtain i where i: "res = Inr i" by (auto simp: ping_conn_def open_store_def split: sum.splits)
  note saved = load_identity_saved [OF assms(1,3) load [unfolded i]]
  have k0: "k0 = k \<or> (\<exists>raw. k0 = k\<lparr>files := (files k)(path_join cd dir ''identity.json'' \<mapsto> raw)\<rparr>)"
    using load i by (auto simp: load_identity_def Let_def SaveIdentity_def writeJSON_ok [OF assms(2)]
        split: option.splits sum.splits if_splits)
  have nf0: "no_faults k0" using k0 assms(2) by (auto simp: no_faults_def)
  have nopin: "PinnedPeerOf cd dir ''default'' k0 = Inr (x, False)"
    using k0 assms(4) PinnedPeerOf_other_file [OF peer_path_identity [OF assms(1) plain, symmetric], of dir]
    by auto
  from assms(5) mk load i nopin have hs: "hs None = Some peer"
    and k1: "k1 = snd (PinPeer cd dir ''default'' peer k0)"
    by (auto simp: ping_conn_def open_store_def pinnedIf_def split: option.splits)
  have pinned: "k1 = k0\<lparr>files := (files k0)(path_join cd dir (peer_file ''default'')
      \<mapsto> marshal_peer cd \<lparr>pp_Public = Some peer\<rparr>)\<rparr>"
    using k1 assms(6) nf0 by (simp add: PinPeer_def writeJSON_ok)
  have load2: "load_identity cd dir rnd k1 = (Inr i, k1)"
    using saved peer_path_identity [OF assms(1) plain, of dir]
    by (auto simp: pinned load_identity_def Let_def)
  have "PinnedPeerOf cd dir ''default'' k1 = Inr (Some peer, True)"
    using assms(1) nf0 by (simp add: PinnedPeerOf_def Let_def pinned codec_ok_def no_faults_def)
  moreover have "NewStore dir k1 = Inr dir" using nf0 by (simp add: NewStore_def no_faults_def pinned)
  ultimately show ?thesis using assms(7,8) load2 hs
    by (auto simp: ping_conn_def open_store_def pinnedIf_def split: option.splits)
qed

theorem tofu_enforced_witness:
  "\<exists>k1. ping_conn demo_codec ''d'' (Inr (replicate 32 7)) (\<lambda>p. Some (replicate 32 1)) demo_disk
      = (Inr (replicate 32 1), k1)
    \<and> fst (ping_conn demo_codec ''d'' (Inl ''no entropy'')
        (\<lambda>p. if p = Some (replicate 32 2) then p else None) k1) = Inl PingHandshake"
proof -
  let ?hs = "\<lambda>p. Some (replicate 32 (1 :: byte))"
  let ?hs' = "\<lambda>p. if p = Some (replicate 32 (2 :: byte)) then p else None"
  have read: "PinnedPeerOf demo_codec ''d'' ''default'' demo_disk = Inr (None, False)"
    by (simp add: PinnedPeerOf_def demo_disk_def Let_def)
  obtain k1 where first: "ping_conn demo_codec ''d'' (Inr (replicate 32 7)) ?hs demo_disk
      = (Inr (replicate 32 1), k1)"
    using demo_disk_ok
    by (simp add: ping_conn_def open_store_def NewStore_def load_identity_def generate_def SaveIdentity_def writeJSON_ok
        Let_def PinnedPeerOf_def pinnedIf_def demo_disk_def demo_codec_def peer_file_def)
  obtain r k2 where second: "ping_conn demo_codec ''d'' (Inl ''no entropy'') ?hs' k1 = (r, k2)" by force
  have lens: "length (replicate 32 (7 :: byte)) = 32" "length (replicate 32 (1 :: byte)) = 32"
    by simp_all
  have "r = Inr (replicate 32 1) \<or> r = Inl PingHandshake"
    using tofu_enforced [OF demo_codec_ok demo_disk_ok lens(1) read first lens(2) second] by simp
  moreover have "r \<noteq> Inr (replicate 32 1)"
  proof -
    have "(1 :: byte) \<noteq> 2" by simp
    then have "replicate 32 (2 :: byte) \<noteq> replicate 32 1" by (simp add: replicate_eq_replicate)
    with second show ?thesis by (auto simp: ping_conn_def open_store_def split: sum.splits option.splits prod.splits if_splits)
  qed
  ultimately show ?thesis using first second by auto
qed

end
