(* ===== verification/Ping.thy ===== *)
theory Ping
  imports Flow Keys
begin

unbundle bit_operations_syntax

text \<open>
  The control tool's ping against its own serving side, desktop/cmd/toppactl/main.go: the rounds of
  \<open>runPing\<close>, each a \<open>Write\<close> of the payload and then a full read of its echo, and \<open>handleServeConn\<close>'s
  \<open>io.Copy(st, st)\<close>, which reads up to 32 KiB and writes them back. The two directions of the stream
  are two links of theory Flow; the two programs and the transport run concurrently, and a step is
  one critical section of a stream or one event of the transport.
\<close>

section \<open>The calls at the ends of a link\<close>

text \<open>
  A round of a \<open>Write\<close> whose previous chunk has been written, and a \<open>Read\<close>; \<open>None\<close> while the call
  waits.
\<close>

definition link_write :: "bytes \<Rightarrow> link \<Rightarrow> (nat \<times> link) option" where
  "link_write p l =
     (if hold l \<noteq> [] then None
      else (case Write_locked (frameMax l) (length p) (tx l) of
              (WriteChunk n, st) \<Rightarrow>
                Some (n, l\<lparr>tx := st, hold := take n p, wrote := wrote l @ take n p\<rparr>)
            | _ \<Rightarrow> None))"

definition link_read :: "nat \<Rightarrow> link \<Rightarrow> (bytes \<times> link) option" where
  "link_read n l =
     (case Read_locked n (rx l) of
        (ReadData xs u, st) \<Rightarrow> Some (xs, l\<lparr>rx := st, owed := owed l @ [u], got := got l @ xs\<rparr>)
      | _ \<Rightarrow> None)"

text \<open>A step of the transport: chunks and credits move, nobody calls \<open>Read\<close> or \<open>Write\<close>.\<close>

definition link_moves :: "link \<Rightarrow> link \<Rightarrow> bool" where
  "link_moves l l' \<longleftrightarrow> flow_step l l' \<and> wrote l' = wrote l \<and> got l' = got l"

section \<open>The two programs\<close>

datatype ping_phase = Writing bytes | Reading bytes | Finished | Mismatch

record ping =
  pg_up :: link
  pg_down :: link
  pg_phase :: ping_phase
  pg_left :: nat
  pg_copy :: bytes

definition copyBufferSize :: nat where "copyBufferSize = 32 * 1024"

definition ping_payload :: "nat \<Rightarrow> bytes" where
  "ping_payload sz = map (\<lambda>i. of_nat (i * 31)) [0..<sz]"

text \<open>\<open>None\<close>: the flags are refused.\<close>

definition new_ping :: "int \<Rightarrow> int \<Rightarrow> link \<Rightarrow> link \<Rightarrow> (bytes \<times> ping) option" where
  "new_ping count sz up down =
     (if count < 1 \<or> sz < 1 then None
      else (let payload = ping_payload (nat sz)
            in Some (payload, \<lparr>pg_up = up, pg_down = down, pg_phase = Writing payload,
                 pg_left = nat count - 1, pg_copy = []\<rparr>)))"

inductive ping_step :: "bytes \<Rightarrow> ping \<Rightarrow> ping \<Rightarrow> bool" for payload where
  up_moves: "link_moves (pg_up p) l \<Longrightarrow> ping_step payload p (p\<lparr>pg_up := l\<rparr>)"
| down_moves: "link_moves (pg_down p) l \<Longrightarrow> ping_step payload p (p\<lparr>pg_down := l\<rparr>)"
| ping_write: "pg_phase p = Writing rest \<Longrightarrow> rest \<noteq> [] \<Longrightarrow> link_write rest (pg_up p) = Some (n, l) \<Longrightarrow>
    ping_step payload p (p\<lparr>pg_up := l, pg_phase := Writing (drop n rest)\<rparr>)"
| ping_written: "pg_phase p = Writing [] \<Longrightarrow> hold (pg_up p) = [] \<Longrightarrow>
    ping_step payload p (p\<lparr>pg_phase := Reading []\<rparr>)"
| ping_read: "pg_phase p = Reading echo \<Longrightarrow> length echo < length payload \<Longrightarrow>
    link_read (length payload - length echo) (pg_down p) = Some (xs, l) \<Longrightarrow>
    ping_step payload p (p\<lparr>pg_down := l, pg_phase := Reading (echo @ xs)\<rparr>)"
| ping_round: "pg_phase p = Reading echo \<Longrightarrow> length echo = length payload \<Longrightarrow>
    ping_step payload p
      (if \<not> bytesEqual payload echo then p\<lparr>pg_phase := Mismatch\<rparr>
       else if pg_left p = 0 then p\<lparr>pg_phase := Finished\<rparr>
       else p\<lparr>pg_phase := Writing payload, pg_left := pg_left p - 1\<rparr>)"
| serve_read: "pg_copy p = [] \<Longrightarrow> link_read copyBufferSize (pg_up p) = Some (xs, l) \<Longrightarrow>
    ping_step payload p (p\<lparr>pg_up := l, pg_copy := xs\<rparr>)"
| serve_write: "pg_copy p \<noteq> [] \<Longrightarrow> link_write (pg_copy p) (pg_down p) = Some (n, l) \<Longrightarrow>
    ping_step payload p (p\<lparr>pg_down := l, pg_copy := drop n (pg_copy p)\<rparr>)"

section \<open>Facts about the calls\<close>

lemma link_writeD:
  assumes "link_write p l = Some (n, l')" and "p \<noteq> []"
  shows "flow_step l l' \<and> wrote l' = wrote l @ take n p \<and> got l' = got l \<and> hold l = []
    \<and> hold l' = take n p \<and> dataQ l' = dataQ l \<and> rx l' = rx l \<and> owed l' = owed l \<and> winQ l' = winQ l"
  using assms flow_step.reserve [of l p n]
  by (auto simp: link_write_def split: if_splits prod.splits write_out.splits)

lemma link_readD:
  assumes "link_read n l = Some (xs, l')" and "0 < n" and "recvUnacked (rx l) = 0"
    and "length (buf (rx l)) < 2 ^ 32"
  shows "flow_step l l' \<and> wrote l' = wrote l \<and> got l' = got l @ xs \<and> length xs \<le> n \<and> xs \<noteq> []
    \<and> buf (rx l) = xs @ buf (rx l') \<and> (\<exists>u. owed l' = owed l @ [u])
    \<and> hold l' = hold l \<and> dataQ l' = dataQ l \<and> winQ l' = winQ l"
proof -
  from assms(1) obtain u st where rd: "Read_locked n (rx l) = (ReadData xs u, st)"
    and l': "l' = l\<lparr>rx := st, owed := owed l @ [u], got := got l @ xs\<rparr>"
    by (auto simp: link_read_def split: prod.splits read_out.splits)
  from flow_step.read_data [OF assms(2) rd] have "flow_step l l'" by (simp add: l')
  moreover have "xs \<noteq> []" using rd assms(2) by (auto simp: Read_locked_def Let_def min_def split: if_splits)
  ultimately show ?thesis using Read_locked_data [OF rd assms(3,4)] by (simp add: l')
qed

lemma flow_step_const: "flow_step l l' \<Longrightarrow> frameMax l' = frameMax l \<and> txWindow l' = txWindow l"
  by (induction rule: flow_step.induct) auto

lemma flow_inv_lengths:
  assumes "flow_inv l"
  shows "length (wrote l) = length (got l) + length (buf (rx l)) + length (concat (dataQ l)) + length (hold l)"
    "length (wrote l) \<le> length (got l) + unat (txWindow l)" "length (buf (rx l)) < 2 ^ 32"
    "recvUnacked (rx l) = 0"
proof -
  note inv = flow_invD [OF assms]
  show len: "length (wrote l) = length (got l) + length (buf (rx l)) + length (concat (dataQ l)) + length (hold l)"
    using inv(7) by simp
  have "in_flight l \<le> unat (txWindow l)" using assms by (simp add: flow_inv_def del: of_nat_unat)
  with len show "length (wrote l) \<le> length (got l) + unat (txWindow l)" by (simp add: in_flight_def)
  show "length (buf (rx l)) < 2 ^ 32" "recvUnacked (rx l) = 0"
    using inv(1,3,4) by (simp_all add: in_flight_def)
qed

section \<open>The invariant\<close>

text \<open>The bytes of the first \<open>r\<close> rounds.\<close>

definition rounds :: "nat \<Rightarrow> bytes \<Rightarrow> bytes" where
  "rounds r payload = concat (replicate r payload)"

lemma rounds_simps [simp]: "rounds 0 p = []" "rounds (Suc r) p = p @ rounds r p"
  by (simp_all add: rounds_def)

lemma rounds_Suc: "rounds (Suc r) p = rounds r p @ p"
  by (induction r) simp_all

lemma length_rounds [simp]: "length (rounds r p) = r * length p"
  by (induction r) simp_all

text \<open>
  With \<open>r\<close> rounds complete: what the ping has written and read in each phase. \<open>windows\<close> are the
  initial windows of the two directions.
\<close>

definition phase_ok :: "bytes \<Rightarrow> nat \<Rightarrow> ping \<Rightarrow> bool" where
  "phase_ok payload r p =
     (case pg_phase p of
        Writing rest \<Rightarrow> (\<exists>w. payload = w @ rest \<and> wrote (pg_up p) = rounds r payload @ w)
          \<and> got (pg_down p) = rounds r payload
      | Reading echo \<Rightarrow> wrote (pg_up p) = rounds (Suc r) payload
          \<and> got (pg_down p) = rounds r payload @ echo \<and> length echo \<le> length payload
      | Finished \<Rightarrow> True
      | Mismatch \<Rightarrow> False)"

definition ping_inv :: "nat \<Rightarrow> u32 \<Rightarrow> u32 \<Rightarrow> bytes \<Rightarrow> ping \<Rightarrow> bool" where
  "ping_inv count wu wd payload p \<longleftrightarrow>
     flow_inv (pg_up p) \<and> flow_inv (pg_down p) \<and> 0 < frameMax (pg_up p) \<and> 0 < frameMax (pg_down p)
     \<and> txWindow (pg_up p) = wu \<and> txWindow (pg_down p) = wd
     \<and> got (pg_up p) = wrote (pg_down p) @ pg_copy p \<and> length (pg_copy p) \<le> copyBufferSize
     \<and> pg_left p < count \<and> phase_ok payload (count - 1 - pg_left p) p"

lemma ping_inv_links:
  assumes "ping_inv count wu wd payload p"
  shows "\<exists>xs. wrote (pg_up p) = got (pg_down p) @ xs"
proof -
  from assms have "flow_inv (pg_up p)" "flow_inv (pg_down p)"
    "got (pg_up p) = wrote (pg_down p) @ pg_copy p"
    by (simp_all add: ping_inv_def)
  with flow_invD(7) [of "pg_up p"] flow_invD(7) [of "pg_down p"] show ?thesis by auto
qed

text \<open>What is echoed is the payload.\<close>

lemma echo_is_payload:
  assumes "ping_inv count wu wd payload p" and "pg_phase p = Reading echo"
    and "length echo = length payload"
  shows "echo = payload"
proof -
  obtain xs where "wrote (pg_up p) = got (pg_down p) @ xs" using ping_inv_links [OF assms(1)] by blast
  with assms show ?thesis
    by (auto simp: ping_inv_def phase_ok_def rounds_Suc simp del: rounds_simps)
qed

lemma ping_step_inv:
  assumes "ping_inv count wu wd payload p" and "payload \<noteq> []" and "ping_step payload p p'"
  shows "ping_inv count wu wd payload p'"
proof -
  note inv = assms(1) [unfolded ping_inv_def]
  have up: "flow_inv (pg_up p)" and down: "flow_inv (pg_down p)" using inv by simp_all
  from assms(3) show ?thesis
  proof cases
    case (up_moves l)
    then have "flow_inv l" "frameMax l = frameMax (pg_up p)" "txWindow l = txWindow (pg_up p)"
      using flow_step_inv [OF _ up] flow_step_const by (auto simp: link_moves_def)
    with inv up_moves show ?thesis
      by (auto simp: ping_inv_def phase_ok_def link_moves_def split: ping_phase.splits)
  next
    case (down_moves l)
    then have "flow_inv l" "frameMax l = frameMax (pg_down p)" "txWindow l = txWindow (pg_down p)"
      using flow_step_inv [OF _ down] flow_step_const by (auto simp: link_moves_def)
    with inv down_moves show ?thesis
      by (auto simp: ping_inv_def phase_ok_def link_moves_def split: ping_phase.splits)
  next
    case (ping_write rest n l)
    note w = link_writeD [OF ping_write(4,3)]
    have "flow_inv l" "frameMax l = frameMax (pg_up p)" "txWindow l = txWindow (pg_up p)"
      using w flow_step_inv [OF _ up] flow_step_const by auto
    moreover have "\<exists>v. payload = v @ drop n rest \<and> wrote (pg_up p) @ take n rest = rounds (count - 1 - pg_left p) payload @ v"
      using inv ping_write(2) by (auto simp: phase_ok_def)
    ultimately show ?thesis using inv ping_write w by (auto simp: ping_inv_def phase_ok_def)
  next
    case ping_written
    with inv show ?thesis by (auto simp: ping_inv_def phase_ok_def rounds_Suc simp del: rounds_simps)
  next
    case (ping_read echo xs l)
    note r = link_readD [OF ping_read(4) _ flow_inv_lengths(4,3) [OF down]]
    then have "flow_inv l" "frameMax l = frameMax (pg_down p)" "txWindow l = txWindow (pg_down p)"
      using ping_read(3) flow_step_inv [OF _ down] flow_step_const by auto
    with inv ping_read r show ?thesis by (auto simp: ping_inv_def phase_ok_def)
  next
    case (ping_round echo)
    then have "echo = payload" using echo_is_payload [OF assms(1)] by blast
    moreover have "rounds (Suc (count - 1 - pg_left p)) payload = rounds (count - 1 - (pg_left p - 1)) payload"
      if "0 < pg_left p"
      using inv that by (simp add: Suc_diff_Suc del: rounds_simps)
    ultimately show ?thesis using inv ping_round
      by (auto simp: ping_inv_def phase_ok_def bytesEqual_iff rounds_Suc simp del: rounds_simps)
  next
    case (serve_read xs l)
    note r = link_readD [OF serve_read(3) _ flow_inv_lengths(4,3) [OF up]]
    have pos: "0 < copyBufferSize" by (simp add: copyBufferSize_def)
    with r have "flow_inv l" "frameMax l = frameMax (pg_up p)" "txWindow l = txWindow (pg_up p)"
      using flow_step_inv [OF _ up] flow_step_const by auto
    with inv serve_read r [OF pos] show ?thesis
      by (auto simp: ping_inv_def phase_ok_def split: ping_phase.splits)
  next
    case (serve_write n l)
    note w = link_writeD [OF serve_write(3,2)]
    have "flow_inv l" "frameMax l = frameMax (pg_down p)" "txWindow l = txWindow (pg_down p)"
      using w flow_step_inv [OF _ down] flow_step_const by auto
    with inv serve_write w show ?thesis
      by (auto simp: ping_inv_def phase_ok_def split: ping_phase.splits)
  qed
qed

end
