(* ===== verification/Ping_Properties.thy ===== *)
theory Ping_Properties
  imports Ping
begin

unbundle bit_operations_syntax

text \<open>
  Which pings finish: the progress of a ping whose payload fits the two windows, as a draining
  machine whose rank weighs every byte by the places it has still to pass, and the bound that a
  larger payload runs into.
\<close>

section \<open>Every ping that fits can finish\<close>

definition link_idle :: "link \<Rightarrow> bool" where
  "link_idle l \<longleftrightarrow> hold l = [] \<and> dataQ l = [] \<and> owed l = [] \<and> winQ l = []"

lemma link_moves_progress:
  assumes "\<not> link_idle l"
  shows "\<exists>l'. link_moves l l' \<and> flow_rank l' < flow_rank l"
proof -
  consider "hold l \<noteq> []" | d q where "dataQ l = d # q"
    | us u vs where "owed l = us @ u # vs" | c q where "winQ l = c # q"
    using assms unfolding link_idle_def by (metis append_Nil list.exhaust)
  then show ?thesis
  proof cases
    case 1
    with flow_step.emit [OF 1] show ?thesis
      by (intro exI) (auto simp: flow_rank_def link_moves_def neq_Nil_conv)
  next
    case 2
    obtain e st where st: "pushData (window l) d (rx l) = (e, st)" by fastforce
    then have "length (buf st) \<le> length (buf (rx l)) + length d"
      by (auto simp: pushData_def split: if_splits)
    with flow_step.deliver [OF 2 st] 2 show ?thesis
      by (intro exI) (auto simp: flow_rank_def link_moves_def)
  next
    case 3
    with flow_step.credit [OF 3] show ?thesis
      by (intro exI) (auto simp: flow_rank_def link_moves_def)
  next
    case 4
    with flow_step.grant [OF 4] show ?thesis
      by (intro exI) (auto simp: flow_rank_def link_moves_def addSendWindow_def)
  qed
qed

lemma link_idle_facts:
  assumes "flow_inv l" and "link_idle l"
  shows "wrote l = got l @ buf (rx l)"
    "sendWin (tx l) = int (unat (txWindow l)) - int (length (buf (rx l)))"
  using assms flow_invD(7) [OF assms(1)]
  by (auto simp: link_idle_def flow_inv_def in_flight_def)

lemma link_write_ready:
  assumes "flow_inv l" and "hold l = []" and "0 < sendWin (tx l)" and "0 < frameMax l" and "p \<noteq> []"
  shows "\<exists>n l'. link_write p l = Some (n, l') \<and> 0 < n \<and> n \<le> length p"
proof -
  have "\<not> reset (tx l)" "0 < unat (frameMax l)"
    using flow_invD(6) [OF assms(1)] assms(4) by (simp_all add: unat_gt_0 word_gt_0)
  then obtain n st where w: "Write_locked (frameMax l) (length p) (tx l) = (WriteChunk n, st)" "0 < n"
    using Write_locked_positive [of "tx l" "length p" "frameMax l"] assms(3,5) by auto
  then show ?thesis using Write_locked_chunk [OF w(1)] assms(2) by (simp add: link_write_def)
qed

lemma link_read_ready: "buf (rx l) \<noteq> [] \<Longrightarrow> \<exists>xs l'. link_read n l = Some (xs, l')"
  by (simp add: link_read_def Read_locked_def Let_def)

text \<open>What is left to do: a byte counts less at every place it passes.\<close>

definition unwritten :: "bytes \<Rightarrow> ping \<Rightarrow> nat" where
  "unwritten payload p = (case pg_phase p of Writing rest \<Rightarrow> length rest | _ \<Rightarrow> 0) + pg_left p * length payload"

definition ping_rank :: "bytes \<Rightarrow> ping \<Rightarrow> nat" where
  "ping_rank payload p = 40 * unwritten payload p
     + 20 * (length (wrote (pg_up p)) - length (got (pg_up p))) + flow_rank (pg_up p)
     + 12 * length (pg_copy p) + flow_rank (pg_down p)
     + (3 * pg_left p + (case pg_phase p of Writing _ \<Rightarrow> 2 | Reading _ \<Rightarrow> 1 | _ \<Rightarrow> 0))"

lemma flow_rank_write:
  "link_write q l = Some (n, l') \<Longrightarrow> q \<noteq> [] \<Longrightarrow> n \<le> length q \<Longrightarrow> flow_rank l' = flow_rank l + 6 * n"
  using link_writeD [of q l n l'] by (simp add: flow_rank_def min_absorb2)

lemma flow_rank_read:
  "link_read n l = Some (xs, l') \<Longrightarrow> 0 < n \<Longrightarrow> recvUnacked (rx l) = 0 \<Longrightarrow> length (buf (rx l)) < 2 ^ 32 \<Longrightarrow>
    flow_rank l' + 3 * length xs = flow_rank l + 2"
  using link_readD [of n l xs l'] by (auto simp: flow_rank_def)

lemma ping_write_rank:
  assumes "flow_inv (pg_up p)" and "pg_phase p = Writing rest" and "rest \<noteq> []"
    and "link_write rest (pg_up p) = Some (n, l)" and "0 < n" "n \<le> length rest"
  shows "ping_rank payload (p\<lparr>pg_up := l, pg_phase := Writing (drop n rest)\<rparr>) < ping_rank payload p"
proof -
  have "length (wrote l) - length (got l) = length (wrote (pg_up p)) - length (got (pg_up p)) + n"
    using link_writeD [OF assms(4,3)] assms(6) flow_inv_lengths(1) [OF assms(1)] by (simp add: min_absorb2)
  with flow_rank_write [OF assms(4,3,6)] assms(2,5,6) show ?thesis
    by (simp add: ping_rank_def unwritten_def diff_mult_distrib2)
qed

lemma serve_read_rank:
  assumes "flow_inv (pg_up p)" and "pg_copy p = []" and "link_read copyBufferSize (pg_up p) = Some (xs, l)"
  shows "ping_rank payload (p\<lparr>pg_up := l, pg_copy := xs\<rparr>) < ping_rank payload p"
proof -
  note len = flow_inv_lengths [OF assms(1)]
  have pos: "0 < copyBufferSize" by (simp add: copyBufferSize_def)
  note r = link_readD [OF assms(3) pos len(4,3)]
  from r have xs: "1 \<le> length xs" "length xs \<le> length (buf (rx (pg_up p)))"
    by (auto simp: neq_Nil_conv)
  from flow_rank_read [OF assms(3) pos len(4,3)] r xs len(1) assms(2) show ?thesis
    by (auto simp: ping_rank_def unwritten_def split: ping_phase.split)
qed

lemma serve_write_rank:
  assumes "pg_copy p \<noteq> []" and "link_write (pg_copy p) (pg_down p) = Some (n, l)" and "0 < n"
    "n \<le> length (pg_copy p)"
  shows "ping_rank payload (p\<lparr>pg_down := l, pg_copy := drop n (pg_copy p)\<rparr>) < ping_rank payload p"
  using flow_rank_write [OF assms(2,1,4)] assms(3,4)
  by (auto simp: ping_rank_def unwritten_def diff_mult_distrib2 split: ping_phase.split)

lemma ping_read_rank:
  assumes "flow_inv (pg_down p)" and "pg_phase p = Reading echo" and "0 < n"
    and "link_read n (pg_down p) = Some (xs, l)"
  shows "ping_rank payload (p\<lparr>pg_down := l, pg_phase := Reading (echo @ xs)\<rparr>) < ping_rank payload p"
proof -
  note len = flow_inv_lengths [OF assms(1)]
  have "1 \<le> length xs" using link_readD [OF assms(4,3) len(4,3)] by (cases xs) auto
  with flow_rank_read [OF assms(4,3) len(4,3)] assms(2) show ?thesis
    by (auto simp: ping_rank_def unwritten_def)
qed

lemma moves_rank:
  "link_moves (pg_up p) l \<Longrightarrow> flow_rank l < flow_rank (pg_up p) \<Longrightarrow>
    ping_rank payload (p\<lparr>pg_up := l\<rparr>) < ping_rank payload p"
  "link_moves (pg_down p) l \<Longrightarrow> flow_rank l < flow_rank (pg_down p) \<Longrightarrow>
    ping_rank payload (p\<lparr>pg_down := l\<rparr>) < ping_rank payload p"
  by (auto simp: ping_rank_def unwritten_def link_moves_def split: ping_phase.split)

lemma written_rank:
  "pg_phase p = Writing [] \<Longrightarrow> ping_rank payload (p\<lparr>pg_phase := Reading []\<rparr>) < ping_rank payload p"
  by (simp add: ping_rank_def unwritten_def)

lemma round_rank:
  "pg_phase p = Reading echo \<Longrightarrow>
    ping_rank payload (if \<not> bytesEqual payload echo then p\<lparr>pg_phase := Mismatch\<rparr>
       else if pg_left p = 0 then p\<lparr>pg_phase := Finished\<rparr>
       else p\<lparr>pg_phase := Writing payload, pg_left := pg_left p - 1\<rparr>) < ping_rank payload p"
  by (cases "pg_left p") (auto simp: ping_rank_def unwritten_def)

text \<open>
  The payload fits the two windows. A ping is then stuck only when it is finished: with the
  transport idle, either program blocked on a window means that a window's worth of bytes lies
  unread in front of the other, and both at once are more than the payload.
\<close>

definition fits :: "nat \<Rightarrow> u32 \<Rightarrow> u32 \<Rightarrow> bytes \<Rightarrow> ping \<Rightarrow> bool" where
  "fits count wu wd payload p \<longleftrightarrow> ping_inv count wu wd payload p \<and> payload \<noteq> [] \<and> 0 < wu \<and> 0 < wd
     \<and> length payload \<le> unat wu + unat wd"

lemma ping_progress:
  assumes "fits count wu wd payload p" and "pg_phase p \<noteq> Finished"
  shows "\<exists>p'. ping_step payload p p' \<and> ping_rank payload p' < ping_rank payload p"
proof (cases "link_idle (pg_up p) \<and> link_idle (pg_down p)")
  case False
  then obtain l where "link_moves (pg_up p) l \<and> flow_rank l < flow_rank (pg_up p)
      \<or> link_moves (pg_down p) l \<and> flow_rank l < flow_rank (pg_down p)"
    using link_moves_progress by meson
  then show ?thesis using ping_step.up_moves ping_step.down_moves moves_rank by meson
next
  case idle: True
  from assms(1) have inv: "ping_inv count wu wd payload p" and "payload \<noteq> []" "0 < unat wu" "0 < unat wd"
    and fit: "length payload \<le> unat wu + unat wd"
    by (auto simp: fits_def unat_gt_0 word_gt_0)
  note i = inv [unfolded ping_inv_def]
  have up: "flow_inv (pg_up p)" and down: "flow_inv (pg_down p)" using i by simp_all
  have hold: "hold (pg_up p) = []" "hold (pg_down p) = []" using idle by (simp_all add: link_idle_def)
  note U = link_idle_facts [OF up conjunct1 [OF idle]] and D = link_idle_facts [OF down conjunct2 [OF idle]]
  define bu bd where "bu = length (buf (rx (pg_up p)))" and "bd = length (buf (rx (pg_down p)))"
  have total: "length (wrote (pg_up p)) = length (got (pg_down p)) + bd + length (pg_copy p) + bu"
    using U(1) D(1) i by (simp add: bu_def bd_def)
  have wrt: ?thesis if "pg_phase p = Writing rest" "rest \<noteq> []" "bu < unat wu" for rest
  proof -
    have "0 < sendWin (tx (pg_up p))" using U(2) that(3) i by (simp add: bu_def del: of_nat_unat)
    from link_write_ready [OF up hold(1) this _ that(2)] i obtain n l
      where "link_write rest (pg_up p) = Some (n, l)" "0 < n" "n \<le> length rest" by auto
    with ping_step.ping_write [OF that(1,2)] ping_write_rank [OF up that(1,2)] show ?thesis by blast
  qed
  have written: ?thesis if "pg_phase p = Writing []"
    using ping_step.ping_written [OF that hold(1)] written_rank [OF that] by blast
  have rd: ?thesis if "pg_phase p = Reading echo" "bd \<noteq> 0 \<or> length echo = length payload" for echo
  proof (cases "length echo = length payload")
    case True
    from ping_step.ping_round [OF that(1) this] round_rank [OF that(1)] show ?thesis by blast
  next
    case False
    then have short: "length echo < length payload" using i that(1) by (simp add: phase_ok_def)
    have "buf (rx (pg_down p)) \<noteq> []" using that False by (auto simp: bd_def)
    then obtain xs l where x: "link_read (length payload - length echo) (pg_down p) = Some (xs, l)"
      using link_read_ready by blast
    have "0 < length payload - length echo" using short by simp
    from ping_step.ping_read [OF that(1) short x] ping_read_rank [OF down that(1) this x] show ?thesis by blast
  qed
  show ?thesis
  proof (cases "pg_copy p = []")
    case copy: False
    show ?thesis
    proof (cases "bd < unat wd")
      case True
      then have "0 < sendWin (tx (pg_down p))" using D(2) i by (simp add: bd_def del: of_nat_unat)
      from link_write_ready [OF down hold(2) this _ copy] i obtain n l
        where w: "link_write (pg_copy p) (pg_down p) = Some (n, l)" "0 < n" "n \<le> length (pg_copy p)" by auto
      from ping_step.serve_write [OF copy w(1)] serve_write_rank [OF copy w] show ?thesis by blast
    next
      case full: False
      show ?thesis
      proof (cases "pg_phase p")
        case (Writing rest)
        then obtain w where w: "payload = w @ rest" "length (wrote (pg_up p)) = length (got (pg_down p)) + length w"
          using i by (auto simp: phase_ok_def)
        have "bu < unat wu" if "rest \<noteq> []"
          using total w full fit copy that by (cases rest; cases "pg_copy p") auto
        with wrt [OF Writing] written Writing show ?thesis by blast
      next
        case (Reading echo)
        have "bd \<noteq> 0" using full \<open>0 < unat wd\<close> by simp
        with rd [OF Reading] show ?thesis by blast
      qed (use assms i in \<open>simp_all add: phase_ok_def\<close>)
    qed
  next
    case copy: True
    show ?thesis
    proof (cases "bu = 0")
      case False
      then have "buf (rx (pg_up p)) \<noteq> []" by (auto simp: bu_def)
      then obtain xs l where x: "link_read copyBufferSize (pg_up p) = Some (xs, l)"
        using link_read_ready by blast
      from ping_step.serve_read [OF copy x] serve_read_rank [OF up copy x] show ?thesis by blast
    next
      case empty: True
      show ?thesis
      proof (cases "pg_phase p")
        case (Writing rest)
        with wrt [OF Writing] written empty \<open>0 < unat wu\<close> show ?thesis by (cases rest) auto
      next
        case (Reading echo)
        have "length (wrote (pg_up p)) = length (got (pg_down p)) - length echo + length payload"
          "length echo \<le> length (got (pg_down p))"
          using i Reading by (auto simp: phase_ok_def)
        then have "bd \<noteq> 0 \<or> length echo = length payload" using total empty copy by auto
        with rd [OF Reading] show ?thesis by blast
      qed (use assms i in \<open>simp_all add: phase_ok_def\<close>)
    qed
  qed
qed

text \<open>A ping on two fresh links with the given windows.\<close>

definition fresh_ping :: "nat \<Rightarrow> u32 \<Rightarrow> u32 \<Rightarrow> bytes \<Rightarrow> ping \<Rightarrow> bool" where
  "fresh_ping count wu wd payload p \<longleftrightarrow>
     (\<exists>sz up down. new_ping (int count) sz up down = Some (payload, p) \<and>
        fresh_link up \<and> fresh_link down \<and> txWindow up = wu \<and> txWindow down = wd)"

lemma fresh_pingD:
  assumes "fresh_ping count wu wd payload p"
  shows "ping_inv count wu wd payload p \<and> payload \<noteq> [] \<and> pg_phase p = Writing payload
    \<and> pg_left p = count - 1 \<and> 0 < count"
proof -
  obtain sz up down where new: "new_ping (int count) sz up down = Some (payload, p)"
    and fresh: "fresh_link up" "fresh_link down" "txWindow up = wu" "txWindow down = wd"
    using assms by (auto simp: fresh_ping_def)
  from new have p: "0 < count" "0 < sz" "payload = ping_payload (nat sz)"
    "p = \<lparr>pg_up = up, pg_down = down, pg_phase = Writing payload, pg_left = count - 1, pg_copy = []\<rparr>"
    by (auto simp: new_ping_def Let_def split: if_splits)
  have "payload \<noteq> []" using p by (simp add: ping_payload_def)
  moreover have "0 < frameMax up \<and> wrote up = [] \<and> got up = []" "0 < frameMax down \<and> wrote down = [] \<and> got down = []"
    using fresh by (auto simp: fresh_link_def new_link_def)
  ultimately show ?thesis
    using p fresh flow_inv_fresh [OF fresh(1)] flow_inv_fresh [OF fresh(2)]
    by (simp add: ping_inv_def phase_ok_def)
qed

interpretation pingm: machine "fresh_ping count wu wd payload" "ping_step payload"
    "\<lambda>p. ping_inv count wu wd payload p \<and> payload \<noteq> []" for count wu wd payload
  by unfold_locales (use fresh_pingD ping_step_inv in blast)+

interpretation pingd: draining_machine "fits count wu wd payload" "ping_step payload"
    "fits count wu wd payload" "\<lambda>p. pg_phase p = Finished" "ping_rank payload" for count wu wd payload
proof unfold_locales
  fix p q
  show "fits count wu wd payload p \<Longrightarrow> ping_step payload p q \<Longrightarrow> fits count wu wd payload q"
    using ping_step_inv unfolding fits_def by blast
  show "fits count wu wd payload p \<Longrightarrow> pg_phase p \<noteq> Finished \<Longrightarrow>
      \<exists>q. ping_step payload p q \<and> ping_rank payload q < ping_rank payload p"
    by (rule ping_progress)
qed

section \<open>Properties\<close>

text \<open>Before anything is read back, the bytes written fit the windows and the copy buffer.\<close>

lemma first_write_bound:
  assumes "ping_inv count wu wd payload p" and "got (pg_down p) = []"
  shows "length (wrote (pg_up p)) \<le> unat wu + unat wd + copyBufferSize"
proof -
  note i = assms(1) [unfolded ping_inv_def]
  have "length (wrote (pg_up p)) \<le> length (wrote (pg_down p)) + length (pg_copy p) + unat wu"
    using flow_inv_lengths(2) [of "pg_up p"] i by simp
  moreover have "length (wrote (pg_down p)) \<le> unat wd"
    using flow_inv_lengths(2) [of "pg_down p"] i assms(2) by simp
  ultimately show ?thesis using i by simp
qed

text \<open>A ping that is still writing its first payload stays so when the payload is too large.\<close>

lemma large_ping_step:
  assumes "ping_inv count wu wd payload p" and "payload \<noteq> []" and "ping_step payload p p'"
    and "pg_phase p = Writing rest" and "got (pg_down p) = []" and "pg_left p = count - 1"
    and "unat wu + unat wd + copyBufferSize < length payload"
  shows "(\<exists>rest'. pg_phase p' = Writing rest') \<and> got (pg_down p') = [] \<and> pg_left p' = count - 1"
  using assms(3)
proof cases
  case ping_written
  then have "wrote (pg_up p) = payload"
    using assms(1,6) by (auto simp: ping_inv_def phase_ok_def)
  with first_write_bound [OF assms(1,5)] assms(7) show ?thesis by simp
next
  case (ping_write r n l)
  then show ?thesis using assms by simp
next
  case (serve_write n l)
  from link_writeD [OF serve_write(3,2)] serve_write(1) assms(4-6) show ?thesis by simp
qed (use assms in \<open>auto simp: link_moves_def\<close>)

text \<open>C35: What the ping tool can measure. Echoes are never corrupted: no interleaving of the tool, the
  serving side and the transport reaches the mismatch error. A payload of at most the two initial
  windows together can always be finished, from every reachable state and for every number of
  rounds. A payload larger than the two windows and the 32 KiB of the copy buffer never is: the tool
  writes all of it before it reads, and stays in the first \<open>Write\<close> for ever.\<close>

theorem ping_finishes:
  assumes "fresh_ping count wu wd payload p0" and "0 < wu" and "0 < wd"
    and "(ping_step payload)\<^sup>*\<^sup>* p0 p"
  shows "pg_phase p \<noteq> Mismatch
    \<and> (length payload \<le> unat wu + unat wd \<longrightarrow>
        (\<exists>q. (ping_step payload)\<^sup>*\<^sup>* p q \<and> pg_phase q = Finished))
    \<and> (unat wu + unat wd + 32 * 1024 < length payload \<longrightarrow>
        (\<exists>rest. rest \<noteq> [] \<and> pg_phase p = Writing rest))"
proof (intro conjI impI)
  have inv: "ping_inv count wu wd payload p" "payload \<noteq> []"
    using pingm.invariant [OF assms(1,4)] by simp_all
  then show "pg_phase p \<noteq> Mismatch" by (auto simp: ping_inv_def phase_ok_def)
  show "\<exists>q. (ping_step payload)\<^sup>*\<^sup>* p q \<and> pg_phase q = Finished"
    if "length payload \<le> unat wu + unat wd"
    using pingd.drains_from [of count wu wd payload p] inv assms(2,3) that by (auto simp: fits_def)
  assume "unat wu + unat wd + 32 * 1024 < length payload"
  then have large: "unat wu + unat wd + copyBufferSize < length payload" by (simp add: copyBufferSize_def)
  have "(\<exists>rest. pg_phase p = Writing rest) \<and> got (pg_down p) = [] \<and> pg_left p = count - 1"
    using assms(4)
  proof (induction rule: rtranclp_induct)
    case base
    then show ?case using fresh_pingD [OF assms(1)] by (auto simp: ping_inv_def phase_ok_def)
  next
    case (step q q')
    then have "ping_inv count wu wd payload q" using pingm.invariant [OF assms(1)] by blast
    with step large_ping_step [OF _ inv(2) step.hyps(2) _ _ _ large] show ?case by blast
  qed
  then obtain rest where rest: "pg_phase p = Writing rest" "got (pg_down p) = []" "pg_left p = count - 1"
    by blast
  moreover have "rest \<noteq> []"
    using first_write_bound [OF inv(1) rest(2)] large rest inv(1) by (auto simp: ping_inv_def phase_ok_def)
  ultimately show "\<exists>rest. rest \<noteq> [] \<and> pg_phase p = Writing rest" by blast
qed

definition demo_end :: link where
  "demo_end = new_link 1 \<lparr>Network = 1, ATYP = 3, Address = [97], Port = 0\<rparr> 4 8 8"

definition demo_ping :: "nat \<Rightarrow> ping" where
  "demo_ping sz = \<lparr>pg_up = demo_end, pg_down = demo_end, pg_phase = Writing (ping_payload sz),
     pg_left = 1, pg_copy = []\<rparr>"

lemma demo_ping_fresh: "0 < sz \<Longrightarrow> fresh_ping 2 8 8 (ping_payload sz) (demo_ping sz)"
proof -
  assume "0 < sz"
  moreover have "fresh_link demo_end" unfolding fresh_link_def demo_end_def by (intro exI conjI refl) simp_all
  moreover have "txWindow demo_end = 8" by (simp add: demo_end_def new_link_def)
  ultimately show ?thesis
    unfolding fresh_ping_def
    by (intro exI [of _ "int sz"] exI [of _ demo_end] conjI) (simp_all add: new_ping_def demo_ping_def Let_def)
qed

lemma length_ping_payload: "length (ping_payload n) = n"
  by (simp add: ping_payload_def)

theorem ping_finishes_witness:
  "(\<exists>q. (ping_step (ping_payload 16))\<^sup>*\<^sup>* (demo_ping 16) q \<and> pg_phase q = Finished)
   \<and> \<not> (\<exists>q. (ping_step (ping_payload 32785))\<^sup>*\<^sup>* (demo_ping 32785) q \<and> pg_phase q = Finished)"
proof
  have "fresh_ping 2 8 8 (ping_payload 16) (demo_ping 16)" by (rule demo_ping_fresh) simp
  from ping_finishes [OF this _ _ rtranclp.rtrancl_refl]
  show "\<exists>q. (ping_step (ping_payload 16))\<^sup>*\<^sup>* (demo_ping 16) q \<and> pg_phase q = Finished"
    by (simp add: length_ping_payload)
  have fresh: "fresh_ping 2 8 8 (ping_payload 32785) (demo_ping 32785)" by (rule demo_ping_fresh) simp
  show "\<not> (\<exists>q. (ping_step (ping_payload 32785))\<^sup>*\<^sup>* (demo_ping 32785) q \<and> pg_phase q = Finished)"
    using ping_finishes [OF fresh] by (fastforce simp: length_ping_payload)
qed

end
