(* ===== verification/Adapter.thy ===== *)
theory Adapter
  imports Machine Prelude
begin

text \<open>
  The virtual adapter, desktop/internal/adapter: the loopback device (loopback.go), a queue of
  packets with a channel of wake-up signals between concurrent writers, one reader and a closer,
  as a step relation with one step per critical section or channel operation; and the Wintun
  device (tun_windows.go) over the answers of the driver.
\<close>

section \<open>Loopback\<close>

text \<open>
  Where the reader is: outside \<open>Read\<close>, at the head of its loop, or at the receive from the channel.
\<close>

datatype reader_at = Outside | AtHead nat | AtReceive nat

datatype read_result = Got bytes | TooBig bytes | ReadErrClosed

text \<open>
  One end of a pair, which the peer's \<open>Write\<close> and the own \<open>Read\<close> and \<open>Close\<close> share. The fields after
  \<open>lb_closed\<close> are the rest of the state of the program: whether the channel is closed, how many
  writers and closers have left their critical section and not yet touched the channel, the reader,
  what \<open>Write\<close> accepted, what \<open>Read\<close> returned, and whether a channel operation has panicked.
\<close>

record loopback =
  lb_mtu :: nat
  lb_queue :: "bytes list"
  lb_signal :: nat
  lb_closed :: bool
  lb_signal_closed :: bool
  lb_writers :: nat
  lb_closers :: nat
  lb_reader :: reader_at
  lb_written :: "bytes list"
  lb_results :: "read_result list"
  lb_panic :: bool

definition signal_cap :: nat where "signal_cap = 1024"

definition new_loopback :: "nat \<Rightarrow> loopback" where
  "new_loopback mtu =
     \<lparr>lb_mtu = mtu, lb_queue = [], lb_signal = 0, lb_closed = False, lb_signal_closed = False,
      lb_writers = 0, lb_closers = 0, lb_reader = Outside, lb_written = [], lb_results = [],
      lb_panic = False\<rparr>"

text \<open>\<open>Write\<close>: the critical section, whose result says whether the write is refused, and the send.\<close>

definition write_enqueue :: "bytes \<Rightarrow> loopback \<Rightarrow> bool \<times> loopback" where
  "write_enqueue p l =
     (if lb_closed l then (False, l)
      else (True, l\<lparr>lb_queue := lb_queue l @ [p], lb_written := lb_written l @ [p],
                    lb_writers := lb_writers l + 1\<rparr>))"

definition write_signal :: "loopback \<Rightarrow> loopback" where
  "write_signal l =
     (if lb_signal_closed l then l\<lparr>lb_panic := True\<rparr>
      else if lb_signal l < signal_cap
      then l\<lparr>lb_signal := lb_signal l + 1, lb_writers := lb_writers l - 1\<rparr>
      else l\<lparr>lb_writers := lb_writers l - 1\<rparr>)"

text \<open>\<open>Read\<close>: the critical section at the head of the loop, and the receive.\<close>

definition read_head :: "nat \<Rightarrow> loopback \<Rightarrow> loopback" where
  "read_head n l =
     (if lb_closed l then l\<lparr>lb_reader := Outside, lb_results := lb_results l @ [ReadErrClosed]\<rparr>
      else (case lb_queue l of
              p # q \<Rightarrow> l\<lparr>lb_queue := q, lb_reader := Outside,
                        lb_results := lb_results l @ [if length p > n then TooBig p else Got p]\<rparr>
            | [] \<Rightarrow> l\<lparr>lb_reader := AtReceive n\<rparr>))"

definition read_receive :: "nat \<Rightarrow> loopback \<Rightarrow> loopback" where
  "read_receive n l = l\<lparr>lb_signal := lb_signal l - 1, lb_reader := AtHead n\<rparr>"

text \<open>\<open>Close\<close>: the critical section and the close of the channel.\<close>

definition close_mark :: "loopback \<Rightarrow> loopback" where
  "close_mark l = l\<lparr>lb_closed := True, lb_closers := lb_closers l + 1\<rparr>"

definition close_signal :: "loopback \<Rightarrow> loopback" where
  "close_signal l =
     (if lb_signal_closed l then l\<lparr>lb_panic := True\<rparr>
      else l\<lparr>lb_signal_closed := True, lb_closers := lb_closers l - 1\<rparr>)"

text \<open>
  The steps of a running program: a panic ends it. A receive goes on when a signal is in the channel
  or the channel is closed.
\<close>

inductive lb_step :: "loopback \<Rightarrow> loopback \<Rightarrow> bool" where
  enqueue: "\<not> lb_panic l \<Longrightarrow> lb_step l (snd (write_enqueue p l))"
| signal: "\<not> lb_panic l \<Longrightarrow> lb_writers l > 0 \<Longrightarrow> lb_step l (write_signal l)"
| start: "\<not> lb_panic l \<Longrightarrow> lb_reader l = Outside \<Longrightarrow> lb_step l (l\<lparr>lb_reader := AtHead n\<rparr>)"
| head: "\<not> lb_panic l \<Longrightarrow> lb_reader l = AtHead n \<Longrightarrow> lb_step l (read_head n l)"
| receive: "\<not> lb_panic l \<Longrightarrow> lb_reader l = AtReceive n \<Longrightarrow> lb_signal l > 0 \<or> lb_signal_closed l
    \<Longrightarrow> lb_step l (read_receive n l)"
| mark: "\<not> lb_panic l \<Longrightarrow> lb_step l (close_mark l)"
| close: "\<not> lb_panic l \<Longrightarrow> lb_closers l > 0 \<Longrightarrow> lb_step l (close_signal l)"

text \<open>The packets that reads took out, whether they fitted the caller's buffer or not.\<close>

fun taken :: "read_result list \<Rightarrow> bytes list" where
  "taken [] = []"
| "taken (Got p # rs) = p # taken rs"
| "taken (TooBig p # rs) = p # taken rs"
| "taken (ReadErrClosed # rs) = taken rs"

lemma taken_append [simp]: "taken (rs @ ss) = taken rs @ taken ss"
  by (induction rs rule: taken.induct) auto

text \<open>
  The invariant. Its third clause is the absence of lost wake-ups: a reader at the receive with a
  packet in the queue has a signal to receive, or a writer is about to send one.
\<close>

definition lb_inv :: "loopback \<Rightarrow> bool" where
  "lb_inv l \<longleftrightarrow>
     lb_written l = taken (lb_results l) @ lb_queue l \<and> lb_signal l \<le> signal_cap \<and>
     (lb_queue l \<noteq> [] \<and> (\<exists>n. lb_reader l = AtReceive n) \<longrightarrow>
        lb_signal l > 0 \<or> lb_writers l > 0 \<or> lb_closed l) \<and>
     (lb_signal_closed l \<longrightarrow> lb_closed l) \<and> (lb_closers l > 0 \<longrightarrow> lb_closed l) \<and>
     (lb_closed l \<longrightarrow> lb_closers l > 0 \<or> lb_signal_closed l) \<and>
     (ReadErrClosed \<in> set (lb_results l) \<longrightarrow> lb_closed l) \<and>
     (lb_panic l \<longrightarrow> lb_closed l)"

lemmas lb_ops = write_enqueue_def write_signal_def read_head_def read_receive_def close_mark_def
  close_signal_def

lemma lb_inv_step:
  assumes "lb_inv l" and "lb_step l l'"
  shows "lb_inv l'"
  using assms(2,1)
proof cases
  case (enqueue p)
  with assms(1) show ?thesis by (auto simp: lb_inv_def lb_ops)
next
  case signal
  with assms(1) show ?thesis by (auto simp: lb_inv_def lb_ops signal_cap_def)
next
  case (start n)
  with assms(1) show ?thesis by (auto simp: lb_inv_def)
next
  case (head n)
  with assms(1) show ?thesis by (auto simp: lb_inv_def lb_ops split: list.split)
next
  case (receive n)
  with assms(1) show ?thesis by (auto simp: lb_inv_def lb_ops)
next
  case mark
  with assms(1) show ?thesis by (auto simp: lb_inv_def lb_ops)
next
  case close
  with assms(1) show ?thesis by (auto simp: lb_inv_def lb_ops)
qed

text \<open>The steps of the writers in flight and of the reader: nothing new is written, nobody closes.\<close>

definition lb_quiet :: "loopback \<Rightarrow> loopback \<Rightarrow> bool" where
  "lb_quiet l l' \<longleftrightarrow> lb_step l l' \<and> lb_written l' = lb_written l \<and> lb_closed l' = lb_closed l"

text \<open>How far the queue is from being read out: every quiet step brings it nearer.\<close>

definition lb_rank :: "loopback \<Rightarrow> nat" where
  "lb_rank l = 4 * length (lb_queue l)
     + (case lb_reader l of AtHead _ \<Rightarrow> 0 | Outside \<Rightarrow> 1 | AtReceive _ \<Rightarrow> 2)
     + (if lb_signal l = 0 then 1 else 0) + lb_writers l"

definition lb_open :: "loopback \<Rightarrow> bool" where
  "lb_open l \<longleftrightarrow> lb_inv l \<and> \<not> lb_closed l"

lemma lb_quiet_decreases:
  assumes "lb_open l" and "lb_queue l \<noteq> []" and "lb_quiet l l'"
  shows "lb_rank l' < lb_rank l"
proof -
  have ok: "\<not> lb_signal_closed l" "\<not> lb_closed l" "lb_closers l = 0"
    using assms(1) by (auto simp: lb_open_def lb_inv_def)
  have same: "lb_written l' = lb_written l" "lb_closed l' = lb_closed l" and step: "lb_step l l'"
    using assms(3) by (auto simp: lb_quiet_def)
  from step show ?thesis
  proof cases
    case (head n)
    with ok assms(2) show ?thesis by (cases "lb_queue l") (auto simp: lb_rank_def lb_ops)
  qed (use ok same in \<open>auto simp: lb_rank_def lb_ops signal_cap_def\<close>)
qed

lemma lb_progress:
  assumes "lb_open l" and "lb_queue l \<noteq> []"
  shows "\<exists>l'. lb_quiet l l'"
proof -
  have ok: "\<not> lb_panic l" "\<not> lb_signal_closed l" "\<not> lb_closed l"
    using assms by (auto simp: lb_open_def lb_inv_def)
  show ?thesis
  proof (cases "lb_reader l")
    case Outside
    with lb_step.start [OF ok(1) Outside, of 0] show ?thesis by (auto simp: lb_quiet_def)
  next
    case (AtHead n)
    have "lb_written (read_head n l) = lb_written l \<and> lb_closed (read_head n l) = lb_closed l"
      by (simp add: read_head_def split: list.split)
    with lb_step.head [OF ok(1) AtHead] show ?thesis unfolding lb_quiet_def by blast
  next
    case (AtReceive n)
    show ?thesis
    proof (cases "lb_signal l > 0")
      case True
      have "lb_written (read_receive n l) = lb_written l \<and> lb_closed (read_receive n l) = lb_closed l"
        by (simp add: read_receive_def)
      with lb_step.receive [OF ok(1) AtReceive] True show ?thesis unfolding lb_quiet_def by blast
    next
      case False
      then have "lb_writers l > 0" using assms AtReceive by (auto simp: lb_open_def lb_inv_def)
      moreover have "lb_written (write_signal l) = lb_written l \<and> lb_closed (write_signal l) = lb_closed l"
        by (simp add: write_signal_def)
      ultimately show ?thesis using lb_step.signal [OF ok(1)] unfolding lb_quiet_def by blast
    qed
  qed
qed

interpretation lbm: machine "\<lambda>l. \<exists>mtu. l = new_loopback mtu" lb_step lb_inv
proof unfold_locales
  fix l l'
  show "\<exists>mtu. l = new_loopback mtu \<Longrightarrow> lb_inv l" by (auto simp: new_loopback_def lb_inv_def)
  show "lb_inv l \<Longrightarrow> lb_step l l' \<Longrightarrow> lb_inv l'" by (rule lb_inv_step)
qed

interpretation lbd: draining_machine lb_open lb_quiet lb_open "\<lambda>l. lb_queue l = []" lb_rank
proof unfold_locales
  fix l l'
  show "lb_open l \<Longrightarrow> lb_quiet l l' \<Longrightarrow> lb_open l'"
    using lb_inv_step by (auto simp: lb_open_def lb_quiet_def)
  show "lb_open l \<Longrightarrow> lb_queue l \<noteq> [] \<Longrightarrow> \<exists>t. lb_quiet l t \<and> lb_rank t < lb_rank l"
    using lb_progress lb_quiet_decreases by blast
qed

lemma lb_quiet_runs_drain:
  assumes "lb_open (f 0)" and "\<And>i. lb_quiet (f i) (f (Suc i))"
  shows "\<exists>i. lb_queue (f i) = []"
proof (rule ccontr)
  assume nonempty: "\<not> ?thesis"
  have opened: "lb_open (f i)" for i
    by (induction i) (use assms lbd.inv_step in auto)
  have "lb_rank (f i) + i \<le> lb_rank (f 0)" for i
  proof (induction i)
    case (Suc i)
    have "lb_rank (f (Suc i)) < lb_rank (f i)"
      using lb_quiet_decreases [OF opened _ assms(2)] nonempty by blast
    with Suc show ?case by simp
  qed simp
  from this [of "Suc (lb_rank (f 0))"] show False by simp
qed

lemma lb_reachable_inv: "lb_step\<^sup>*\<^sup>* (new_loopback mtu) l \<Longrightarrow> lb_inv l"
  using lbm.invariant by blast

section \<open>Wintun\<close>

text \<open>The answers of the driver's \<open>ReceivePacket\<close>.\<close>

datatype received = RxPacket bytes | NoMoreItems | RxFault string

datatype wintun_err =
    NameRequired | MTUNotPositive | CreateOpen string | StartSession string
  | ExceedsBuffer nat nat | Receive string

text \<open>
  \<open>Read\<close> on the answers of the ring; the second component are the packets released to the driver.
  With no answer left the loop polls on.
\<close>

fun Wintun_Read :: "received list \<Rightarrow> nat \<Rightarrow> (wintun_err + bytes) option \<times> bytes list" where
  "Wintun_Read [] buf = (None, [])"
| "Wintun_Read (RxPacket pkt # rs) buf =
     (if length pkt > buf then (Some (Inl (ExceedsBuffer (length pkt) buf)), [pkt])
      else (Some (Inr pkt), [pkt]))"
| "Wintun_Read (NoMoreItems # rs) buf = Wintun_Read rs buf"
| "Wintun_Read (RxFault e # rs) buf = (Some (Inl (Receive e)), [])"

text \<open>
  \<open>NewWintun\<close>: \<open>create\<close>, \<open>reopen\<close> and \<open>session\<close> are the outcomes of the driver's calls, an error or
  none; the second component is whether an adapter handle stays open.
\<close>

definition NewWintun :: "string \<Rightarrow> int \<Rightarrow> string option \<Rightarrow> string option \<Rightarrow> string option
    \<Rightarrow> wintun_err option \<times> bool" where
  "NewWintun name mtu create reopen session =
     (if name = [] then (Some NameRequired, False)
      else if mtu \<le> 0 then (Some MTUNotPositive, False)
      else (case (create, reopen) of
              (Some _, Some e) \<Rightarrow> (Some (CreateOpen e), False)
            | _ \<Rightarrow> (case session of Some e \<Rightarrow> (Some (StartSession e), False) | None \<Rightarrow> (None, True))))"

text \<open>\<open>Write\<close> and \<open>Close\<close>; \<open>send\<close> is the driver's \<open>SendPacket\<close>, which cannot fail, \<open>close_err\<close> its \<open>Close\<close>.\<close>

definition Wintun_Write :: "(bytes \<Rightarrow> 'w \<Rightarrow> 'w) \<Rightarrow> bytes \<Rightarrow> 'w \<Rightarrow> (nat \<times> wintun_err option) \<times> 'w" where
  "Wintun_Write send p w = ((length p, None), send p w)"

definition Wintun_Close :: "('w \<Rightarrow> 'w) \<Rightarrow> ('w \<Rightarrow> string option \<times> 'w) \<Rightarrow> 'w \<Rightarrow> string option \<times> 'w" where
  "Wintun_Close end_session close_adapter w =
     (case close_adapter (end_session w) of
        (Some e, w') \<Rightarrow> (Some (''adapter: close: '' @ e), w') | (None, w') \<Rightarrow> (None, w'))"

text \<open>Every packet taken from the ring is given back, also one that does not fit.\<close>

lemma Wintun_Read_releases:
  "Wintun_Read rs n = (r, released) \<Longrightarrow>
    released = (case dropWhile (\<lambda>x. x = NoMoreItems) rs of RxPacket p # _ \<Rightarrow> [p] | _ \<Rightarrow> [])
    \<and> (\<forall>p. r = Some (Inr p) \<longrightarrow> released = [p] \<and> length p \<le> n)"
  by (induction rs n rule: Wintun_Read.induct) (auto split: if_splits)

section \<open>Properties\<close>

text \<open>A loopback device keeps packets whole and in order and loses no wake-up. In every
  interleaving of writers, the reader and closers, the packets accepted by \<open>Write\<close> are those taken
  out by \<open>Read\<close>, in order, followed by those still queued; a reader at the receive with a packet in
  the queue can go on at once, or a writer is about to signal, or the device is closed; and a read
  reports a closed device for a queue without an oversized packet only after \<open>Close\<close>.\<close>

lemma loopback_no_lost_wakeup:
  assumes "lb_step\<^sup>*\<^sup>* (new_loopback mtu) l"
  shows "lb_written l = taken (lb_results l) @ lb_queue l
    \<and> (lb_queue l \<noteq> [] \<and> lb_reader l = AtReceive n \<longrightarrow>
        lb_signal l > 0 \<or> lb_writers l > 0 \<or> lb_closed l)
    \<and> (lb_closed l \<longrightarrow> lb_closers l > 0 \<or> lb_signal_closed l)
    \<and> (ReadErrClosed \<in> set (lb_results l) \<longrightarrow> lb_closed l)"
  using lb_reachable_inv [OF assms] unfolding lb_inv_def by blast

definition demo_run :: loopback where
  "demo_run = snd (write_enqueue [69, 1] (read_head 64 ((new_loopback 1500)\<lparr>lb_reader := AtHead 64\<rparr>)))"

lemma demo_run_reachable: "lb_step\<^sup>*\<^sup>* (new_loopback 1500) demo_run"
proof -
  have "lb_step (new_loopback 1500) ((new_loopback 1500)\<lparr>lb_reader := AtHead 64\<rparr>)"
    by (rule lb_step.start) (simp_all add: new_loopback_def)
  moreover have "lb_step ((new_loopback 1500)\<lparr>lb_reader := AtHead 64\<rparr>)
      (read_head 64 ((new_loopback 1500)\<lparr>lb_reader := AtHead 64\<rparr>))"
    by (rule lb_step.head) (simp_all add: new_loopback_def)
  moreover have "lb_step (read_head 64 ((new_loopback 1500)\<lparr>lb_reader := AtHead 64\<rparr>)) demo_run"
    unfolding demo_run_def by (rule lb_step.enqueue) (simp add: new_loopback_def read_head_def)
  ultimately show ?thesis by (meson converse_rtranclp_into_rtranclp r_into_rtranclp)
qed

lemma loopback_no_lost_wakeup_example:
  "lb_queue demo_run = [[69, 1]] \<and> lb_reader demo_run = AtReceive 64
    \<and> (lb_signal demo_run > 0 \<or> lb_writers demo_run > 0 \<or> lb_closed demo_run)"
proof -
  have "lb_queue demo_run = [[69, 1]]" "lb_reader demo_run = AtReceive 64"
    by (simp_all add: demo_run_def lb_ops new_loopback_def)
  with loopback_no_lost_wakeup [OF demo_run_reachable, of 64] show ?thesis by simp
qed

text \<open>Everything written can be read. From every reachable state of a device that is not
  closed, the writers in flight and the reader alone can take out every packet written so far, and
  they always do: no infinite run of their steps leaves the queue non-empty.\<close>

lemma loopback_drains:
  assumes "lb_step\<^sup>*\<^sup>* (new_loopback mtu) l" and "\<not> lb_closed l"
  shows "(\<exists>l'. lb_quiet\<^sup>*\<^sup>* l l' \<and> taken (lb_results l') = lb_written l)
    \<and> (\<forall>f. f 0 = l \<and> (\<forall>i. lb_quiet (f i) (f (Suc i))) \<longrightarrow> (\<exists>i. lb_queue (f i) = []))"
proof -
  have op: "lb_open l" using assms lb_reachable_inv by (simp add: lb_open_def)
  have written: "lb_quiet\<^sup>*\<^sup>* l l' \<Longrightarrow> lb_written l' = lb_written l" for l'
    by (induction rule: rtranclp_induct) (auto simp: lb_quiet_def)
  obtain l' where run: "lb_quiet\<^sup>*\<^sup>* l l'" "lb_queue l' = []" using lbd.drains_from [OF op] by blast
  have "lb_open l'" using lbd.inv_steps [OF run(1) op] .
  then have "taken (lb_results l') = lb_written l'" using run(2) by (simp add: lb_open_def lb_inv_def)
  with run written lb_quiet_runs_drain op show ?thesis by metis
qed

lemma loopback_drains_example:
  "\<exists>l'. lb_quiet\<^sup>*\<^sup>* demo_run l' \<and> taken (lb_results l') = [[69, 1]]"
proof -
  have "\<not> lb_closed demo_run" "lb_written demo_run = [[69, 1]]"
    by (simp_all add: demo_run_def lb_ops new_loopback_def)
  with loopback_drains [OF demo_run_reachable] show ?thesis by metis
qed

text \<open>Closing is safe only when nobody writes. No run panics before \<open>Close\<close> is called; but a
  writer between its critical section and its send, and one \<open>Close\<close>, can panic the program, and so
  can a second \<open>Close\<close>.\<close>

lemma loopback_close_race:
  "(\<forall>l. lb_step\<^sup>*\<^sup>* (new_loopback mtu) l \<longrightarrow> lb_panic l \<longrightarrow> lb_closed l)
   \<and> (\<exists>l. lb_step\<^sup>*\<^sup>* (new_loopback mtu) l \<and> lb_panic l \<and> lb_written l = [p] \<and> lb_closers l = 0)
   \<and> (\<exists>l. lb_step\<^sup>*\<^sup>* (new_loopback mtu) l \<and> lb_panic l \<and> lb_written l = [])"
proof (intro conjI)
  show "\<forall>l. lb_step\<^sup>*\<^sup>* (new_loopback mtu) l \<longrightarrow> lb_panic l \<longrightarrow> lb_closed l"
    using lb_reachable_inv by (auto simp: lb_inv_def)
  let ?l1 = "snd (write_enqueue p (new_loopback mtu))" and ?m1 = "close_mark (new_loopback mtu)"
  have "lb_step (new_loopback mtu) ?l1" by (rule lb_step.enqueue) (simp add: new_loopback_def)
  moreover have "lb_step ?l1 (close_mark ?l1)"
    by (rule lb_step.mark) (simp add: new_loopback_def lb_ops)
  moreover have "lb_step (close_mark ?l1) (close_signal (close_mark ?l1))"
    by (rule lb_step.close) (simp_all add: new_loopback_def lb_ops)
  moreover have "lb_step (close_signal (close_mark ?l1)) (write_signal (close_signal (close_mark ?l1)))"
    by (rule lb_step.signal) (simp_all add: new_loopback_def lb_ops)
  ultimately have "lb_step\<^sup>*\<^sup>* (new_loopback mtu) (write_signal (close_signal (close_mark ?l1)))"
    by (meson converse_rtranclp_into_rtranclp r_into_rtranclp)
  then show "\<exists>l. lb_step\<^sup>*\<^sup>* (new_loopback mtu) l \<and> lb_panic l \<and> lb_written l = [p] \<and> lb_closers l = 0"
    by (intro exI conjI) (assumption, simp_all add: new_loopback_def lb_ops)
  have "lb_step (new_loopback mtu) ?m1" by (rule lb_step.mark) (simp add: new_loopback_def)
  moreover have "lb_step ?m1 (close_mark ?m1)" by (rule lb_step.mark) (simp add: new_loopback_def lb_ops)
  moreover have "lb_step (close_mark ?m1) (close_signal (close_mark ?m1))"
    by (rule lb_step.close) (simp_all add: new_loopback_def lb_ops)
  moreover have "lb_step (close_signal (close_mark ?m1)) (close_signal (close_signal (close_mark ?m1)))"
    by (rule lb_step.close) (simp_all add: new_loopback_def lb_ops)
  ultimately have "lb_step\<^sup>*\<^sup>* (new_loopback mtu) (close_signal (close_signal (close_mark ?m1)))"
    by (meson converse_rtranclp_into_rtranclp r_into_rtranclp)
  then show "\<exists>l. lb_step\<^sup>*\<^sup>* (new_loopback mtu) l \<and> lb_panic l \<and> lb_written l = []"
    by (intro exI conjI) (assumption, simp_all add: new_loopback_def lb_ops)
qed

lemma loopback_close_race_example:
  "\<exists>l. lb_step\<^sup>*\<^sup>* (new_loopback 1500) l \<and> lb_panic l \<and> lb_closed l \<and> lb_written l = [[69]]"
  using loopback_close_race [of 1500 "[69]"] by blast

end
