(* ===== verification/Netstack.thy ===== *)
theory Netstack
  imports Adapter Resolver Relay
begin

unbundle bit_operations_syntax

text \<open>
  The user-space network stack's edges, desktop/internal/netstack: the read loop that feeds the
  adapter's packets to the stack (engine.go, link.go, reader.go), the link's writes back to the
  adapter, the handlers of the stack's TCP and UDP flows, and the pump between a flow and its
  stream. The stack itself is the gVisor library: its protocol numbers and its buffer's
  \<open>WriteFromReader\<close> are in the record \<open>gvisor\<close>, and what it hands to the handlers is their argument.
\<close>

section \<open>The reader over a packet\<close>

record byteSliceReader =
  br_data :: bytes
  br_pos :: nat

definition bytesReader :: "bytes \<Rightarrow> byteSliceReader" where
  "bytesReader data = \<lparr>br_data = data, br_pos = 0\<rparr>"

text \<open>\<open>None\<close> is \<open>io.EOF\<close>.\<close>

definition byteSlice_Read :: "nat \<Rightarrow> byteSliceReader \<Rightarrow> bytes option \<times> byteSliceReader" where
  "byteSlice_Read n r =
     (if br_pos r \<ge> length (br_data r) then (None, r)
      else (let xs = take n (drop (br_pos r) (br_data r))
            in (Some xs, r\<lparr>br_pos := br_pos r + length xs\<rparr>)))"

text \<open>The bytes that reads of the given sizes give, up to the end.\<close>

fun read_sizes :: "nat list \<Rightarrow> byteSliceReader \<Rightarrow> bytes" where
  "read_sizes [] r = []"
| "read_sizes (n # ns) r =
     (case byteSlice_Read n r of (None, _) \<Rightarrow> [] | (Some xs, r') \<Rightarrow> xs @ read_sizes ns r')"

section \<open>The link\<close>

record gvisor =
  ipv4_ProtocolNumber :: nat
  ipv6_ProtocolNumber :: nat
  WriteFromReader :: "byteSliceReader \<Rightarrow> nat \<Rightarrow> bytes"

definition protocolNumber :: "gvisor \<Rightarrow> byte \<Rightarrow> nat" where
  "protocolNumber gv firstByte =
     (let v = drop_bit 4 firstByte
      in if v = 4 then ipv4_ProtocolNumber gv else if v = 6 then ipv6_ProtocolNumber gv else 0)"

text \<open>
  \<open>tunLink.inject\<close>: the packets delivered to the stack's dispatcher, with their protocol; without a
  dispatcher attached nothing is delivered.
\<close>

definition inject :: "gvisor \<Rightarrow> bool \<Rightarrow> nat \<Rightarrow> bytes \<Rightarrow> (nat \<times> bytes) list" where
  "inject gv attached proto payload =
     (if \<not> attached then []
      else [(proto, WriteFromReader gv (bytesReader payload) (length payload))])"

text \<open>
  \<open>Engine.readLoop\<close>. Each element is one turn: whether \<open>Stop\<close> was called before it, and what the
  adapter's \<open>Read\<close> into the 65536 bytes of \<open>rbuf\<close> returned, an error or the packet it copied. The
  buffer keeps what earlier packets left behind.
\<close>

datatype tun_read = TunErr | TunPacket bytes

fun Engine_readLoop :: "gvisor \<Rightarrow> bool \<Rightarrow> bytes \<Rightarrow> (bool \<times> tun_read) list \<Rightarrow> (nat \<times> bytes) list" where
  "Engine_readLoop gv attached rbuf [] = []"
| "Engine_readLoop gv attached rbuf ((stop, r) # evs) =
     (if stop then []
      else (case r of
              TunErr \<Rightarrow> []
            | TunPacket pkt \<Rightarrow>
                (let n = length pkt; rbuf = pkt @ drop n rbuf
                 in if n = 0 then Engine_readLoop gv attached rbuf evs
                    else (let proto = protocolNumber gv (rbuf ! 0)
                          in if proto = 0 then Engine_readLoop gv attached rbuf evs
                             else inject gv attached proto (take n rbuf) @ Engine_readLoop gv attached rbuf evs))))"

text \<open>
  \<open>tunLink.WritePackets\<close> over an adapter whose \<open>Write\<close> returns whether it failed; the first failure
  ends it with the count so far.
\<close>

fun WritePackets :: "(bytes \<Rightarrow> 'w \<Rightarrow> bool \<times> 'w) \<Rightarrow> bytes list \<Rightarrow> 'w \<Rightarrow> (nat \<times> bool) \<times> 'w" where
  "WritePackets wr [] w = ((0, False), w)"
| "WritePackets wr (p # ps) w =
     (case wr p w of
        (True, w') \<Rightarrow> ((0, True), w')
      | (False, w') \<Rightarrow> (case WritePackets wr ps w' of ((n, aborted), w'') \<Rightarrow> ((n + 1, aborted), w'')))"

section \<open>Flows\<close>

definition dnsPort :: int where "dnsPort = 53"

text \<open>
  A flow the stack asks to forward: whether its endpoint could be created, the address of the
  endpoint's \<open>RemoteAddr\<close> when it is a TCP address, and the flow's id: \<open>LocalPort\<close> and
  \<open>LocalAddress\<close> are where the application sent it.
\<close>

record flow_request =
  fr_create_ok :: bool
  fr_remote :: "ip option"
  fr_LocalAddress :: ip
  fr_LocalPort :: u16

datatype flow_action =
    Complete bool | ServeDNS | Dial ip int | Pump flow_conn | CloseUpstream flow_conn | CloseConn

text \<open>\<open>handleTCP\<close>; \<open>dns\<close> says whether the engine has a local resolver.\<close>

definition handleTCP :: "bool \<Rightarrow> flow_request \<Rightarrow> TunnelDialer \<Rightarrow> flow_action list \<times> TunnelDialer" where
  "handleTCP dns req d =
     (if \<not> fr_create_ok req then ([Complete True], d)
      else (case fr_remote req of
              None \<Rightarrow> ([Complete False, CloseConn], d)
            | Some a \<Rightarrow>
                (let port = uint (fr_LocalPort req)
                 in if port = dnsPort \<and> dns then ([Complete False, ServeDNS, CloseConn], d)
                    else (case DialTCP a port d of
                            (Inl _, d') \<Rightarrow> ([Complete False, Dial a port, CloseConn], d')
                          | (Inr up, d') \<Rightarrow>
                              ([Complete False, Dial a port, Pump up, CloseUpstream up, CloseConn], d')))))"

text \<open>
  \<open>handleUDP\<close>: \<open>datagram\<close> is what \<open>ReadFrom\<close> gets, cut to the 4096 bytes of the buffer, or an error.
  The result is whether the flow is handled and the datagrams written back.
\<close>

definition handleUDP :: "bool \<Rightarrow> 'u upstream \<Rightarrow> flow_request \<Rightarrow> bytes option \<Rightarrow> 'u \<Rightarrow> (bool \<times> bytes list) \<times> 'u" where
  "handleUDP dns up req datagram u =
     (if \<not> fr_create_ok req then ((False, []), u)
      else if uint (fr_LocalPort req) \<noteq> dnsPort \<or> \<not> dns then ((True, []), u)
      else (case datagram of
              None \<Rightarrow> ((True, []), u)
            | Some b \<Rightarrow>
                (case up (take 4096 b) u of
                   (Inl _, u') \<Rightarrow> ((True, []), u')
                 | (Inr resp, u') \<Rightarrow> ((True, [resp]), u'))))"

section \<open>The pump\<close>

text \<open>
  The kinds of connection, by their type; \<open>CloseWrite\<close> is called only on a \<open>*net.TCPConn\<close>.
\<close>

datatype conn_kind = NetTCPConn | GonetTCPConn | RelayStreamConn | RelaySanitizedConn

definition flow_kind :: "flow_conn \<Rightarrow> conn_kind" where
  "flow_kind up = (case up of StreamConn _ \<Rightarrow> RelayStreamConn | NewSanitizedConn _ _ \<Rightarrow> RelaySanitizedConn)"

text \<open>
  One direction, \<open>copyOne\<close>: the bytes that arrived at the source and are not yet copied, whether the
  source has ended, the bytes written to the destination, whether \<open>io.Copy\<close> failed, whether the
  direction is done and whether it closed the destination for writing.
\<close>

record copier =
  cp_arrived :: bytes
  cp_pending :: bytes
  cp_eof :: bool
  cp_written :: bytes
  cp_failed :: bool
  cp_done :: bool
  cp_closed_write :: bool

definition new_copier :: copier where
  "new_copier = \<lparr>cp_arrived = [], cp_pending = [], cp_eof = False, cp_written = [], cp_failed = False,
     cp_done = False, cp_closed_write = False\<rparr>"

definition copy_chunk :: "nat \<Rightarrow> copier \<Rightarrow> copier" where
  "copy_chunk n c = c\<lparr>cp_written := cp_written c @ take n (cp_pending c),
     cp_pending := drop n (cp_pending c)\<rparr>"

definition copy_finish :: "conn_kind \<Rightarrow> copier \<Rightarrow> copier" where
  "copy_finish dst c = c\<lparr>cp_done := True, cp_closed_write := (dst = NetTCPConn)\<rparr>"

inductive copy_step :: "conn_kind \<Rightarrow> copier \<Rightarrow> copier \<Rightarrow> bool" for dst where
  arrive: "\<not> cp_eof c \<Longrightarrow>
    copy_step dst c (c\<lparr>cp_arrived := cp_arrived c @ b, cp_pending := cp_pending c @ b\<rparr>)"
| eof: "copy_step dst c (c\<lparr>cp_eof := True\<rparr>)"
| chunk: "\<not> cp_done c \<Longrightarrow> copy_step dst c (copy_chunk n c)"
| fail: "\<not> cp_done c \<Longrightarrow> copy_step dst c (copy_finish dst (c\<lparr>cp_failed := True\<rparr>))"
| finish: "\<not> cp_done c \<Longrightarrow> cp_pending c = [] \<Longrightarrow> cp_eof c \<Longrightarrow> copy_step dst c (copy_finish dst c)"

text \<open>
  \<open>pumpBidirectional a b\<close>: a direction that writes to each, and the close of both after two
  signals of \<open>done\<close>.
\<close>

record pump =
  pm_to_a :: copier
  pm_to_b :: copier
  pm_closed :: bool

inductive pump_step :: "conn_kind \<Rightarrow> conn_kind \<Rightarrow> pump \<Rightarrow> pump \<Rightarrow> bool" for a b where
  to_a: "copy_step a (pm_to_a p) c \<Longrightarrow> \<not> pm_closed p \<Longrightarrow> pump_step a b p (p\<lparr>pm_to_a := c\<rparr>)"
| to_b: "copy_step b (pm_to_b p) c \<Longrightarrow> \<not> pm_closed p \<Longrightarrow> pump_step a b p (p\<lparr>pm_to_b := c\<rparr>)"
| close_both: "cp_done (pm_to_a p) \<Longrightarrow> cp_done (pm_to_b p) \<Longrightarrow> pump_step a b p (p\<lparr>pm_closed := True\<rparr>)"

definition new_pump :: pump where
  "new_pump = \<lparr>pm_to_a = new_copier, pm_to_b = new_copier, pm_closed = False\<rparr>"

section \<open>Start and Stop\<close>

text \<open>
  What \<open>Start\<close> asks of the stack, in order; \<open>nic_err\<close> and \<open>addr_err\<close> are the errors of the two calls
  that can fail. The address is the one the stack is to answer for, as its bytes.
\<close>

datatype stack_call =
    CreateNIC nat | AddProtocolAddress nat bytes | SetRouteTable | HandleTCPWith | HandleUDPWith
  | GoReadLoop | CloseStopRead | CloseStack

datatype start_err = NICErr string | AddrErr string

definition Engine_Start :: "gvisor \<Rightarrow> string option \<Rightarrow> string option \<Rightarrow> nat \<Rightarrow> ip
    \<Rightarrow> start_err option \<times> stack_call list" where
  "Engine_Start gv nic_err addr_err mtu tunnelIP =
     (case nic_err of
        Some e \<Rightarrow> (Some (NICErr e), [CreateNIC mtu])
      | None \<Rightarrow>
          (let proto = (if To4 tunnelIP = None then ipv6_ProtocolNumber gv else ipv4_ProtocolNumber gv);
               add = AddProtocolAddress proto (case To16 tunnelIP of Some b \<Rightarrow> b | None \<Rightarrow> [])
           in case addr_err of
                Some e \<Rightarrow> (Some (AddrErr e), [CreateNIC mtu, add])
              | None \<Rightarrow>
                  (None, [CreateNIC mtu, add, SetRouteTable, HandleTCPWith, HandleUDPWith, GoReadLoop])))"

text \<open>\<open>Stop\<close>; closing \<open>stopRead\<close> a second time panics, which is \<open>None\<close>.\<close>

definition Engine_Stop :: "bool \<Rightarrow> stack_call list option" where
  "Engine_Stop stopped = (if stopped then None else Some [CloseStopRead, CloseStack])"

text \<open>An IPv4 tunnel address is given to the stack as an IPv4 address of sixteen bytes.\<close>

lemma Start_IPv4_address:
  "length a = 4 \<Longrightarrow> snd (Engine_Start gv None e mtu a) ! 1
    = AddProtocolAddress (ipv4_ProtocolNumber gv) (v4_prefix @ a)"
  by (simp add: Engine_Start_def To4_def To16_def Let_def split: option.split)

section \<open>Invariants\<close>

definition copier_inv :: "conn_kind \<Rightarrow> copier \<Rightarrow> bool" where
  "copier_inv dst c \<longleftrightarrow>
     cp_arrived c = cp_written c @ cp_pending c \<and>
     (cp_done c \<longrightarrow> cp_failed c \<or> cp_eof c \<and> cp_pending c = []) \<and>
     (cp_closed_write c \<longleftrightarrow> cp_done c \<and> dst = NetTCPConn)"

lemma copier_inv_step: "copy_step dst c c' \<Longrightarrow> copier_inv dst c \<Longrightarrow> copier_inv dst c'"
  by (induction rule: copy_step.induct) (auto simp: copier_inv_def copy_chunk_def copy_finish_def)

definition pump_inv :: "conn_kind \<Rightarrow> conn_kind \<Rightarrow> pump \<Rightarrow> bool" where
  "pump_inv a b p \<longleftrightarrow> copier_inv a (pm_to_a p) \<and> copier_inv b (pm_to_b p) \<and>
     (pm_closed p \<longrightarrow> cp_done (pm_to_a p) \<and> cp_done (pm_to_b p))"

lemma copy_step_done: "copy_step dst c c' \<Longrightarrow> cp_done c \<Longrightarrow> cp_done c'"
  by (induction rule: copy_step.induct) (auto simp: copy_chunk_def copy_finish_def)

interpretation pumpm: machine "\<lambda>p. p = new_pump" "pump_step a b" "pump_inv a b" for a b
proof unfold_locales
  fix p q
  show "p = new_pump \<Longrightarrow> pump_inv a b p"
    by (auto simp: pump_inv_def copier_inv_def new_pump_def new_copier_def)
  show "pump_inv a b p \<Longrightarrow> pump_step a b p q \<Longrightarrow> pump_inv a b q"
    by (erule pump_step.cases) (auto simp: pump_inv_def intro: copier_inv_step)
qed

end
