(* ===== verification/Netstack_Properties.thy ===== *)
theory Netstack_Properties
  imports Netstack Relay_Properties
begin

text \<open>
  What the network stack's edges do: the packets that cross a pair of loopback devices from one
  stack's link to the other's read loop, how the handlers dispose of a flow, and what the pump
  promises of the two directions of a flow.
\<close>

section \<open>Packets\<close>

text \<open>
  The documented behaviour of gVisor that the link relies on: the protocol numbers are not zero, and
  \<open>WriteFromReader\<close> fills the buffer with reads of positive sizes until it has the count.
\<close>

definition gvisor_ok :: "gvisor \<Rightarrow> bool" where
  "gvisor_ok gv \<longleftrightarrow> ipv4_ProtocolNumber gv \<noteq> 0 \<and> ipv6_ProtocolNumber gv \<noteq> 0 \<and>
     (\<forall>r n. \<exists>ns. 0 \<notin> set ns \<and> sum_list ns = n \<and> WriteFromReader gv r n = read_sizes ns r)"

lemma read_sizes_take:
  "0 \<notin> set ns \<Longrightarrow> read_sizes ns r = take (sum_list ns) (drop (br_pos r) (br_data r))"
proof (induction ns arbitrary: r)
  case (Cons n ns)
  then show ?case
  proof (cases "br_pos r \<ge> length (br_data r)")
    case False
    define xs where "xs = take n (drop (br_pos r) (br_data r))"
    define r' where "r' = r\<lparr>br_pos := br_pos r + length xs\<rparr>"
    have "byteSlice_Read n r = (Some xs, r')"
      using False by (simp add: byteSlice_Read_def xs_def r'_def Let_def)
    moreover have "read_sizes ns r' = take (sum_list ns) (drop (br_pos r + length xs) (br_data r))"
      using Cons by (simp add: r'_def)
    moreover have "drop (br_pos r + length xs) (br_data r) = drop n (drop (br_pos r) (br_data r))"
      by (auto simp: xs_def min_def add.commute)
    ultimately show ?thesis by (simp add: xs_def take_add)
  qed (simp add: byteSlice_Read_def)
qed simp

lemma inject_whole:
  "gvisor_ok gv \<Longrightarrow> inject gv attached proto p = (if attached then [(proto, p)] else [])"
  unfolding gvisor_ok_def inject_def
  by (metis (no_types, lifting) read_sizes_take bytesReader_def drop0 byteSliceReader.select_convs take_all_iff
      order_refl)

definition is_ip :: "bytes \<Rightarrow> bool" where
  "is_ip p \<longleftrightarrow> p \<noteq> [] \<and> (drop_bit 4 (hd p) = 4 \<or> drop_bit 4 (hd p) = 6)"

text \<open>Writing to a loopback and reading a number of packets from it, one call after the other.\<close>

definition loop_Write :: "bytes \<Rightarrow> loopback \<Rightarrow> bool \<times> loopback" where
  "loop_Write p l =
     (case write_enqueue p l of (False, l') \<Rightarrow> (True, l') | (True, l') \<Rightarrow> (False, write_signal l'))"

fun loop_Reads :: "nat \<Rightarrow> loopback \<Rightarrow> (bool \<times> tun_read) list" where
  "loop_Reads 0 l = []"
| "loop_Reads (Suc k) l =
     (let l' = read_head 65536 (l\<lparr>lb_reader := AtHead 65536\<rparr>)
      in (False, case last (lb_results l') of Got p \<Rightarrow> TunPacket p | _ \<Rightarrow> TunErr) # loop_Reads k l')"

lemma WritePackets_loop:
  "\<not> lb_closed l \<Longrightarrow> \<not> lb_signal_closed l \<Longrightarrow>
    \<exists>l'. WritePackets loop_Write ps l = ((length ps, False), l') \<and> lb_queue l' = lb_queue l @ ps
      \<and> \<not> lb_closed l'"
proof (induction ps arbitrary: l)
  case (Cons p ps)
  define l1 where "l1 = snd (loop_Write p l)"
  have "loop_Write p l = (False, l1)" "lb_queue l1 = lb_queue l @ [p]" "\<not> lb_closed l1"
    "\<not> lb_signal_closed l1"
    using Cons.prems by (auto simp: l1_def loop_Write_def lb_ops)
  with Cons.IH [of l1] show ?case by auto
qed simp

lemma loop_Reads_queue:
  "\<not> lb_closed l \<Longrightarrow> lb_queue l = ps \<Longrightarrow> \<forall>p\<in>set ps. length p \<le> 65536 \<Longrightarrow>
    loop_Reads (length ps) l = map (\<lambda>p. (False, TunPacket p)) ps"
  by (induction ps arbitrary: l) (auto simp: read_head_def Let_def)

lemma readLoop_packets:
  "gvisor_ok gv \<Longrightarrow>
    Engine_readLoop gv True rbuf (map (\<lambda>p. (False, TunPacket p)) ps)
    = map (\<lambda>p. (protocolNumber gv (hd p), p)) (filter is_ip ps)"
proof (induction ps arbitrary: rbuf)
  case (Cons p ps)
  show ?case
  proof (cases p)
    case (Cons x xs)
    with Cons.IH Cons.prems show ?thesis
      by (auto simp: inject_whole is_ip_def protocolNumber_def Let_def gvisor_ok_def)
  qed (use Cons in \<open>simp add: is_ip_def\<close>)
qed simp

text \<open>The protocol of a packet is told by the upper half of its first byte.\<close>

lemma version_nibble: "drop_bit 4 (b :: byte) = of_nat n \<longleftrightarrow> unat b div 16 = n" if "n < 16" for n
proof -
  have "unat (drop_bit 4 b) = unat b div 16" by (simp add: drop_bit_eq_div unat_div)
  moreover have "unat (of_nat n :: byte) = n" using that by (simp add: unat_of_nat)
  ultimately show ?thesis by (metis word_unat_eq_iff)
qed

lemma delivered_protocol:
  "map (\<lambda>p. (protocolNumber gv (hd p), p)) (filter is_ip ps)
    = map (\<lambda>p. (if unat (hd p) div 16 = 4 then ipv4_ProtocolNumber gv else ipv6_ProtocolNumber gv, p))
        (filter is_ip ps)"
  using version_nibble [of 4] by (auto simp: is_ip_def protocolNumber_def Let_def)

text \<open>C38: Packets cross whole. What a stack's link writes to one end of an open loopback pair is
  delivered to the stack of the other end's read loop packet by packet, in order, byte for byte,
  under the protocol of its version nibble; empty packets and other versions are dropped, and
  nothing of an earlier, longer packet in the shared buffer leaks into a later one.\<close>

theorem packets_cross:
  assumes "gvisor_ok gv" and "\<not> lb_closed l" and "\<not> lb_signal_closed l" and "lb_queue l = []"
    and "\<forall>p\<in>set ps. length p \<le> 65536"
  shows "\<exists>l'. WritePackets loop_Write ps l = ((length ps, False), l')
    \<and> Engine_readLoop gv True rbuf (loop_Reads (length ps) l')
      = map (\<lambda>p. (if unat (hd p) div 16 = 4 then ipv4_ProtocolNumber gv else ipv6_ProtocolNumber gv, p))
          (filter is_ip ps)"
  unfolding delivered_protocol [symmetric]
  using WritePackets_loop [OF assms(2,3), of ps] loop_Reads_queue [of _ ps] readLoop_packets [OF assms(1)]
    assms(4,5) by fastforce

definition demo_gvisor :: gvisor where
  "demo_gvisor = \<lparr>ipv4_ProtocolNumber = 0x0800, ipv6_ProtocolNumber = 0x86DD,
     WriteFromReader = (\<lambda>r n. read_sizes (replicate n 1) r)\<rparr>"

lemma demo_gvisor_ok: "gvisor_ok demo_gvisor"
  unfolding gvisor_ok_def demo_gvisor_def
proof (intro conjI allI)
  fix r :: byteSliceReader and n :: nat
  have "0 \<notin> set (replicate n (1 :: nat))" "sum_list (replicate n (1 :: nat)) = n"
    by (auto simp: sum_list_replicate)
  then show "\<exists>ns. 0 \<notin> set ns \<and> sum_list ns = n
    \<and> WriteFromReader \<lparr>ipv4_ProtocolNumber = 0x0800, ipv6_ProtocolNumber = 0x86DD,
        WriteFromReader = (\<lambda>r n. read_sizes (replicate n 1) r)\<rparr> r n = read_sizes ns r"
    by (intro exI [of _ "replicate n 1"]) simp
qed simp_all

definition demo_packets :: "bytes list" where
  "demo_packets = [[0x45, 1, 2], [], [0x12], [0x60, 9]]"

theorem packets_cross_witness:
  "\<exists>l'. WritePackets loop_Write demo_packets (new_loopback 1500) = ((4, False), l')
    \<and> Engine_readLoop demo_gvisor True (replicate 65536 0) (loop_Reads 4 l')
      = [(0x0800, [0x45, 1, 2]), (0x86DD, [0x60, 9])]"
proof -
  have "\<not> lb_closed (new_loopback 1500)" "\<not> lb_signal_closed (new_loopback 1500)"
    "lb_queue (new_loopback 1500) = []" "\<forall>p\<in>set demo_packets. length p \<le> 65536"
    by (simp_all add: new_loopback_def demo_packets_def)
  note cross = packets_cross [OF demo_gvisor_ok this, where rbuf = "replicate 65536 0"]
  have len: "length demo_packets = 4" by (simp add: demo_packets_def)
  have "map (\<lambda>p. (if unat (hd p) div 16 = 4 then ipv4_ProtocolNumber demo_gvisor
        else ipv6_ProtocolNumber demo_gvisor, p)) (filter is_ip demo_packets)
      = [(0x0800, [0x45, 1, 2]), (0x86DD, [0x60, 9])]"
    by (simp add: demo_packets_def is_ip_def demo_gvisor_def drop_bit_eq_div)
  with cross show ?thesis unfolding len by simp
qed

section \<open>Flows\<close>

lemma DialTCP_opens:
  "DialTCP a port d = (Inr up, d') \<Longrightarrow>
    \<exists>s s' t n. d_session d = Some s \<and> dial_target a port = Some t \<and> Open t s = (Inr n, s')
      \<and> d_session d' = Some s' \<and> (up = StreamConn n \<or> (\<exists>c. up = NewSanitizedConn n c))"
  by (auto simp: DialTCP_def open_flow_def split: option.splits prod.splits sum.splits if_splits)

lemma handleTCP_address: "handleTCP dns (req\<lparr>fr_LocalAddress := x\<rparr>) d = handleTCP dns req d"
  unfolding handleTCP_def by (simp add: Let_def split: option.split)

text \<open>C39: How a TCP flow ends. A flow whose endpoint cannot be made is reset and nothing else; any
  other is accepted first and its connection closed last, once. With a local resolver port 53 never
  reaches the dialer. What is dialed is the endpoint's remote address and the flow's local port,
  whatever address the application sent it to; a stream is pumped only when the session opened it
  to that target, and it is closed afterwards.\<close>

theorem tcp_flow:
  assumes "handleTCP dns req d = (acts, d')"
  shows "(if fr_create_ok req
      then \<exists>mid. acts = Complete False # mid @ [CloseConn] \<and> CloseConn \<notin> set mid \<and> (\<forall>r. Complete r \<notin> set mid)
      else acts = [Complete True] \<and> d' = d)
    \<and> (dns \<and> fr_LocalPort req = 53 \<longrightarrow> d' = d \<and> (\<forall>a p. Dial a p \<notin> set acts))
    \<and> (\<forall>a p. Dial a p \<in> set acts \<longrightarrow> fr_remote req = Some a \<and> p = uint (fr_LocalPort req))
    \<and> handleTCP dns (req\<lparr>fr_LocalAddress := x\<rparr>) d = (acts, d')
    \<and> (\<forall>up. Pump up \<in> set acts \<longrightarrow> CloseUpstream up \<in> set acts
        \<and> (\<exists>a s s' t n. fr_remote req = Some a \<and> dial_target a (uint (fr_LocalPort req)) = Some t
            \<and> d_session d = Some s \<and> Open t s = (Inr n, s') \<and> d_session d' = Some s'
            \<and> (up = StreamConn n \<or> (\<exists>c. up = NewSanitizedConn n c))))"
proof (cases "fr_create_ok req")
  case False
  with assms handleTCP_address [of dns x req d] show ?thesis by (auto simp: handleTCP_def)
next
  case ok: True
  show ?thesis
  proof (cases "fr_remote req")
    case None
    with ok assms handleTCP_address [of dns x req d] show ?thesis by (auto simp: handleTCP_def)
  next
    case (Some a)
    define port where "port = uint (fr_LocalPort req)"
    have port: "fr_LocalPort req = 53 \<longleftrightarrow> port = 53"
      unfolding port_def using word_uint_eq_iff [of "fr_LocalPort req" 53] by simp
    show ?thesis
    proof (cases "port = 53 \<and> dns")
      case True
      with ok Some assms handleTCP_address [of dns x req d] show ?thesis
        by (auto simp: handleTCP_def dnsPort_def port_def)
    next
      case dial: False
      obtain r d1 where r: "DialTCP a port d = (r, d1)" by force
      show ?thesis
      proof (cases r)
        case (Inl e)
        with ok Some dial r assms port handleTCP_address [of dns x req d] show ?thesis
          by (auto simp: handleTCP_def dnsPort_def port_def [symmetric])
      next
        case (Inr up)
        then have acts: "acts = [Complete False, Dial a port, Pump up, CloseUpstream up, CloseConn]" "d' = d1"
          using ok Some dial r assms by (auto simp: handleTCP_def dnsPort_def port_def [symmetric])
        from DialTCP_opens r Inr obtain s s' t n where o:
          "d_session d = Some s" "dial_target a port = Some t" "Open t s = (Inr n, s')"
          "d_session d1 = Some s'" "up = StreamConn n \<or> (\<exists>c. up = NewSanitizedConn n c)"
          by metis
        have "handleTCP dns (req\<lparr>fr_LocalAddress := x\<rparr>) d = (acts, d')"
          using assms by (simp add: handleTCP_address)
        moreover have "\<not> (dns \<and> fr_LocalPort req = 53)" using dial port by blast
        ultimately show ?thesis using ok Some acts o unfolding port_def [symmetric] by auto
      qed
    qed
  qed
qed

definition demo_request :: flow_request where
  "demo_request = \<lparr>fr_create_ok = True, fr_remote = Some [10, 0, 0, 2], fr_LocalAddress = [1, 2, 3, 4],
     fr_LocalPort = 443\<rparr>"

theorem tcp_flow_witness:
  "\<exists>mid. fst (handleTCP True demo_request demo_dialer) = Complete False # mid @ [CloseConn]
    \<and> (\<forall>a p. Dial a p \<in> set (fst (handleTCP True demo_request demo_dialer)) \<longrightarrow> a = [10, 0, 0, 2] \<and> p = 443)"
proof -
  obtain acts d' where run: "handleTCP True demo_request demo_dialer = (acts, d')" by force
  from tcp_flow [OF run, where x = "[5, 6, 7, 8]"] show ?thesis unfolding run by (auto simp: demo_request_def)
qed

text \<open>UDP: one answer at most, and only for a query to port 53 with a local resolver.\<close>

lemma udp_only_dns:
  "handleUDP dns up req datagram u = ((handled, sent), u') \<Longrightarrow>
    length sent \<le> 1 \<and> (sent \<noteq> [] \<longrightarrow> dns \<and> uint (fr_LocalPort req) = 53 \<and> handled
      \<and> (\<exists>b. datagram = Some b \<and> up (take 4096 b) u = (Inr (hd sent), u')))
    \<and> (u' \<noteq> u \<longrightarrow> dns \<and> uint (fr_LocalPort req) = 53)"
  by (auto simp: handleUDP_def dnsPort_def split: if_splits option.splits prod.splits sum.splits)

section \<open>The pump\<close>

lemma pump_reachable_inv: "(pump_step a b)\<^sup>*\<^sup>* new_pump p \<Longrightarrow> pump_inv a b p"
  using pumpm.invariant by blast

text \<open>A run in which everything of the client's direction is copied and the stream is not told.\<close>

lemma half_close_lost:
  "\<exists>q. (pump_step GonetTCPConn (flow_kind up))\<^sup>*\<^sup>* new_pump q \<and> cp_written (pm_to_b q) = req
    \<and> cp_done (pm_to_b q) \<and> \<not> cp_failed (pm_to_b q) \<and> \<not> cp_closed_write (pm_to_b q) \<and> \<not> pm_closed q"
proof -
  define c1 where "c1 = new_copier\<lparr>cp_arrived := req, cp_pending := req\<rparr>"
  define c2 where "c2 = c1\<lparr>cp_eof := True\<rparr>"
  define c3 where "c3 = copy_chunk (length req) c2"
  define c4 where "c4 = copy_finish (flow_kind up) c3"
  let ?step = "pump_step GonetTCPConn (flow_kind up)"
  have "copy_step k new_copier c1" for k
    using copy_step.arrive [of new_copier k req] by (simp add: c1_def new_copier_def)
  then have "?step new_pump (new_pump\<lparr>pm_to_b := c1\<rparr>)"
    by (intro pump_step.to_b) (simp_all add: new_pump_def)
  moreover have "?step (new_pump\<lparr>pm_to_b := c1\<rparr>) (new_pump\<lparr>pm_to_b := c2\<rparr>)"
    using pump_step.to_b [OF copy_step.eof, of "new_pump\<lparr>pm_to_b := c1\<rparr>"]
    by (simp add: c2_def new_pump_def)
  moreover have "copy_step (flow_kind up) c2 c3"
    unfolding c3_def by (rule copy_step.chunk) (simp add: c2_def c1_def new_copier_def)
  then have "?step (new_pump\<lparr>pm_to_b := c2\<rparr>) (new_pump\<lparr>pm_to_b := c3\<rparr>)"
    using pump_step.to_b [of "flow_kind up" "new_pump\<lparr>pm_to_b := c2\<rparr>" c3] by (simp add: new_pump_def)
  moreover have "copy_step (flow_kind up) c3 c4"
    unfolding c4_def by (rule copy_step.finish) (simp_all add: c3_def c2_def c1_def new_copier_def copy_chunk_def)
  then have "?step (new_pump\<lparr>pm_to_b := c3\<rparr>) (new_pump\<lparr>pm_to_b := c4\<rparr>)"
    using pump_step.to_b [of "flow_kind up" "new_pump\<lparr>pm_to_b := c3\<rparr>" c4] by (simp add: new_pump_def)
  ultimately have "?step\<^sup>*\<^sup>* new_pump (new_pump\<lparr>pm_to_b := c4\<rparr>)"
    by (meson converse_rtranclp_into_rtranclp r_into_rtranclp)
  moreover have "cp_written c4 = req \<and> cp_done c4 \<and> \<not> cp_failed c4 \<and> \<not> cp_closed_write c4"
    by (simp add: c4_def c3_def c2_def c1_def new_copier_def copy_chunk_def copy_finish_def flow_kind_def
        split: flow_conn.split)
  ultimately show ?thesis by (intro exI [of _ "new_pump\<lparr>pm_to_b := c4\<rparr>"]) (simp add: new_pump_def)
qed

text \<open>C40: The pump between an accepted flow and its stream. In every interleaving each side has been
  written a prefix of what arrived at the other, in order; both are closed only after both
  directions are done; a direction that ends without a failure has copied everything. But neither
  kind of connection is a \<open>*net.TCPConn\<close>, so no half-close is ever passed on: there are runs where
  the client has ended its direction and everything of it was copied, and the stream was not told.\<close>

theorem pump_relays:
  assumes "(pump_step GonetTCPConn (flow_kind up))\<^sup>*\<^sup>* new_pump p"
  shows "cp_arrived (pm_to_a p) = cp_written (pm_to_a p) @ cp_pending (pm_to_a p)
    \<and> cp_arrived (pm_to_b p) = cp_written (pm_to_b p) @ cp_pending (pm_to_b p)
    \<and> (pm_closed p \<longrightarrow> cp_done (pm_to_a p) \<and> cp_done (pm_to_b p))
    \<and> (\<forall>c\<in>{pm_to_a p, pm_to_b p}. cp_done c \<and> \<not> cp_failed c \<longrightarrow> cp_eof c \<and> cp_written c = cp_arrived c)
    \<and> \<not> cp_closed_write (pm_to_a p) \<and> \<not> cp_closed_write (pm_to_b p)
    \<and> (\<exists>q. (pump_step GonetTCPConn (flow_kind up))\<^sup>*\<^sup>* new_pump q \<and> cp_written (pm_to_b q) = req
        \<and> cp_done (pm_to_b q) \<and> \<not> cp_failed (pm_to_b q) \<and> \<not> cp_closed_write (pm_to_b q) \<and> \<not> pm_closed q)"
  using pump_reachable_inv [OF assms] half_close_lost [of up req]
  by (auto simp: pump_inv_def copier_inv_def flow_kind_def split: flow_conn.splits)

definition demo_pump :: pump where
  "demo_pump = new_pump\<lparr>pm_to_b := new_copier\<lparr>cp_arrived := [71], cp_pending := [71]\<rparr>\<rparr>"

lemma demo_pump_reachable: "(pump_step a b)\<^sup>*\<^sup>* new_pump demo_pump"
  using pump_step.to_b [OF copy_step.arrive, of new_pump a b "[71]"]
  by (auto simp: demo_pump_def new_pump_def new_copier_def intro: r_into_rtranclp)

theorem pump_relays_witness:
  "cp_arrived (pm_to_b demo_pump) = [71] \<and> \<not> cp_closed_write (pm_to_b demo_pump) \<and>
   (\<exists>q. (pump_step GonetTCPConn RelayStreamConn)\<^sup>*\<^sup>* new_pump q \<and> cp_written (pm_to_b q) = [71]
     \<and> cp_done (pm_to_b q) \<and> \<not> cp_closed_write (pm_to_b q))"
proof -
  have "flow_kind (StreamConn 1) = RelayStreamConn" by (simp add: flow_kind_def)
  with pump_relays [OF demo_pump_reachable, of "StreamConn 1" "[71]"] show ?thesis
    by (auto simp: demo_pump_def)
qed

end
