(* ===== verification/Control.thy ===== *)
theory Control
  imports Daemon Machine
begin

text \<open>
  The control plane: the daemon's construction, its \<open>Status\<close> and \<open>Reconnect\<close>
  (desktop/internal/daemon/daemon.go), the loopback HTTP server in front of them
  (desktop/internal/api/server.go), and the life of the run loop as the reconnect channel sees it,
  a channel of capacity one between the requests and the two selects that receive from it.
\<close>

section \<open>The daemon's construction and status\<close>

text \<open>\<open>open_journal\<close> is \<open>failsafe.Open\<close> on the files found at the path; the server is made iff enabled.\<close>

definition Daemon_New :: "(string \<Rightarrow> journal_err + journal) \<Rightarrow> Config \<Rightarrow> 'w \<Rightarrow> journal_err + ('w daemon \<times> bool)" where
  "Daemon_New open_journal c w =
     (let journalPath = (if JournalPath (c_Daemon c) = '''' then ''toppa-journal.json''
                         else JournalPath (c_Daemon c))
      in case open_journal journalPath of
           Inl e \<Rightarrow> Inl e
         | Inr j \<Rightarrow> Inr (\<lparr>d_state = ''offline'', d_transport = '''', d_journal = j, d_system = w, d_log = []\<rparr>,
                         a_Enabled (c_API c)))"

record status =
  st_State :: string
  st_Transport :: string

definition Status :: "'w daemon \<Rightarrow> status" where
  "Status d = \<lparr>st_State = d_state d, st_Transport = d_transport d\<rparr>"

section \<open>The run loop and the reconnect channel\<close>

text \<open>
  Where the run loop is: in \<open>connect\<close> before the session's select, at that select, at the select of
  the backoff, or returned.
\<close>

datatype phase = AtConnect | AtSession | AtBackoff | Returned

record control =
  ct_phase :: phase
  ct_reconnect :: nat
  ct_online :: nat

definition new_control :: control where
  "new_control = \<lparr>ct_phase = AtConnect, ct_reconnect = 0, ct_online = 0\<rparr>"

definition Reconnect :: "control \<Rightarrow> control" where
  "Reconnect c = (if ct_reconnect c < 1 then c\<lparr>ct_reconnect := ct_reconnect c + 1\<rparr> else c)"

definition take_reconnect :: "phase \<Rightarrow> control \<Rightarrow> control" where
  "take_reconnect p c = c\<lparr>ct_phase := p, ct_reconnect := ct_reconnect c - 1\<rparr>"

text \<open>The steps; \<open>ct_online\<close> counts the sessions that went online.\<close>

inductive ct_step :: "control \<Rightarrow> control \<Rightarrow> bool" where
  request: "ct_step c (Reconnect c)"
| online: "ct_phase c = AtConnect \<Longrightarrow> ct_step c (c\<lparr>ct_phase := AtSession, ct_online := ct_online c + 1\<rparr>)"
| failed: "ct_phase c = AtConnect \<Longrightarrow> ct_step c (c\<lparr>ct_phase := AtBackoff\<rparr>)"
| session_down: "ct_phase c = AtSession \<Longrightarrow> ct_step c (c\<lparr>ct_phase := AtBackoff\<rparr>)"
| session_reconnect: "ct_phase c = AtSession \<Longrightarrow> ct_reconnect c > 0 \<Longrightarrow> ct_step c (take_reconnect AtBackoff c)"
| timer: "ct_phase c = AtBackoff \<Longrightarrow> ct_step c (c\<lparr>ct_phase := AtConnect\<rparr>)"
| backoff_reconnect: "ct_phase c = AtBackoff \<Longrightarrow> ct_reconnect c > 0 \<Longrightarrow> ct_step c (take_reconnect AtConnect c)"
| cancelled: "ct_step c (c\<lparr>ct_phase := Returned\<rparr>)"

inductive_cases ct_stepE: "ct_step c c'"

interpretation ctm: machine "\<lambda>c. c = new_control" ct_step "\<lambda>c. ct_reconnect c \<le> 1"
proof unfold_locales
  fix c d
  show "c = new_control \<Longrightarrow> ct_reconnect c \<le> 1" by (simp add: new_control_def)
  show "ct_reconnect c \<le> 1 \<Longrightarrow> ct_step c d \<Longrightarrow> ct_reconnect d \<le> 1"
    by (erule ct_step.cases) (auto simp: Reconnect_def take_reconnect_def)
qed

section \<open>The server\<close>

datatype http_result = OK_JSON bytes | OK_Text string | MethodNotAllowed string | NotFound

text \<open>
  The routes of \<open>NewServer\<close>: the result and the control state after the request. \<open>encode\<close> is
  encoding/json's encoder.
\<close>

definition serve_request :: "(status \<Rightarrow> bytes) \<Rightarrow> string \<Rightarrow> string \<Rightarrow> status \<Rightarrow> control \<Rightarrow> http_result \<times> control" where
  "serve_request encode meth path st c =
     (if path = ''/status'' then (OK_JSON (encode st), c)
      else if path = ''/reconnect''
      then (if meth \<noteq> ''POST'' then (MethodNotAllowed ''POST only'', c) else (OK_Text ''ok'', Reconnect c))
      else (NotFound, c))"

fun serve_requests :: "(status \<Rightarrow> bytes) \<Rightarrow> (string \<times> string) list \<Rightarrow> status \<Rightarrow> control \<Rightarrow> control" where
  "serve_requests encode [] st c = c"
| "serve_requests encode ((meth, path) # rs) st c =
     serve_requests encode rs st (snd (serve_request encode meth path st c))"

section \<open>Properties\<close>

lemma Reconnect_idem: "ct_reconnect c \<le> 1 \<Longrightarrow> Reconnect (Reconnect c) = Reconnect c"
  by (simp add: Reconnect_def)

lemma serve_requests_effect:
  "ct_reconnect c \<le> 1 \<Longrightarrow>
    serve_requests encode rs st c = (if (''POST'', ''/reconnect'') \<in> set rs then Reconnect c else c)"
proof (induction rs arbitrary: c)
  case (Cons r rs)
  obtain m p where r: "r = (m, p)" by force
  have "ct_reconnect (Reconnect c) \<le> 1" using Cons.prems by (simp add: Reconnect_def)
  with Cons Reconnect_idem [of c] show ?case by (auto simp: r serve_request_def)
qed simp

text \<open>The control plane can only ask for a reconnect, and requests coalesce: in every reachable
  state at most one is pending, and any sequence of HTTP requests leaves the daemon as one
  \<open>Reconnect\<close> does when it has a POST of /reconnect, and unchanged when it has none. A request that
  finds a session online ends it and is used up by that, so the loop then waits out its backoff
  unless there is another one; a request made before the session is online ends it as soon as it is.\<close>

lemma reconnect_coalesces:
  assumes "ct_step\<^sup>*\<^sup>* new_control c"
  shows "ct_reconnect c \<le> 1
    \<and> serve_requests encode rs st c = (if (''POST'', ''/reconnect'') \<in> set rs then Reconnect c else c)
    \<and> (ct_phase c = AtSession \<and> ct_reconnect c = 0 \<longrightarrow>
        (\<exists>c'. ct_step (Reconnect c) c' \<and> ct_phase c' = AtBackoff \<and> ct_reconnect c' = 0
          \<and> (\<forall>c''. ct_step c' c'' \<longrightarrow> ct_phase c'' = AtConnect \<longrightarrow> c'' = c'\<lparr>ct_phase := AtConnect\<rparr>)))
    \<and> (ct_phase c = AtConnect \<longrightarrow>
        (\<exists>c' c''. ct_step (Reconnect c) c' \<and> ct_phase c' = AtSession \<and> ct_online c' = ct_online c + 1
          \<and> ct_step c' c'' \<and> ct_phase c'' = AtBackoff \<and> ct_reconnect c'' = 0))"
proof -
  have le: "ct_reconnect c \<le> 1" using ctm.invariant assms by blast
  have session: "\<exists>c'. ct_step (Reconnect c) c' \<and> ct_phase c' = AtBackoff \<and> ct_reconnect c' = 0
      \<and> (\<forall>c''. ct_step c' c'' \<longrightarrow> ct_phase c'' = AtConnect \<longrightarrow> c'' = c'\<lparr>ct_phase := AtConnect\<rparr>)"
    if "ct_phase c = AtSession" "ct_reconnect c = 0"
  proof (intro exI conjI allI impI)
    show "ct_step (Reconnect c) (take_reconnect AtBackoff (Reconnect c))"
      using that by (intro ct_step.session_reconnect) (simp_all add: Reconnect_def)
    show "ct_phase (take_reconnect AtBackoff (Reconnect c)) = AtBackoff"
      "ct_reconnect (take_reconnect AtBackoff (Reconnect c)) = 0"
      using that by (simp_all add: Reconnect_def take_reconnect_def)
    fix c''
    assume "ct_step (take_reconnect AtBackoff (Reconnect c)) c''" "ct_phase c'' = AtConnect"
    then show "c'' = (take_reconnect AtBackoff (Reconnect c))\<lparr>ct_phase := AtConnect\<rparr>"
      using that by cases (auto simp: Reconnect_def take_reconnect_def split: if_splits)
  qed
  have stale: "\<exists>c' c''. ct_step (Reconnect c) c' \<and> ct_phase c' = AtSession \<and> ct_online c' = ct_online c + 1
      \<and> ct_step c' c'' \<and> ct_phase c'' = AtBackoff \<and> ct_reconnect c'' = 0"
    if "ct_phase c = AtConnect"
  proof -
    let ?c1 = "(Reconnect c)\<lparr>ct_phase := AtSession, ct_online := ct_online (Reconnect c) + 1\<rparr>"
    have "ct_step (Reconnect c) ?c1"
      using that by (intro ct_step.online) (simp add: Reconnect_def)
    moreover have "ct_step ?c1 (take_reconnect AtBackoff ?c1)"
      using le by (intro ct_step.session_reconnect) (auto simp: Reconnect_def)
    moreover have "ct_reconnect (take_reconnect AtBackoff ?c1) = 0" "ct_online ?c1 = ct_online c + 1"
      using le by (auto simp: take_reconnect_def Reconnect_def)
    moreover have "ct_phase ?c1 = AtSession" "ct_phase (take_reconnect AtBackoff ?c1) = AtBackoff"
      by (simp_all add: take_reconnect_def)
    ultimately show ?thesis by blast
  qed
  from le serve_requests_effect [OF le] session stale show ?thesis by blast
qed

definition demo_requests :: "(string \<times> string) list" where
  "demo_requests = [(''GET'', ''/status''), (''POST'', ''/reconnect''), (''POST'', ''/reconnect'')]"

lemma reconnect_coalesces_example:
  "ct_reconnect (serve_requests (\<lambda>st. bytes_of_string (st_State st)) demo_requests
     \<lparr>st_State = ''online'', st_Transport = ''usb''\<rparr> new_control) = 1"
proof -
  have "(''POST'', ''/reconnect'') \<in> set demo_requests" by (simp add: demo_requests_def)
  with reconnect_coalesces [OF rtranclp.rtrancl_refl, where rs = demo_requests
      and encode = "\<lambda>st. bytes_of_string (st_State st)" and st = "\<lparr>st_State = ''online'', st_Transport = ''usb''\<rparr>"]
  show ?thesis by (simp add: Reconnect_def new_control_def)
qed

end
