(* ===== verification/Flags.thy ===== *)
theory Flags
  imports Go_Strings
begin

unbundle bit_operations_syntax

text \<open>
  The command line as the tools read it: Go's package flag with string and integer flags and the
  error handling \<open>ExitOnError\<close> that all of them use, and \<open>strconv.ParseInt\<close> with base 0 behind an
  integer flag.
\<close>

section \<open>Integers\<close>

definition lower :: "char \<Rightarrow> nat" where
  "lower c = (of_char c OR 0x20)"

definition digit_value :: "char \<Rightarrow> nat option" where
  "digit_value c =
     (let n = of_char c in
      if 0x30 \<le> n \<and> n \<le> 0x39 then Some (n - 0x30)
      else if 0x61 \<le> lower c \<and> lower c \<le> 0x7A then Some (lower c - 0x61 + 10)
      else None)"

text \<open>The digits of a number in a base; underscores are skipped.\<close>

fun digits_value :: "nat \<Rightarrow> nat \<Rightarrow> string \<Rightarrow> nat option" where
  "digits_value base acc [] = Some acc"
| "digits_value base acc (c # cs) =
     (if c = CHR ''_'' then digits_value base acc cs
      else (case digit_value c of
              None \<Rightarrow> None
            | Some d \<Rightarrow> if d \<ge> base then None else digits_value base (acc * base + d) cs))"

text \<open>Base 0: the base from the prefix, and the digits that are left.\<close>

fun base_prefix :: "string \<Rightarrow> nat \<times> string" where
  "base_prefix (z # c # d # cs) =
     (if z \<noteq> CHR ''0'' then (10, z # c # d # cs)
      else if lower c = of_char CHR ''b'' then (2, d # cs)
      else if lower c = of_char CHR ''o'' then (8, d # cs)
      else if lower c = of_char CHR ''x'' then (16, d # cs)
      else (8, c # d # cs))"
| "base_prefix (z # cs) = (if z = CHR ''0'' then (8, cs) else (10, z # cs))"
| "base_prefix [] = (10, [])"

text \<open>
  An underscore stands between two digits, the base prefix counting as one. What came before:
  a digit, an underscore, or neither.
\<close>

datatype before = ADigit | AnUnderscore | Neither

fun underscores_from :: "bool \<Rightarrow> before \<Rightarrow> string \<Rightarrow> bool" where
  "underscores_from hx i [] = (i \<noteq> AnUnderscore)"
| "underscores_from hx i (c # cs) =
     (if (0x30 \<le> (of_char c :: nat) \<and> (of_char c :: nat) \<le> 0x39) \<or> (hx \<and> 0x61 \<le> lower c \<and> lower c \<le> 0x66)
      then underscores_from hx ADigit cs
      else if c = CHR ''_'' then i = ADigit \<and> underscores_from hx AnUnderscore cs
      else i \<noteq> AnUnderscore \<and> underscores_from hx Neither cs)"

definition underscoreOK :: "string \<Rightarrow> bool" where
  "underscoreOK s =
     (case s of
        z # c # cs \<Rightarrow>
          (if z = CHR ''0'' \<and> lower c \<in> {of_char CHR ''b'', of_char CHR ''o'', of_char CHR ''x''}
           then underscores_from (lower c = of_char CHR ''x'') ADigit cs
           else underscores_from False Neither s)
      | _ \<Rightarrow> underscores_from False Neither s)"

text \<open>\<open>ParseInt(s, 0, 64)\<close>: the value, or no value for a syntax or a range error.\<close>

definition ParseInt :: "string \<Rightarrow> int option" where
  "ParseInt s =
     (let neg = (s \<noteq> [] \<and> hd s = CHR ''-'');
          u = (if s \<noteq> [] \<and> hd s \<in> {CHR ''+'', CHR ''-''} then tl s else s)
      in if u = [] then None
         else (case base_prefix u of
                 (base, ds) \<Rightarrow>
                   (case digits_value base 0 ds of
                      None \<Rightarrow> None
                    | Some n \<Rightarrow>
                        (if CHR ''_'' \<in> set ds \<and> \<not> underscoreOK u then None
                         else if \<not> neg \<and> n \<ge> 2 ^ 63 \<or> neg \<and> n > 2 ^ 63 then None
                         else Some (if neg then - int n else int n)))))"

section \<open>The flag set\<close>

datatype flag_value = StringFlag string | IntFlag int

datatype flag_err =
    BadSyntax string | HelpRequested | NotDefined string | NeedsArgument string | InvalidValue string string

definition set_value :: "string \<Rightarrow> flag_value \<Rightarrow> flag_value option" where
  "set_value v fv =
     (case fv of
        StringFlag _ \<Rightarrow> Some (StringFlag v)
      | IntFlag _ \<Rightarrow> map_option IntFlag (ParseInt v))"

definition split_equals :: "string \<Rightarrow> string \<times> string option" where
  "split_equals name =
     (let n = hd name # takeWhile (\<lambda>c. c \<noteq> CHR ''='') (tl name)
      in (n, if length n < length name then Some (drop (length n + 1) name) else None))"

text \<open>
  \<open>FlagSet.parseOne\<close>: the flags (the map of the set) and the arguments after it, and whether there
  was a flag; \<open>set_flag\<close> is its end, the value being set.
\<close>

definition set_flag :: "(string \<rightharpoonup> flag_value) \<Rightarrow> string \<Rightarrow> flag_value \<Rightarrow> string \<Rightarrow> string list
    \<Rightarrow> flag_err + (string \<rightharpoonup> flag_value) \<times> string list \<times> bool" where
  "set_flag fl name fv v args =
     (case set_value v fv of
        None \<Rightarrow> Inl (InvalidValue v name)
      | Some fv' \<Rightarrow> Inr (fl(name \<mapsto> fv'), args, True))"

definition parseOne :: "(string \<rightharpoonup> flag_value) \<Rightarrow> string list
    \<Rightarrow> flag_err + (string \<rightharpoonup> flag_value) \<times> string list \<times> bool" where
  "parseOne fl args =
     (case args of
        [] \<Rightarrow> Inr (fl, [], False)
      | s # rest \<Rightarrow>
          (if length s < 2 \<or> hd s \<noteq> CHR ''-'' then Inr (fl, args, False)
           else if s = ''--'' then Inr (fl, rest, False)
           else
             (let body = (if s ! 1 = CHR ''-'' then drop 2 s else drop 1 s)
              in if body = [] \<or> hd body = CHR ''-'' \<or> hd body = CHR ''='' then Inl (BadSyntax s)
                 else
                   (case split_equals body of
                      (name, given) \<Rightarrow>
                        (case fl name of
                           None \<Rightarrow> Inl (if name = ''help'' \<or> name = ''h'' then HelpRequested else NotDefined name)
                         | Some fv \<Rightarrow>
                             (case given of
                                Some v \<Rightarrow> set_flag fl name fv v rest
                              | None \<Rightarrow>
                                  (case rest of
                                     [] \<Rightarrow> Inl (NeedsArgument name)
                                   | v # rest' \<Rightarrow> set_flag fl name fv v rest')))))))"

lemma set_flag_more: "set_flag fl name fv v args = Inr (fl', args', m) \<Longrightarrow> args' = args \<and> m"
  by (auto simp: set_flag_def split: option.splits)

lemma parseOne_shorter:
  "parseOne fl args = Inr (fl', args', True) \<Longrightarrow> length args' < length args"
  by (auto simp: parseOne_def Let_def split: list.splits if_splits prod.splits option.splits dest!: set_flag_more)

text \<open>\<open>FlagSet.Parse\<close>.\<close>

function flag_parse :: "(string \<rightharpoonup> flag_value) \<Rightarrow> string list
    \<Rightarrow> flag_err + (string \<rightharpoonup> flag_value) \<times> string list" where
  "flag_parse fl args =
     (case parseOne fl args of
        Inl e \<Rightarrow> Inl e
      | Inr (fl', args', more) \<Rightarrow> if more then flag_parse fl' args' else Inr (fl', args'))"
  by pat_completeness auto
termination
  by (relation "measure (\<lambda>(fl, args). length args)") (auto dest: parseOne_shorter)

declare flag_parse.simps [simp del]

text \<open>The exit status with which \<open>ExitOnError\<close> ends the process.\<close>

definition flag_exit :: "flag_err \<Rightarrow> nat" where
  "flag_exit e = (if e = HelpRequested then 0 else 2)"

definition string_flag :: "(string \<rightharpoonup> flag_value) \<Rightarrow> string \<Rightarrow> string" where
  "string_flag fl name = (case fl name of Some (StringFlag s) \<Rightarrow> s | _ \<Rightarrow> [])"

definition int_flag :: "(string \<rightharpoonup> flag_value) \<Rightarrow> string \<Rightarrow> int" where
  "int_flag fl name = (case fl name of Some (IntFlag n) \<Rightarrow> n | _ \<Rightarrow> 0)"

section \<open>Facts\<close>

text \<open>A flag keeps its kind and no flag appears, so \<open>string_flag\<close> and \<open>int_flag\<close> of a declared flag read it.\<close>

fun same_kind :: "flag_value option \<Rightarrow> flag_value option \<Rightarrow> bool" where
  "same_kind None None = True"
| "same_kind (Some (StringFlag _)) (Some (StringFlag _)) = True"
| "same_kind (Some (IntFlag _)) (Some (IntFlag _)) = True"
| "same_kind _ _ = False"

lemma same_kind_refl: "same_kind a a"
  by (cases "(a, a)" rule: same_kind.cases) auto

lemma same_kind_trans: "same_kind a b \<Longrightarrow> same_kind b c \<Longrightarrow> same_kind a c"
  by (cases "(a, b)" rule: same_kind.cases; cases "(b, c)" rule: same_kind.cases) auto

lemma set_value_kind: "set_value v fv = Some fv' \<Longrightarrow> same_kind (Some fv) (Some fv')"
  by (auto simp: set_value_def split: flag_value.splits)

lemma set_flag_kind:
  assumes "set_flag fl m fv v args = Inr (fl', args', more)" and "fl m = Some fv"
  shows "same_kind (fl name) (fl' name)"
  using assms by (auto simp: set_flag_def same_kind_refl set_value_kind split: option.splits)

lemma parseOne_kind:
  "parseOne fl args = Inr (fl', args', more) \<Longrightarrow> same_kind (fl name) (fl' name)"
  by (auto simp: parseOne_def Let_def same_kind_refl
      split: list.splits if_splits prod.splits option.splits intro: set_flag_kind)

lemma flag_parse_kinds:
  "flag_parse fl args = Inr (fl', rest) \<Longrightarrow> same_kind (fl name) (fl' name)"
proof (induction fl args rule: flag_parse.induct)
  case (1 fl args)
  from 1(2) obtain fl1 args1 more where one: "parseOne fl args = Inr (fl1, args1, more)"
    by (subst (asm) flag_parse.simps) (auto split: sum.splits prod.splits)
  show ?case
  proof (cases more)
    case True
    with 1(2) one have "flag_parse fl1 args1 = Inr (fl', rest)" by (simp add: flag_parse.simps [of fl])
    with 1(1) [OF one _ _ True] parseOne_kind [OF one] show ?thesis by (blast intro: same_kind_trans)
  next
    case False
    with 1(2) one parseOne_kind [OF one] show ?thesis by (simp add: flag_parse.simps [of fl])
  qed
qed

text \<open>Arguments that do not start with a dash leave the flags as declared.\<close>

lemma flag_parse_plain:
  "args = [] \<or> hd args = [] \<or> hd (hd args) \<noteq> CHR ''-'' \<Longrightarrow> flag_parse fl args = Inr (fl, args)"
  by (subst flag_parse.simps) (auto simp: parseOne_def split: list.split)

lemmas ParseInt_eval = ParseInt_def underscoreOK_def digit_value_def lower_def

lemma ParseInt_examples:
  "ParseInt ''64'' = Some 64" "ParseInt ''-0x1F'' = Some (- 31)" "ParseInt ''1_000'' = Some 1000"
  "ParseInt ''010'' = Some 8" "ParseInt ''0b_101'' = Some 5" "ParseInt ''0'' = Some 0"
  "ParseInt ''08'' = None" "ParseInt ''1__0'' = None" "ParseInt ''x'' = None" "ParseInt '''' = None"
  "ParseInt ''9223372036854775808'' = None" "ParseInt ''-9223372036854775808'' = Some (- (2 ^ 63))"
  by (simp_all add: ParseInt_eval)

end
