(* ===== verification/Service.thy ===== *)
theory Service
  imports Daemon_Properties Control Flags
begin

text \<open>
  The elevated service, desktop/cmd/toppasvc/main.go: it reads its flag, loads the configuration,
  makes the daemon, runs it until a signal, and exits with 0 when it was told to stop and 1 when it
  failed. The files,
  the world the daemon meets and the signal are arguments; a run that has not ended has no code.
\<close>

definition svc_flags :: "string \<rightharpoonup> flag_value" where
  "svc_flags = [''config'' \<mapsto> StringFlag []]"

definition toppasvc_main :: "(string \<Rightarrow> 'e + bytes) \<Rightarrow> (bytes \<Rightarrow> Config \<Rightarrow> 'e + Config) \<Rightarrow> string list
    \<Rightarrow> (string \<Rightarrow> journal_err + journal) \<Rightarrow> 'w sys \<Rightarrow> string option \<Rightarrow> bool \<Rightarrow> 'w loop_round list \<Rightarrow> 'w
    \<Rightarrow> nat option \<times> 'w daemon option" where
  "toppasvc_main read decode args open_journal sys api_err signalled rs w =
     (case flag_parse svc_flags args of
        Inl e \<Rightarrow> (Some (flag_exit e), None)
      | Inr (fl, _) \<Rightarrow>
          (case Load read decode (string_flag fl ''config'') of
             Inl _ \<Rightarrow> (Some 1, None)
           | Inr c \<Rightarrow>
               (case Daemon_New open_journal c w of
                  Inl _ \<Rightarrow> (Some 1, None)
                | Inr (d, _) \<Rightarrow>
                    (case Run c sys api_err rs d of
                       (None, _, d') \<Rightarrow> (None, Some d')
                     | (Some err, _, d') \<Rightarrow>
                         (Some (if err \<noteq> Cancelled \<and> \<not> signalled then 1 else 0), Some d')))))"

text \<open>How the connections of a run have ended, in order.\<close>

fun loop_outcomes :: "Config \<Rightarrow> 'w sys \<Rightarrow> 'w loop_round list \<Rightarrow> 'w daemon \<Rightarrow> daemon_err option list" where
  "loop_outcomes c sys [] d = []"
| "loop_outcomes c sys (r # rs) d =
     (if r_cancelled r then []
      else (case connect c sys (r_host r) d of
              (e, d1) \<Rightarrow>
                e # (if e \<noteq> None \<and> r_cancelled_after r \<or> r_wait r = CtxDone then []
                     else loop_outcomes c sys rs d1)))"

definition service_outcomes :: "Config \<Rightarrow> 'w sys \<Rightarrow> 'w loop_round list \<Rightarrow> 'w daemon \<Rightarrow> daemon_err option list" where
  "service_outcomes c sys rs d =
     (case Manager_Reconcile (s_run sys) (d_journal d) (d_system d) of
        (_, j, w) \<Rightarrow> loop_outcomes c sys rs (d\<lparr>d_journal := j, d_system := w\<rparr>))"

text \<open>
  No route change is in force after these outcomes: none failed in applying the routes after the
  last session that ended. The flag is the state before them.
\<close>

fun leaves_clean :: "bool \<Rightarrow> daemon_err option list \<Rightarrow> bool" where
  "leaves_clean b [] = b"
| "leaves_clean b (None # es) = leaves_clean True es"
| "leaves_clean b (Some (RoutesErr _) # es) = leaves_clean False es"
| "leaves_clean b (Some _ # es) = leaves_clean b es"

lemma connect_leaves:
  assumes "ends_as (j, w) e (j', w')" and "b \<longrightarrow> Outstanding j = []" and "leaves_clean b (e # es)"
  shows "\<exists>b'. leaves_clean b' es \<and> (b' \<longrightarrow> Outstanding j' = []) \<and> sound j'"
proof (cases e)
  case None
  with assms show ?thesis by (intro exI [of _ True]) (simp add: ends_as_def)
next
  case (Some err)
  show ?thesis
  proof (cases "\<exists>m. err = RoutesErr m")
    case True
    with assms Some show ?thesis by (intro exI [of _ False]) (auto simp: ends_as_def)
  next
    case False
    with assms Some show ?thesis
      by (intro exI [of _ b]) (cases err; auto simp: ends_as_def)
  qed
qed

lemma Run_loop_leaves:
  assumes "fresh_ids (s_gen sys)" and "\<And>cmd v. fst (s_run sys cmd v) = None"
    and "sound (d_journal d)" and "b \<longrightarrow> Outstanding (d_journal d) = []"
    and "leaves_clean b (loop_outcomes c sys rs d)" and "Run_loop c sys backoff rs d = (x, ds, d')"
  shows "Outstanding (d_journal d') = [] \<and> sound (d_journal d')"
  using assms(3-)
proof (induction rs arbitrary: d b backoff x ds)
  case Nil
  then show ?case by simp
next
  case (Cons r rs)
  show ?case
  proof (cases "r_cancelled r")
    case True
    with Cons.prems show ?thesis by simp
  next
    case False
    obtain e d1 where run: "connect c sys (r_host r) d = (e, d1)" by force
    from connect_ends [OF Cons.prems(1) assms(1,2) run]
    have ends: "ends_as (d_journal d, d_system d) e (d_journal d1, d_system d1)" .
    let ?rest = "if e \<noteq> None \<and> r_cancelled_after r \<or> r_wait r = CtxDone then [] else loop_outcomes c sys rs d1"
    have "leaves_clean b (e # ?rest)" using Cons.prems(3) False by (simp add: run)
    from connect_leaves [OF ends Cons.prems(2) this] obtain b' where
      b': "leaves_clean b' ?rest" "b' \<longrightarrow> Outstanding (d_journal d1) = []" "sound (d_journal d1)" by blast
    show ?thesis
    proof (cases "e \<noteq> None \<and> r_cancelled_after r \<or> r_wait r = CtxDone")
      case True
      with b' have "Outstanding (d_journal d1) = []" by (simp add: if_P)
      moreover have "d' = d1" using Cons.prems(4) False True by (auto simp: run Let_def split: if_splits)
      ultimately show ?thesis using b'(3) by simp
    next
      case go: False
      then have "leaves_clean b' (loop_outcomes c sys rs d1)" using b'(1) by (auto split: if_splits)
      moreover obtain b2 y es where "Run_loop c sys b2 rs d1 = (y, es, d')"
        using Cons.prems(4) False go by (auto simp: run Let_def split: if_splits prod.splits)
      ultimately show ?thesis using Cons.IH [OF b'(3,2)] by blast
    qed
  qed
qed

lemma Reconcile_sound:
  assumes "sound j" and "\<And>cmd v. fst (s_run sys cmd v) = None"
    and "Manager_Reconcile (s_run sys) j w = (r, j', w')"
  shows "snd r = None \<and> Outstanding j' = [] \<and> sound j'
    \<and> w' = fold (\<lambda>e v. snd (run_undo (s_run sys) (Undo e) v)) (rev (Outstanding j)) w"
proof -
  have "\<forall>x\<in>set (Outstanding j). \<forall>v. fst (run_undo (s_run sys) (Undo x) v) = None"
    using run_undo_ok [of "s_run sys"] assms(2) by blast
  with RollbackAll_all [of j "\<lambda>x. run_undo (s_run sys) (Undo x)" w] assms(1,3) show ?thesis
    by (auto simp: sound_def Manager_Reconcile_def)
qed

text \<open>C31: The service is fail-safe at its ends. With a valid configuration, a journal with distinct
  ids that can be written, undo commands that succeed and a control API that binds: whatever the
  last run left in the journal is undone, last change first, before the first connection; the
  service never exits with 1; and after any rounds of connecting no change to the system's routes
  and name servers is left, if none of its connections failed in applying the routes after the last
  session that ended. (A failed attempt leaves its changes in force until the next session ends or
  the service is started again, also when it exits with 0.)\<close>

theorem service_stops_clean:
  assumes "flag_parse svc_flags args = Inr (fl, rest)"
    and "Load read decode (string_flag fl ''config'') = Inr c" and "Daemon_New open_journal c w = Inr (d0, api)"
    and "sound (d_journal d0)" and "fresh_ids (s_gen sys)" and "\<And>cmd v. fst (s_run sys cmd v) = None"
    and "toppasvc_main read decode args open_journal sys None signalled rs w = (code, Some d)"
  shows "code \<in> {None, Some 0}
    \<and> (leaves_clean True (service_outcomes c sys rs d0) \<longrightarrow> Outstanding (d_journal d) = [])
    \<and> (rs = [] \<longrightarrow> d_system d =
        fold (\<lambda>e v. snd (run_undo (s_run sys) (Undo e) v)) (rev (Outstanding (d_journal d0))) w)"
proof -
  obtain r j w1 where rec: "Manager_Reconcile (s_run sys) (d_journal d0) (d_system d0) = (r, j, w1)"
    by (metis prod_cases3)
  note clean = Reconcile_sound [OF assms(4,6) rec]
  define d1 where "d1 = d0\<lparr>d_journal := j, d_system := w1\<rparr>"
  obtain x ds d2 where loop: "Run_loop c sys (millis (ReconnectInitialMs (c_Daemon c))) rs d1 = (x, ds, d2)"
    by (metis prod_cases3)
  have run: "Run c sys None rs d0 = (case x of CtxErr \<Rightarrow> Some Cancelled | StillRunning \<Rightarrow> None, ds, d2)"
  proof -
    obtain n where "r = (n, None)" using clean by (cases r) simp
    then show ?thesis by (simp add: Run_def rec d1_def [symmetric] loop split: loop_end.split)
  qed
  have code: "code \<in> {None, Some 0}" "d = d2"
    using assms(7) by (auto simp: toppasvc_main_def assms(1,2,3) run split: loop_end.splits)
  have sys0: "d_system d0 = w"
    using assms(3) by (auto simp: Daemon_New_def Let_def split: sum.splits)
  have "Outstanding (d_journal d2) = []" if "leaves_clean True (service_outcomes c sys rs d0)"
    using Run_loop_leaves [OF assms(5,6) _ _ _ loop, of True] clean that
    by (simp add: service_outcomes_def rec d1_def)
  moreover have "d_system d2 = w1" if "rs = []" using loop that by (auto simp: d1_def)
  ultimately show ?thesis using code clean sys0 by auto
qed

definition svc_round :: "string list list loop_round" where
  "svc_round = \<lparr>r_cancelled = False, r_host = demo_host, r_cancelled_after = False, r_rand = (\<lambda>n. 0),
     r_wait = CtxDone\<rparr>"

definition svc_entry :: entry where
  "svc_entry = \<lparr>ID = ''z'', Description = [], Apply = [], Undo = [''undo left''], State = StatePending\<rparr>"

definition svc_journal :: journal where
  "svc_journal = \<lparr>entries = [svc_entry], jfile = Some (Whole [svc_entry]), jtmp = None, faults = []\<rparr>"

definition svc_daemon :: "string list list daemon" where
  "svc_daemon = \<lparr>d_state = ''offline'', d_transport = [], d_journal = svc_journal, d_system = [], d_log = []\<rparr>"

lemma svc_outcomes: "service_outcomes Default demo_sys [svc_round] svc_daemon = [None]"
  by code_simp

text \<open>A service that finds an entry of a run that crashed, connects once and is stopped.\<close>

theorem service_stops_clean_witness:
  "\<exists>d. toppasvc_main (\<lambda>_. Inl ()) (\<lambda>_ c. Inr c) [''-config'', []] (\<lambda>_. Inr svc_journal) demo_sys None True [svc_round] []
      = (Some 0, Some d) \<and> Outstanding (d_journal d) = []"
proof -
  have fl: "flag_parse svc_flags [''-config'', []] = Inr (svc_flags, [])"
    by (simp add: flag_parse.simps parseOne_def split_equals_def set_flag_def set_value_def svc_flags_def)
  have load: "Load (\<lambda>_. Inl ()) (\<lambda>_ c. Inr c) (string_flag svc_flags ''config'') = Inr Default" by code_simp
  obtain api where new: "Daemon_New (\<lambda>_. Inr svc_journal) Default [] = Inr (svc_daemon, api)"
    by (simp add: Daemon_New_def svc_daemon_def)
  have snd: "sound (d_journal svc_daemon)" by (simp add: svc_daemon_def sound_def svc_journal_def)
  have run: "\<And>cmd v. fst (s_run demo_sys cmd v) = None" by (simp add: demo_sys_def)
  obtain e ds d where r: "Run Default demo_sys None [svc_round] svc_daemon = (e, ds, d)" by (metis prod_cases3)
  have "fst (Run Default demo_sys None [svc_round] svc_daemon) = Some Cancelled" by code_simp
  with r have main: "toppasvc_main (\<lambda>_. Inl ()) (\<lambda>_ c. Inr c) [''-config'', []] (\<lambda>_. Inr svc_journal) demo_sys None True
      [svc_round] [] = (Some 0, Some d)"
    by (simp add: toppasvc_main_def fl load new)
  show ?thesis
    using service_stops_clean [OF fl load new snd demo_fresh_ids run main] main by (simp add: svc_outcomes)
qed

end
