(* ===== verification/Shutdown.thy ===== *)
theory Shutdown
  imports Machine
begin

text \<open>
  The end of a session at the grain of its locks: \<open>writeFrame\<close> and \<open>closeWithError\<close> of
  desktop/internal/mux/session.go as the programs of any number of goroutines. \<open>writeMu\<close> is held
  during the write to the connection, \<open>closeOnce\<close> lets one caller in and makes the others wait for
  it, and a write to the connection returns when the connection has taken the bytes or has been
  closed. Theory Session takes each of these methods for one step; this is what that leaves out.
\<close>

text \<open>
  Where a goroutine is: outside; at \<open>writeMu.Lock\<close>; inside the connection's \<open>Write\<close>; behind the
  GOAWAY, at \<open>closed.Store(true)\<close>; waiting in \<open>closeOnce.Do\<close>; returned from \<open>closeWithError\<close>. The flag
  of a write is whether it is the GOAWAY of \<open>closeWithError\<close>. \<open>sd_once\<close> is the goroutine that entered
  \<open>closeOnce\<close>.
\<close>

datatype goroutine = Outside | AtLock bool | InWrite bool | AtStore | AtOnce | ClosedIt

record shutdown =
  sd_at :: "nat \<Rightarrow> goroutine"
  sd_mutex :: "nat option"
  sd_once :: "nat option"
  sd_finished :: bool
  sd_closed :: bool
  sd_conn_closed :: bool

definition new_shutdown :: shutdown where
  "new_shutdown = \<lparr>sd_at = (\<lambda>_. Outside), sd_mutex = None, sd_once = None, sd_finished = False,
     sd_closed = False, sd_conn_closed = False\<rparr>"

definition goto :: "nat \<Rightarrow> goroutine \<Rightarrow> shutdown \<Rightarrow> shutdown" where
  "goto k g s = s\<lparr>sd_at := (sd_at s)(k := g)\<rparr>"

definition behind_write :: "bool \<Rightarrow> goroutine" where
  "behind_write goaway = (if goaway then AtStore else Outside)"

text \<open>The steps of goroutine \<open>k\<close>; \<open>takes\<close> says whether the connection takes bytes.\<close>

definition call_close :: "nat \<Rightarrow> shutdown \<Rightarrow> shutdown" where
  "call_close k s =
     (if sd_finished s then goto k ClosedIt s
      else if sd_once s \<noteq> None then goto k AtOnce s
      else goto k (AtLock True) (s\<lparr>sd_once := Some k\<rparr>))"

definition take_lock :: "nat \<Rightarrow> bool \<Rightarrow> shutdown \<Rightarrow> shutdown" where
  "take_lock k goaway s =
     (if sd_closed s then goto k (behind_write goaway) s
      else goto k (InWrite goaway) (s\<lparr>sd_mutex := Some k\<rparr>))"

definition end_write :: "nat \<Rightarrow> bool \<Rightarrow> shutdown \<Rightarrow> shutdown" where
  "end_write k goaway s = goto k (behind_write goaway) (s\<lparr>sd_mutex := None\<rparr>)"

definition store_closed :: "nat \<Rightarrow> shutdown \<Rightarrow> shutdown" where
  "store_closed k s =
     goto k ClosedIt (s\<lparr>sd_closed := True, sd_conn_closed := True, sd_finished := True\<rparr>)"

inductive shutdown_move :: "bool \<Rightarrow> nat \<Rightarrow> shutdown \<Rightarrow> shutdown \<Rightarrow> bool" for takes k where
  call_write: "sd_at s k = Outside \<Longrightarrow> shutdown_move takes k s (goto k (AtLock False) s)"
| call_close: "sd_at s k = Outside \<Longrightarrow> shutdown_move takes k s (call_close k s)"
| take_lock: "sd_at s k = AtLock goaway \<Longrightarrow> sd_mutex s = None \<Longrightarrow>
    shutdown_move takes k s (take_lock k goaway s)"
| end_write: "sd_at s k = InWrite goaway \<Longrightarrow> takes \<or> sd_conn_closed s \<Longrightarrow>
    shutdown_move takes k s (end_write k goaway s)"
| store: "sd_at s k = AtStore \<Longrightarrow> shutdown_move takes k s (store_closed k s)"
| once: "sd_at s k = AtOnce \<Longrightarrow> sd_finished s \<Longrightarrow> shutdown_move takes k s (goto k ClosedIt s)"

text \<open>A step is a move of one of the goroutines.\<close>

inductive shutdown_step :: "bool \<Rightarrow> shutdown \<Rightarrow> shutdown \<Rightarrow> bool" for takes where
  step: "shutdown_move takes k s t \<Longrightarrow> shutdown_step takes s t"

inductive_cases shutdown_stepE: "shutdown_step takes s t"

lemmas shutdown_defs = goto_def call_close_def take_lock_def end_write_def store_closed_def behind_write_def

section \<open>The invariant\<close>

fun closing :: "goroutine \<Rightarrow> bool" where
  "closing (AtLock g) = g"
| "closing (InWrite g) = g"
| "closing AtStore = True"
| "closing _ = False"

fun writing :: "goroutine \<Rightarrow> bool" where
  "writing (InWrite g) = True"
| "writing _ = False"

definition shutdown_inv :: "shutdown \<Rightarrow> bool" where
  "shutdown_inv s \<longleftrightarrow>
     (\<forall>k. writing (sd_at s k) \<longleftrightarrow> sd_mutex s = Some k) \<and>
     (\<forall>k. closing (sd_at s k) \<longleftrightarrow> sd_once s = Some k \<and> \<not> sd_finished s) \<and>
     sd_finished s = sd_closed s \<and> sd_conn_closed s = sd_closed s \<and>
     (\<forall>k. sd_at s k = ClosedIt \<longrightarrow> sd_finished s)"

lemma shutdown_invI:
  assumes "\<And>j. writing (sd_at t j) \<longleftrightarrow> sd_mutex t = Some j"
    and "\<And>j. closing (sd_at t j) \<longleftrightarrow> sd_once t = Some j \<and> \<not> sd_finished t"
    and "sd_finished t = sd_closed t" "sd_conn_closed t = sd_closed t"
    and "\<And>j. sd_at t j = ClosedIt \<Longrightarrow> sd_finished t"
  shows "shutdown_inv t"
  using assms by (simp add: shutdown_inv_def)

lemma shutdown_invD:
  assumes "shutdown_inv s"
  shows "writing (sd_at s j) \<longleftrightarrow> sd_mutex s = Some j"
    and "closing (sd_at s j) \<longleftrightarrow> sd_once s = Some j \<and> \<not> sd_finished s"
    and "sd_at s j = ClosedIt \<Longrightarrow> sd_finished s"
  using assms by (auto simp: shutdown_inv_def)

lemma shutdown_inv_flags:
  assumes "shutdown_inv s"
  shows "sd_closed s = sd_finished s" "sd_conn_closed s = sd_finished s"
  using assms by (auto simp: shutdown_inv_def)

lemma shutdown_move_inv:
  assumes move: "shutdown_move takes k s t" and inv: "shutdown_inv s"
  shows "shutdown_inv t"
  using move
proof cases
  case call_write
  with shutdown_invD [OF inv, of k] shutdown_invD [OF inv] shutdown_inv_flags [OF inv] show ?thesis
    by (intro shutdown_invI) (auto simp: goto_def split: if_splits)
next
  case call_close
  with shutdown_invD [OF inv, of k] shutdown_invD [OF inv] shutdown_inv_flags [OF inv] show ?thesis
    by (intro shutdown_invI) (auto simp: goto_def call_close_def split: if_splits)
next
  case (take_lock goaway)
  with shutdown_invD [OF inv, of k] shutdown_invD [OF inv] shutdown_inv_flags [OF inv] show ?thesis
    by (intro shutdown_invI) (auto simp: goto_def take_lock_def behind_write_def split: if_splits)
next
  case (end_write goaway)
  with shutdown_invD [OF inv, of k] shutdown_invD [OF inv] shutdown_inv_flags [OF inv] show ?thesis
    by (intro shutdown_invI) (auto simp: goto_def end_write_def behind_write_def split: if_splits)
next
  case store
  with shutdown_invD [OF inv, of k] shutdown_invD [OF inv] shutdown_inv_flags [OF inv] show ?thesis
    by (intro shutdown_invI) (auto simp: goto_def store_closed_def split: if_splits)
next
  case once
  with shutdown_invD [OF inv, of k] shutdown_invD [OF inv] shutdown_inv_flags [OF inv] show ?thesis
    by (intro shutdown_invI) (auto simp: goto_def split: if_splits)
qed

lemma shutdown_step_inv: "shutdown_step takes s t \<Longrightarrow> shutdown_inv s \<Longrightarrow> shutdown_inv t"
  by (auto elim!: shutdown_stepE intro: shutdown_move_inv)

interpretation shut: machine "\<lambda>s. s = new_shutdown" "shutdown_step takes" shutdown_inv for takes
proof unfold_locales
  show "shutdown_inv s" if "s = new_shutdown" for s
    using that by (simp add: new_shutdown_def shutdown_inv_def)
  show "shutdown_inv t" if "shutdown_inv s" and "shutdown_step takes s t" for s t
    using that(2,1) by (rule shutdown_step_inv)
qed

text \<open>Only the goroutine inside \<open>closeOnce\<close> stores: it is behind the GOAWAY, and no one else closes.\<close>

lemma one_closer:
  assumes "shutdown_inv s" and "closing (sd_at s j)" and "closing (sd_at s k)"
  shows "j = k"
  using shutdown_invD(2) [OF assms(1), of j] shutdown_invD(2) [OF assms(1), of k] assms(2,3) by simp

section \<open>A writer the peer does not read\<close>

text \<open>
  Goroutine \<open>j\<close> is in a write of a frame, the session is open and no caller of \<open>closeWithError\<close> has
  its GOAWAY behind it. While the connection takes nothing this stays so.
\<close>

definition stalled :: "nat \<Rightarrow> shutdown \<Rightarrow> bool" where
  "stalled j s \<longleftrightarrow> shutdown_inv s \<and> sd_at s j = InWrite False \<and> \<not> sd_finished s \<and> (\<forall>k. sd_at s k \<noteq> AtStore)"

lemma stalledD:
  assumes "stalled j s"
  shows "shutdown_inv s" "sd_at s j = InWrite False" "\<not> sd_finished s" "sd_at s k \<noteq> AtStore"
    and "sd_mutex s = Some j" "\<not> sd_closed s" "\<not> sd_conn_closed s" "sd_at s k \<noteq> ClosedIt"
  using assms shutdown_invD(1) [of s j] shutdown_invD(3) [of s k] shutdown_inv_flags [of s]
  by (auto simp: stalled_def)

lemma stalled_move:
  assumes "stalled j s" and step: "shutdown_move False k s t"
  shows "stalled j t"
proof -
  note s = stalledD [OF assms(1)]
  have "shutdown_inv t" using step s(1) by (rule shutdown_move_inv)
  moreover from step have "sd_at t j = InWrite False \<and> \<not> sd_finished t \<and> (\<forall>k. sd_at t k \<noteq> AtStore)"
  proof cases
    case call_write
    with s show ?thesis by (auto simp: goto_def)
  next
    case call_close
    with s show ?thesis by (auto simp: goto_def call_close_def)
  qed (use s in auto)
  ultimately show ?thesis by (simp add: stalled_def)
qed

lemma stalled_step: "stalled j s \<Longrightarrow> shutdown_step False s t \<Longrightarrow> stalled j t"
  by (auto elim!: shutdown_stepE intro: stalled_move)

interpretation stalled: machine "stalled j" "shutdown_step False" "stalled j" for j
  by unfold_locales (auto intro: stalled_step)

text \<open>A peer that does not read keeps a session from being closed. In every state the goroutines can
  reach in which one of them is in the write of a frame, the session is open and no
  \<open>closeWithError\<close> has its GOAWAY behind it: as long as the connection takes nothing, whatever the
  goroutines do from there (a \<open>Close\<close>, the \<open>closeWithError\<close> of the keep-alive timeout, further
  writes), \<open>closed\<close> is not set, the connection is not closed, no call of \<open>closeWithError\<close> returns, and
  the writer is still in its write.
\<close>

lemma stalled_peer_blocks_close:
  assumes "(shutdown_step True)\<^sup>*\<^sup>* new_shutdown s"
    and "sd_at s j = InWrite False" and "\<not> sd_closed s" and "\<not> (\<exists>k. sd_at s k = AtStore)"
    and run: "(shutdown_step False)\<^sup>*\<^sup>* s t"
  shows "\<not> sd_closed t \<and> \<not> sd_conn_closed t \<and> sd_at t j = InWrite False \<and> \<not> (\<exists>k. sd_at t k = ClosedIt)"
proof -
  have "shutdown_inv s" using assms(1) shut.invariant by blast
  with assms(2-4) have "stalled j s" by (auto simp: stalled_def shutdown_inv_flags)
  then have "stalled j t" using run by (rule stalled.invariant)
  from stalledD [OF this] show ?thesis by blast
qed

text \<open>Goroutine 0 in the write of a data frame, and what becomes of it when goroutine 1 calls \<open>Close\<close>.\<close>

definition writer_0 :: shutdown where
  "writer_0 = take_lock 0 False (goto 0 (AtLock False) new_shutdown)"

lemma writer_0_reached: "(shutdown_step takes)\<^sup>*\<^sup>* new_shutdown writer_0"
proof -
  have "shutdown_step takes new_shutdown (goto 0 (AtLock False) new_shutdown)"
    by (rule shutdown_step.step [OF shutdown_move.call_write]) (simp add: new_shutdown_def)
  moreover have "shutdown_step takes (goto 0 (AtLock False) new_shutdown) writer_0"
    unfolding writer_0_def by (rule shutdown_step.step [OF shutdown_move.take_lock]) (simp_all add: new_shutdown_def goto_def)
  ultimately show ?thesis by (meson converse_rtranclp_into_rtranclp r_into_rtranclp)
qed

lemma writer_0_state:
  "sd_at writer_0 0 = InWrite False" "\<not> sd_closed writer_0" "\<not> (\<exists>k. sd_at writer_0 k = AtStore)"
  "sd_at writer_0 1 = Outside"
  by (auto simp: writer_0_def take_lock_def goto_def new_shutdown_def)

lemma stalled_peer_blocks_close_example:
  "sd_at (call_close 1 writer_0) 1 = AtLock True \<and> \<not> sd_closed (call_close 1 writer_0) \<and>
   \<not> sd_conn_closed (call_close 1 writer_0)"
proof -
  have "(shutdown_step False)\<^sup>*\<^sup>* writer_0 (call_close 1 writer_0)"
    by (intro r_into_rtranclp shutdown_step.step [OF shutdown_move.call_close] writer_0_state)
  from stalled_peer_blocks_close [OF writer_0_reached writer_0_state(1-3) this]
  show ?thesis by (auto simp: call_close_def goto_def writer_0_def take_lock_def new_shutdown_def)
qed

section \<open>A peer that reads\<close>

fun closer_rank :: "goroutine \<Rightarrow> nat" where
  "closer_rank (AtLock _) = 3"
| "closer_rank (InWrite _) = 2"
| "closer_rank AtStore = 1"
| "closer_rank _ = 0"

definition close_rank :: "shutdown \<Rightarrow> nat" where
  "close_rank s =
     (case sd_once s of None \<Rightarrow> 0
      | Some k \<Rightarrow> closer_rank (sd_at s k) + (if sd_mutex s = None \<or> sd_mutex s = Some k then 0 else 1))"

definition shutting :: "shutdown \<Rightarrow> bool" where
  "shutting s \<longleftrightarrow> shutdown_inv s \<and> sd_once s \<noteq> None"

lemma shutting_move:
  assumes "shutting s" and move: "shutdown_move takes k s t"
  shows "shutting t"
proof -
  have "shutdown_inv t" using move assms(1) by (auto simp: shutting_def intro: shutdown_move_inv)
  moreover from move have "sd_once t \<noteq> None"
    by cases (use assms(1) in \<open>auto simp: shutting_def shutdown_defs split: if_splits\<close>)
  ultimately show ?thesis by (simp add: shutting_def)
qed

lemma shutting_step: "shutting s \<Longrightarrow> shutdown_step takes s t \<Longrightarrow> shutting t"
  by (auto elim!: shutdown_stepE intro: shutting_move)

lemma shutting_progress:
  assumes "shutting s" and "\<not> sd_finished s"
  shows "\<exists>k t. sd_at s k \<noteq> Outside \<and> shutdown_move True k s t \<and> close_rank t < close_rank s"
proof -
  obtain k where k: "sd_once s = Some k" using assms(1) by (auto simp: shutting_def)
  have inv: "shutdown_inv s" using assms(1) by (simp add: shutting_def)
  have c: "closing (sd_at s k)" using shutdown_invD(2) [OF inv, of k] k assms(2) by simp
  have fl: "\<not> sd_closed s" using shutdown_inv_flags [OF inv] assms(2) by simp
  have go: ?thesis if "shutdown_move True i s t" "sd_at s i \<noteq> Outside" "close_rank t < close_rank s" for i t
    using that by blast
  show ?thesis
  proof (cases "sd_at s k")
    case (AtLock g)
    with c have at: "sd_at s k = AtLock True" by simp
    show ?thesis
    proof (cases "sd_mutex s")
      case None
      with at k fl have "close_rank (take_lock k True s) < close_rank s"
        by (simp add: close_rank_def take_lock_def goto_def)
      with at show ?thesis by (intro go [OF shutdown_move.take_lock [OF at None]]) simp_all
    next
      case (Some j)
      with shutdown_invD(1) [OF inv, of j] obtain g where j: "sd_at s j = InWrite g"
        by (cases "sd_at s j") simp_all
      with at have "j \<noteq> k" by auto
      with at k Some have "close_rank (end_write j g s) < close_rank s"
        by (simp add: close_rank_def end_write_def goto_def)
      with j show ?thesis by (intro go [OF shutdown_move.end_write [OF j, of True]]) simp_all
    qed
  next
    case (InWrite g)
    with c have at: "sd_at s k = InWrite True" by simp
    with k have "close_rank (end_write k True s) < close_rank s"
      by (simp add: close_rank_def end_write_def goto_def behind_write_def)
    with at show ?thesis by (intro go [OF shutdown_move.end_write [OF at, of True]]) simp_all
  next
    case AtStore
    with k have "close_rank (store_closed k s) < close_rank s"
      by (simp add: close_rank_def store_closed_def goto_def)
    with AtStore show ?thesis by (intro go [OF shutdown_move.store [OF AtStore]]) simp_all
  qed (use c in simp_all)
qed

interpretation shutting: draining_machine shutting "shutdown_step True" shutting sd_finished close_rank
  by unfold_locales (auto intro: shutting_step, meson shutting_progress shutdown_step.step)

text \<open>With a peer that reads, a close that has begun can always finish: from every state the goroutines
  can reach in which some call of \<open>closeWithError\<close> is inside \<open>closeOnce\<close> there is a run, the connection
  taking the bytes of the writes ahead of the GOAWAY, that ends with the session and its
  connection closed.
\<close>

lemma close_completes:
  assumes "(shutdown_step True)\<^sup>*\<^sup>* new_shutdown s" and "sd_once s \<noteq> None"
  shows "\<exists>t. (shutdown_step True)\<^sup>*\<^sup>* s t \<and> sd_closed t \<and> sd_conn_closed t"
proof -
  have "shutting s" using assms shut.invariant by (auto simp: shutting_def)
  with shutting.drains obtain t where t: "(shutdown_step True)\<^sup>*\<^sup>* s t" "sd_finished t" by blast
  then have "shutdown_inv t" using assms(1) shut.invariant by (meson rtranclp_trans)
  with t show ?thesis by (auto simp: shutdown_inv_flags)
qed

lemma close_completes_example:
  "\<exists>t. (shutdown_step True)\<^sup>*\<^sup>* (call_close 1 writer_0) t \<and> sd_closed t \<and> sd_conn_closed t"
proof (rule close_completes)
  have "shutdown_step True writer_0 (call_close 1 writer_0)"
    by (intro shutdown_step.step [OF shutdown_move.call_close] writer_0_state)
  with writer_0_reached show "(shutdown_step True)\<^sup>*\<^sup>* new_shutdown (call_close 1 writer_0)"
    by (rule rtranclp.rtrancl_into_rtrancl)
  show "sd_once (call_close 1 writer_0) \<noteq> None"
    by (simp add: call_close_def goto_def writer_0_def take_lock_def new_shutdown_def)
qed

end
