(* ===== verification/Teardown.thy ===== *)
theory Teardown
  imports Shutdown Obfuscation
begin

text \<open>
  The deferred calls of the daemon's \<open>connect\<close> (desktop/internal/daemon/daemon.go) with the
  goroutines they wait for: \<open>Stop\<close> of the padding injector, which closes a channel and waits for the
  injector's goroutine (desktop/internal/obfuscation/obfuscation.go), then \<open>Close\<close> of the session at
  the grain of theory Shutdown, then \<open>Close\<close> of the connection. Goroutine 0 of the session's lock is
  the injector, goroutine 1 the daemon; all the others (flows, the receive loop, the keep-alive)
  do what they like.
\<close>

section \<open>The programs\<close>

text \<open>The injector: at its select, in \<open>PingPayload\<close>, or returned, when \<open>stopped\<close> is closed.\<close>

datatype injector = InjSelect | InjPing | InjExited

text \<open>The daemon: before \<open>Stop\<close>, at its receive, before, in and after the session's \<open>Close\<close>, and out.\<close>

datatype leaving = BeforeStop | AtStopped | BeforeClose | InClose | BeforeConnClose | Left

record teardown =
  td_ses :: shutdown
  td_stop :: bool
  td_injector :: injector
  td_daemon :: leaving

definition NewPaddingInjector :: "Settings \<Rightarrow> teardown" where
  "NewPaddingInjector st = \<lparr>td_ses = new_shutdown, td_stop = False,
     td_injector = if PaddingInterval st \<le> 0 then InjExited else InjSelect, td_daemon = BeforeStop\<rparr>"

definition injector_Stop :: "teardown \<Rightarrow> teardown" where
  "injector_Stop s = s\<lparr>td_stop := True, td_daemon := AtStopped\<rparr>"

definition injector_tick :: "teardown \<Rightarrow> teardown" where
  "injector_tick s = s\<lparr>td_ses := goto 0 (AtLock False) (td_ses s), td_injector := InjPing\<rparr>"

definition session_Close :: "teardown \<Rightarrow> teardown" where
  "session_Close s = s\<lparr>td_ses := call_close 1 (td_ses s), td_daemon := InClose\<rparr>"

definition conn_Close :: "teardown \<Rightarrow> teardown" where
  "conn_Close s = s\<lparr>td_ses := (td_ses s)\<lparr>sd_conn_closed := True\<rparr>, td_daemon := Left\<rparr>"

definition pos :: "nat \<Rightarrow> teardown \<Rightarrow> goroutine" where
  "pos k s = sd_at (td_ses s) k"

inductive teardown_step :: "bool \<Rightarrow> teardown \<Rightarrow> teardown \<Rightarrow> bool" for takes where
  others: "2 \<le> k \<Longrightarrow> shutdown_move takes k (td_ses s) u \<Longrightarrow> teardown_step takes s (s\<lparr>td_ses := u\<rparr>)"
| tick: "td_injector s = InjSelect \<Longrightarrow> teardown_step takes s (injector_tick s)"
| pinging: "td_injector s = InjPing \<Longrightarrow> pos 0 s \<noteq> Outside \<Longrightarrow> shutdown_move takes 0 (td_ses s) u \<Longrightarrow>
    teardown_step takes s (s\<lparr>td_ses := u\<rparr>)"
| pinged: "td_injector s = InjPing \<Longrightarrow> pos 0 s = Outside \<Longrightarrow> teardown_step takes s (s\<lparr>td_injector := InjSelect\<rparr>)"
| ping_failed: "td_injector s = InjPing \<Longrightarrow> pos 0 s = Outside \<Longrightarrow> teardown_step takes s (s\<lparr>td_injector := InjExited\<rparr>)"
| inj_stop: "td_injector s = InjSelect \<Longrightarrow> td_stop s \<Longrightarrow> teardown_step takes s (s\<lparr>td_injector := InjExited\<rparr>)"
| stop: "td_daemon s = BeforeStop \<Longrightarrow> teardown_step takes s (injector_Stop s)"
| stopped: "td_daemon s = AtStopped \<Longrightarrow> td_injector s = InjExited \<Longrightarrow>
    teardown_step takes s (s\<lparr>td_daemon := BeforeClose\<rparr>)"
| close: "td_daemon s = BeforeClose \<Longrightarrow> teardown_step takes s (session_Close s)"
| closing: "td_daemon s = InClose \<Longrightarrow> shutdown_move takes 1 (td_ses s) u \<Longrightarrow>
    teardown_step takes s (s\<lparr>td_ses := u\<rparr>)"
| closed: "td_daemon s = InClose \<Longrightarrow> pos 1 s = ClosedIt \<Longrightarrow>
    teardown_step takes s (s\<lparr>td_daemon := BeforeConnClose\<rparr>)"
| conn: "td_daemon s = BeforeConnClose \<Longrightarrow> teardown_step takes s (conn_Close s)"

section \<open>The invariant\<close>

lemma move_others: "shutdown_move takes k s t \<Longrightarrow> j \<noteq> k \<Longrightarrow> sd_at t j = sd_at s j"
  by (erule shutdown_move.cases) (auto simp: shutdown_defs)

lemma move_writer:
  "shutdown_move takes k s t \<Longrightarrow> sd_at s k \<in> {AtLock False, InWrite False} \<Longrightarrow>
    sd_at t k \<in> {Outside, AtLock False, InWrite False}"
  by (erule shutdown_move.cases) (auto simp: shutdown_defs split: if_splits)

definition in_close :: "goroutine \<Rightarrow> bool" where
  "in_close g \<longleftrightarrow> g \<in> {AtLock True, InWrite True, AtStore, AtOnce, ClosedIt}"

lemma move_closer: "shutdown_move takes k s t \<Longrightarrow> in_close (sd_at s k) \<Longrightarrow> in_close (sd_at t k)"
  by (erule shutdown_move.cases) (auto simp: shutdown_defs in_close_def split: if_splits)

lemma move_begun:
  "shutdown_move takes k s t \<Longrightarrow> (sd_once s \<noteq> None \<longrightarrow> sd_once t \<noteq> None) \<and> (sd_finished s \<longrightarrow> sd_finished t)"
  by (erule shutdown_move.cases) (auto simp: shutdown_defs split: if_splits)

definition begun :: "shutdown \<Rightarrow> bool" where
  "begun s \<longleftrightarrow> sd_once s \<noteq> None \<or> sd_finished s"

definition teardown_inv :: "teardown \<Rightarrow> bool" where
  "teardown_inv s \<longleftrightarrow>
     shutdown_inv (td_ses s) \<and>
     (if td_injector s = InjPing then pos 0 s \<in> {Outside, AtLock False, InWrite False} else pos 0 s = Outside) \<and>
     (case td_daemon s of
        BeforeStop \<Rightarrow> pos 1 s = Outside
      | AtStopped \<Rightarrow> pos 1 s = Outside \<and> td_stop s
      | BeforeClose \<Rightarrow> pos 1 s = Outside \<and> td_injector s = InjExited
      | InClose \<Rightarrow> in_close (pos 1 s) \<and> begun (td_ses s) \<and> td_injector s = InjExited
      | _ \<Rightarrow> pos 1 s = ClosedIt \<and> td_injector s = InjExited)"

lemma teardown_inv_ses:
  assumes "teardown_inv s" and "shutdown_move takes k (td_ses s) u"
    and "k = 0 \<Longrightarrow> td_injector s = InjPing \<and> pos 0 s \<noteq> Outside" and "k = 1 \<Longrightarrow> td_daemon s = InClose"
  shows "teardown_inv (s\<lparr>td_ses := u\<rparr>)"
proof -
  have inv: "shutdown_inv u" using assms(1,2) by (auto simp: teardown_inv_def intro: shutdown_move_inv)
  have a0: "if td_injector s = InjPing then sd_at u 0 \<in> {Outside, AtLock False, InWrite False} else sd_at u 0 = Outside"
  proof (cases "k = 0")
    case True
    with assms(1,3) have "sd_at (td_ses s) k \<in> {AtLock False, InWrite False}"
      by (auto simp: teardown_inv_def pos_def)
    with move_writer [OF assms(2)] True assms(3) show ?thesis by auto
  next
    case False
    with move_others [OF assms(2), of 0] assms(1) show ?thesis
      by (auto simp: teardown_inv_def pos_def split: if_splits)
  qed
  have a1: "sd_at u 1 = pos 1 s \<or> td_daemon s = InClose \<and> in_close (sd_at u 1)"
  proof (cases "k = 1")
    case True
    with assms(1,4) move_closer [OF assms(2)] show ?thesis by (simp add: teardown_inv_def pos_def)
  next
    case False
    with move_others [OF assms(2), of 1] show ?thesis by (simp add: pos_def)
  qed
  have b: "begun (td_ses s) \<Longrightarrow> begun u" using move_begun [OF assms(2)] by (auto simp: begun_def)
  from inv a0 a1 b assms(1) show ?thesis
    by (auto simp: teardown_inv_def pos_def split: leaving.splits)
qed

lemma sd_at_goto: "sd_at (goto k g s) j = (if j = k then g else sd_at s j)"
  by (simp add: goto_def)

lemma goto_write_inv:
  "shutdown_inv s \<Longrightarrow> sd_at s k = Outside \<Longrightarrow> shutdown_inv (goto k (AtLock False) s)"
  by (rule shutdown_move_inv [OF shutdown_move.call_write])

lemma call_close_state:
  assumes "shutdown_inv s" and "sd_at s k = Outside"
  shows "shutdown_inv (call_close k s) \<and> in_close (sd_at (call_close k s) k) \<and> begun (call_close k s)
    \<and> (j \<noteq> k \<longrightarrow> sd_at (call_close k s) j = sd_at s j)"
  using shutdown_move_inv [OF shutdown_move.call_close] assms
  by (auto simp: call_close_def goto_def in_close_def begun_def)

lemma teardown_step_inv: "teardown_inv s \<Longrightarrow> teardown_step takes s t \<Longrightarrow> teardown_inv t"
proof (erule teardown_step.cases, goal_cases)
  case (1 k s' u)
  then show ?case using teardown_inv_ses [of s takes k u] by auto
next
  case (2 s')
  then show ?case
    by (auto simp: teardown_inv_def pos_def injector_tick_def goto_write_inv sd_at_goto split: leaving.splits)
next
  case (3 s' u)
  then show ?case using teardown_inv_ses [of s takes 0 u] by auto
next
  case (9 s')
  then show ?case using call_close_state [of "td_ses s" 1 0]
    by (auto simp: teardown_inv_def pos_def session_Close_def)
next
  case (10 s' u)
  then show ?case using teardown_inv_ses [of s takes 1 u] by auto
next
  case (12 s')
  then have "sd_at (td_ses s) 1 = ClosedIt" "shutdown_inv (td_ses s)" by (simp_all add: teardown_inv_def pos_def)
  then have "sd_conn_closed (td_ses s)" using shutdown_invD(3) shutdown_inv_flags by blast
  then have "td_ses (conn_Close s) = td_ses s" by (simp add: conn_Close_def)
  with 12 show ?case by (auto simp: teardown_inv_def pos_def conn_Close_def)
qed (auto simp: teardown_inv_def pos_def injector_Stop_def split: leaving.splits)

interpretation teardown: machine "\<lambda>s. s = NewPaddingInjector st" "teardown_step takes" teardown_inv for st takes
proof unfold_locales
  show "teardown_inv s" if "s = NewPaddingInjector st" for s
    using that shut.inv_init by (simp add: teardown_inv_def pos_def NewPaddingInjector_def new_shutdown_def)
qed (rule teardown_step_inv)

section \<open>A peer that does not read\<close>

lemma stalled_teardown_step:
  assumes "stalled j (td_ses s)" and "teardown_inv s" and "teardown_step False s t"
  shows "stalled j (td_ses t)"
  using assms(3)
proof cases
  case (others k u)
  with stalled_move [OF assms(1)] show ?thesis by simp
next
  case tick
  then have "sd_at (td_ses s) 0 = Outside" using assms(2) by (simp add: teardown_inv_def pos_def)
  from stalled_move [OF assms(1) shutdown_move.call_write [OF this]] tick show ?thesis
    by (simp add: injector_tick_def)
next
  case (pinging u)
  with stalled_move [OF assms(1)] show ?thesis by simp
next
  case close
  then have "sd_at (td_ses s) 1 = Outside" using assms(2) by (simp add: teardown_inv_def pos_def)
  from stalled_move [OF assms(1) shutdown_move.call_close [OF this]] close show ?thesis
    by (simp add: session_Close_def)
next
  case (closing u)
  with stalled_move [OF assms(1)] show ?thesis by simp
next
  case conn
  then have "sd_at (td_ses s) 1 = ClosedIt" using assms(2) by (simp add: teardown_inv_def pos_def)
  with stalledD(8) [OF assms(1)] show ?thesis by blast
qed (use assms(1) in \<open>simp_all add: injector_Stop_def\<close>)

definition stuck :: "nat \<Rightarrow> teardown \<Rightarrow> bool" where
  "stuck j s \<longleftrightarrow> teardown_inv s \<and> stalled j (td_ses s)"

interpretation stuck: machine "stuck j" "teardown_step False" "stuck j" for j
  by unfold_locales (auto simp: stuck_def intro: stalled_teardown_step teardown_step_inv)

text \<open>A connection that is being torn down does not get out while a writer is in its write.\<close>

lemma stuck_stays: "stuck j s \<Longrightarrow> td_daemon s \<noteq> Left"
  using stalledD(8) [of j "td_ses s" 1] by (auto simp: stuck_def teardown_inv_def pos_def)

section \<open>A peer that reads\<close>

fun injector_rank :: "injector \<Rightarrow> goroutine \<Rightarrow> bool \<Rightarrow> nat" where
  "injector_rank InjExited _ _ = 0"
| "injector_rank InjSelect _ _ = 1"
| "injector_rank InjPing (InWrite _) _ = 3"
| "injector_rank InjPing (AtLock _) free = (if free then 4 else 5)"
| "injector_rank InjPing _ _ = 2"

definition teardown_rank :: "teardown \<Rightarrow> nat" where
  "teardown_rank s =
     (case td_daemon s of
        BeforeStop \<Rightarrow> 50
      | AtStopped \<Rightarrow> 40 + injector_rank (td_injector s) (pos 0 s) (sd_mutex (td_ses s) = None)
      | BeforeClose \<Rightarrow> 30
      | InClose \<Rightarrow> 10 + (if pos 1 s = ClosedIt then 0 else if sd_finished (td_ses s) then 1
                       else 2 + close_rank (td_ses s))
      | BeforeConnClose \<Rightarrow> 5
      | Left \<Rightarrow> 0)"

lemma close_rank_bound: "close_rank s \<le> 4"
  by (cases "case sd_once s of None \<Rightarrow> Outside | Some k \<Rightarrow> sd_at s k")
    (auto simp: close_rank_def split: option.splits)

lemma injector_rank_bound: "injector_rank i g b \<le> 5"
  by (cases "(i, g, b)" rule: injector_rank.cases) auto

text \<open>The holder of the lock is in a write and can come out of it.\<close>

lemma holder_moves:
  assumes "shutdown_inv s" and "sd_mutex s = Some j"
  shows "\<exists>u. shutdown_move True j s u \<and> sd_mutex u = None \<and> (\<forall>k. k \<noteq> j \<longrightarrow> sd_at u k = sd_at s k)"
proof -
  from shutdown_invD(1) [OF assms(1), of j] assms(2) obtain g where g: "sd_at s j = InWrite g"
    by (cases "sd_at s j") simp_all
  from shutdown_move.end_write [OF g, of True] show ?thesis
    by (intro exI [of _ "end_write j g s"]) (simp add: end_write_def goto_def)
qed

lemma wait_for_injector:
  assumes inv: "teardown_inv s" and d: "td_daemon s = AtStopped"
  shows "\<exists>t. teardown_step True s t \<and> teardown_rank t < teardown_rank s"
proof -
  have ses: "shutdown_inv (td_ses s)" "pos 1 s = Outside" "td_stop s"
    using inv d by (simp_all add: teardown_inv_def)
  have go: ?thesis if "teardown_step True s t" "teardown_rank t < teardown_rank s" for t
    using that by blast
  show ?thesis
  proof (cases "td_injector s")
    case InjExited
    with d show ?thesis by (intro go [OF teardown_step.stopped]) (simp_all add: teardown_rank_def)
  next
    case InjSelect
    with d ses show ?thesis by (intro go [OF teardown_step.inj_stop]) (simp_all add: teardown_rank_def)
  next
    case ping: InjPing
    then consider (out) "pos 0 s = Outside" | (lock) "pos 0 s = AtLock False" | (wr) "pos 0 s = InWrite False"
      using inv by (auto simp: teardown_inv_def)
    then show ?thesis
    proof cases
      case out
      with ping d show ?thesis by (intro go [OF teardown_step.pinged]) (simp_all add: teardown_rank_def pos_def)
    next
      case wr
      then have mv: "shutdown_move True 0 (td_ses s) (end_write 0 False (td_ses s))"
        by (intro shutdown_move.end_write) (simp_all add: pos_def)
      with wr ping d show ?thesis
        by (intro go [OF teardown_step.pinging [OF ping _ mv]]) (simp_all add: teardown_rank_def pos_def end_write_def goto_def behind_write_def)
    next
      case lock
      show ?thesis
      proof (cases "sd_mutex (td_ses s)")
        case None
        with lock have mv: "shutdown_move True 0 (td_ses s) (take_lock 0 False (td_ses s))"
          by (intro shutdown_move.take_lock) (simp_all add: pos_def)
        with lock ping d None show ?thesis
          by (intro go [OF teardown_step.pinging [OF ping _ mv]])
            (simp_all add: teardown_rank_def pos_def take_lock_def goto_def behind_write_def)
      next
        case (Some j)
        with shutdown_invD(1) [OF ses(1), of j] lock ses(2) have "2 \<le> j"
          by (cases "j = 0"; cases "j = 1") (auto simp: pos_def)
        from holder_moves [OF ses(1) Some] obtain u where
          u: "shutdown_move True j (td_ses s) u" "sd_mutex u = None" "\<forall>k. k \<noteq> j \<longrightarrow> sd_at u k = sd_at (td_ses s) k"
          by blast
        with \<open>2 \<le> j\<close> lock ping d Some show ?thesis
          by (intro go [OF teardown_step.others [OF _ u(1)]]) (simp_all add: teardown_rank_def pos_def)
      qed
    qed
  qed
qed

lemma close_proceeds:
  assumes inv: "teardown_inv s" and d: "td_daemon s = InClose"
  shows "\<exists>t. teardown_step True s t \<and> teardown_rank t < teardown_rank s"
proof -
  have ses: "shutdown_inv (td_ses s)" "in_close (pos 1 s)" "begun (td_ses s)" "td_injector s = InjExited"
    "pos 0 s = Outside"
    using inv d by (simp_all add: teardown_inv_def)
  have go: ?thesis if "teardown_step True s t" "teardown_rank t < teardown_rank s" for t
    using that by blast
  show ?thesis
  proof (cases "pos 1 s = ClosedIt")
    case True
    with d show ?thesis by (intro go [OF teardown_step.closed]) (simp_all add: teardown_rank_def)
  next
    case unfinished: False
    show ?thesis
    proof (cases "sd_finished (td_ses s)")
      case fin: True
      with shutdown_invD(2) [OF ses(1), of 1] have "\<not> closing (pos 1 s)" by (simp add: pos_def)
      with ses(2) unfinished have "sd_at (td_ses s) 1 = AtOnce" by (auto simp: in_close_def pos_def)
      then have mv: "shutdown_move True 1 (td_ses s) (goto 1 ClosedIt (td_ses s))"
        using fin by (rule shutdown_move.once)
      with d unfinished fin show ?thesis
        by (intro go [OF teardown_step.closing [OF d mv]]) (simp_all add: teardown_rank_def pos_def goto_def)
    next
      case False
      with ses(1,3) have "shutting (td_ses s)" by (simp add: shutting_def begun_def)
      from shutting_progress [OF this False] obtain k u where
        k: "sd_at (td_ses s) k \<noteq> Outside" "shutdown_move True k (td_ses s) u" "close_rank u < close_rank (td_ses s)"
        by blast
      have step: "teardown_step True s (s\<lparr>td_ses := u\<rparr>)"
      proof (cases "k = 1")
        case True
        with k d show ?thesis by (intro teardown_step.closing) simp_all
      next
        case False
        with k(1) ses(5) have "2 \<le> k" by (cases k) (auto simp: pos_def)
        with k show ?thesis by (intro teardown_step.others) simp_all
      qed
      from k(3) d unfinished False show ?thesis by (intro go [OF step]) (simp add: teardown_rank_def pos_def)
    qed
  qed
qed

lemma teardown_progress:
  assumes "teardown_inv s" and "td_daemon s \<noteq> Left"
  shows "\<exists>t. teardown_step True s t \<and> teardown_rank t < teardown_rank s"
proof (cases "td_daemon s")
  case BeforeStop
  have "teardown_rank (injector_Stop s) < teardown_rank s"
    using BeforeStop injector_rank_bound [of "td_injector s" "pos 0 (injector_Stop s)" "sd_mutex (td_ses s) = None"]
    by (simp add: teardown_rank_def injector_Stop_def)
  with teardown_step.stop [OF BeforeStop] show ?thesis by blast
next
  case BeforeClose
  have "teardown_rank (session_Close s) < teardown_rank s"
    using BeforeClose close_rank_bound [of "td_ses (session_Close s)"]
    by (simp add: teardown_rank_def session_Close_def)
  with teardown_step.close [OF BeforeClose] show ?thesis by blast
next
  case BeforeConnClose
  then have "teardown_rank (conn_Close s) < teardown_rank s" by (simp add: teardown_rank_def conn_Close_def)
  with teardown_step.conn [OF BeforeConnClose] show ?thesis by blast
qed (use assms wait_for_injector close_proceeds in auto)

interpretation leaving: draining_machine "\<lambda>s. s = NewPaddingInjector st" "teardown_step True" teardown_inv
  "\<lambda>s. td_daemon s = Left" teardown_rank for st
  by unfold_locales (rule teardown_progress)

text \<open>C32: The teardown of a connection. From every state the goroutines can reach, before and during it and
  whatever the flows, the receive loop and the keep-alive do, the deferred calls of \<open>connect\<close> can come
  to their end when the peer takes what is written: the injector's goroutine exits, the session is
  closed, then the connection. But if a goroutine is in the write of a frame, the session is open and
  no \<open>closeWithError\<close> is behind its GOAWAY, then as long as the peer takes nothing \<open>connect\<close> does not
  return, and neither the session nor its connection is closed.\<close>

theorem connection_teardown:
  assumes "(teardown_step True)\<^sup>*\<^sup>* (NewPaddingInjector st) s"
  shows "(\<exists>t. (teardown_step True)\<^sup>*\<^sup>* s t \<and> td_daemon t = Left)
    \<and> (\<forall>j t. pos j s = InWrite False \<and> \<not> sd_closed (td_ses s) \<and> \<not> (\<exists>k. pos k s = AtStore)
        \<and> (teardown_step False)\<^sup>*\<^sup>* s t
      \<longrightarrow> td_daemon t \<noteq> Left \<and> \<not> sd_closed (td_ses t) \<and> \<not> sd_conn_closed (td_ses t))"
proof (intro conjI allI impI)
  show "\<exists>t. (teardown_step True)\<^sup>*\<^sup>* s t \<and> td_daemon t = Left"
    by (rule leaving.drains [OF refl assms])
next
  fix j t
  assume *: "pos j s = InWrite False \<and> \<not> sd_closed (td_ses s) \<and> \<not> (\<exists>k. pos k s = AtStore)
    \<and> (teardown_step False)\<^sup>*\<^sup>* s t"
  have inv: "teardown_inv s" by (rule teardown.invariant [OF refl assms])
  with * have "stuck j s" by (auto simp: stuck_def stalled_def pos_def teardown_inv_def shutdown_inv_flags)
  then have st: "stuck j t" using * stuck.invariant by blast
  with stalledD [of j "td_ses t"] show "td_daemon t \<noteq> Left" "\<not> sd_closed (td_ses t)" "\<not> sd_conn_closed (td_ses t)"
    using stuck_stays [OF st] by (simp_all add: stuck_def)
qed

text \<open>A flow, goroutine 2, in a write when the daemon begins to leave.\<close>

definition writer_2 :: teardown where
  "writer_2 = (NewPaddingInjector (SettingsFor ''light''))
     \<lparr>td_ses := take_lock 2 False (goto 2 (AtLock False) new_shutdown)\<rparr>"

lemma writer_2_reached: "(teardown_step takes)\<^sup>*\<^sup>* (NewPaddingInjector (SettingsFor ''light'')) writer_2"
proof -
  let ?s = "NewPaddingInjector (SettingsFor ''light'')"
  let ?t = "?s\<lparr>td_ses := goto 2 (AtLock False) new_shutdown\<rparr>"
  have "teardown_step takes ?s ?t"
    by (rule teardown_step.others [of 2])
      (auto simp: NewPaddingInjector_def new_shutdown_def intro: shutdown_move.call_write)
  moreover have "shutdown_move takes 2 (td_ses ?t) (take_lock 2 False (td_ses ?t))"
    by (rule shutdown_move.take_lock) (simp_all add: new_shutdown_def goto_def)
  then have "teardown_step takes ?t (?t\<lparr>td_ses := take_lock 2 False (td_ses ?t)\<rparr>)"
    by (intro teardown_step.others) simp_all
  ultimately show ?thesis by (simp add: writer_2_def)
qed

theorem connection_teardown_witness:
  "(\<exists>t. (teardown_step True)\<^sup>*\<^sup>* writer_2 t \<and> td_daemon t = Left)
   \<and> td_daemon (injector_Stop writer_2) = AtStopped \<and> \<not> sd_closed (td_ses (injector_Stop writer_2))"
proof -
  have "teardown_step False writer_2 (injector_Stop writer_2)"
    by (rule teardown_step.stop) (simp add: writer_2_def NewPaddingInjector_def)
  moreover have "pos 2 writer_2 = InWrite False" "\<not> sd_closed (td_ses writer_2)"
    "\<not> (\<exists>k. pos k writer_2 = AtStore)"
    by (auto simp: writer_2_def pos_def take_lock_def goto_def new_shutdown_def)
  ultimately show ?thesis using connection_teardown [OF writer_2_reached] by (simp add: injector_Stop_def r_into_rtranclp)
qed

end
