(* ===== verification/Commands.thy ===== *)
theory Commands
  imports Flags Config Host_Port Ping
begin

text \<open>
  The control tool's commands as whole programs, desktop/cmd/toppactl/main.go: the dispatch of
  \<open>main\<close>, the flags, the configuration and the store, and the exit status. The handshakes, the
  listener and the calls on the session are arguments with any outcome; what they do is in theories
  Handshake, Session and Ping. A process that has not ended has no status.
\<close>

section \<open>The process\<close>

text \<open>
  What a command meets: the files and the decoder of the configuration, the home directory, the
  store's codec and its source of randomness.
\<close>

record 'e env =
  e_read :: "string \<Rightarrow> 'e + bytes"
  e_decode :: "bytes \<Rightarrow> Config \<Rightarrow> 'e + Config"
  e_home :: "'e + string"
  e_join :: "string list \<Rightarrow> string"
  e_codec :: codec
  e_random :: "string + bytes"

text \<open>A command ends the process itself, returns its error, or is still running.\<close>

datatype 'a ended = ExitsWith nat | Returns "'a option" | RunsOn

definition fatal_status :: nat where "fatal_status = 1"

definition loadConfig :: "'e env \<Rightarrow> string \<Rightarrow> nat + Config" where
  "loadConfig env path =
     (case Load (e_read env) (e_decode env) path of Inl _ \<Rightarrow> Inl fatal_status | Inr c \<Rightarrow> Inr c)"

definition tunnel_addr :: "string \<Rightarrow> Config \<Rightarrow> string" where
  "tunnel_addr given c =
     (if given = [] then JoinHostPort ''127.0.0.1'' (Itoa (ListenPort (c_Tunnel c))) else given)"

definition keys_dir :: "'e env \<Rightarrow> Config \<Rightarrow> string" where
  "keys_dir env c = ResolveKeysDir (e_home env) (e_join env) c"

section \<open>serve\<close>

datatype 'e serve_err = ServeStore keys_err | ServeListen string 'e | ServeAccept 'e

definition serve_flags :: "string \<rightharpoonup> flag_value" where
  "serve_flags = [''config'' \<mapsto> StringFlag [], ''listen'' \<mapsto> StringFlag []]"

text \<open>
  \<open>listen addr\<close> is the error of binding, if any; \<open>hss\<close> are the handshakes of the connections accepted,
  and \<open>accept\<close> the error that ended accepting, if it has.
\<close>

definition runServe :: "'e env \<Rightarrow> (string \<Rightarrow> 'e option) \<Rightarrow> (bytes option \<Rightarrow> bytes option) list \<Rightarrow> 'e option
    \<Rightarrow> string list \<Rightarrow> disk \<Rightarrow> 'e serve_err ended \<times> disk" where
  "runServe env listen hss accept args k =
     (case flag_parse serve_flags args of
        Inl e \<Rightarrow> (ExitsWith (flag_exit e), k)
      | Inr (fl, _) \<Rightarrow>
          (case loadConfig env (string_flag fl ''config'') of
             Inl n \<Rightarrow> (ExitsWith n, k)
           | Inr c \<Rightarrow>
               (let addr = tunnel_addr (string_flag fl ''listen'') c;
                    dir = keys_dir env c
                in case open_store (e_codec env) dir (e_random env) k of
                     (Inl e, k') \<Rightarrow> (Returns (Some (ServeStore e)), k')
                   | (Inr (pinned, hasPin), k') \<Rightarrow>
                       (case listen addr of
                          Some e \<Rightarrow> (Returns (Some (ServeListen addr e)), k')
                        | None \<Rightarrow>
                            (case serve_loop (e_codec env) dir hasPin pinned hss k' of
                               (_, k'') \<Rightarrow>
                                 (case accept of
                                    None \<Rightarrow> (RunsOn, k'')
                                  | Some e \<Rightarrow> (Returns (Some (ServeAccept e)), k'')))))))"

section \<open>ping\<close>

datatype 'e ping_fail =
    BadCountOrSize | PingConn ping_err | PingOpen 'e | PingWrite 'e | PingRead 'e | EchoMismatch nat

definition ping_flags :: "string \<rightharpoonup> flag_value" where
  "ping_flags = [''config'' \<mapsto> StringFlag [], ''addr'' \<mapsto> StringFlag [], ''count'' \<mapsto> IntFlag 4,
     ''size'' \<mapsto> IntFlag (64 * 1024)]"

definition echo_target :: target where
  "echo_target = \<lparr>Network = NetTCP, ATYP = ATYPFQDN, Address = bytes_of_string ''echo.toppa.invalid'',
     Port = 0\<rparr>"

text \<open>
  The rounds, \<open>left\<close> of them from round \<open>i\<close> on: \<open>outcome i\<close> is the error of the round's \<open>Write\<close>, and the
  error of its \<open>ReadFull\<close> or the bytes it read.
\<close>

fun ping_rounds :: "bytes \<Rightarrow> (nat \<Rightarrow> 'e option \<times> ('e + bytes)) \<Rightarrow> nat \<Rightarrow> nat \<Rightarrow> 'e ping_fail option" where
  "ping_rounds payload outcome i 0 = None"
| "ping_rounds payload outcome i (Suc left) =
     (case outcome i of
        (Some e, _) \<Rightarrow> Some (PingWrite e)
      | (None, Inl e) \<Rightarrow> Some (PingRead e)
      | (None, Inr echo) \<Rightarrow>
          if \<not> bytesEqual payload echo then Some (EchoMismatch i)
          else ping_rounds payload outcome (i + 1) left)"

text \<open>\<open>hs\<close> is dialing the address and the handshake, \<open>open\<close> the session's \<open>Open\<close>: its error, if any.\<close>

definition runPing :: "'e env \<Rightarrow> (string \<Rightarrow> bytes option \<Rightarrow> bytes option) \<Rightarrow> (target \<Rightarrow> 'e option)
    \<Rightarrow> (nat \<Rightarrow> 'e option \<times> ('e + bytes)) \<Rightarrow> string list \<Rightarrow> disk \<Rightarrow> 'e ping_fail ended \<times> disk" where
  "runPing env hs opens outcome args k =
     (case flag_parse ping_flags args of
        Inl e \<Rightarrow> (ExitsWith (flag_exit e), k)
      | Inr (fl, _) \<Rightarrow>
          (let count = int_flag fl ''count''; sz = int_flag fl ''size''
           in if count < 1 \<or> sz < 1 then (Returns (Some BadCountOrSize), k)
              else
                (case loadConfig env (string_flag fl ''config'') of
                   Inl n \<Rightarrow> (ExitsWith n, k)
                 | Inr c \<Rightarrow>
                     (let addr = tunnel_addr (string_flag fl ''addr'') c
                      in case ping_conn (e_codec env) (keys_dir env c) (e_random env) (hs addr) k of
                           (Inl e, k') \<Rightarrow> (Returns (Some (PingConn e)), k')
                         | (Inr _, k') \<Rightarrow>
                             (case opens echo_target of
                                Some e \<Rightarrow> (Returns (Some (PingOpen e)), k')
                              | None \<Rightarrow>
                                  (Returns (ping_rounds (ping_payload (nat sz)) outcome 1 (nat count)), k'))))))"

section \<open>main\<close>

definition exit_status :: "'a ended \<Rightarrow> nat option" where
  "exit_status r =
     (case r of ExitsWith n \<Rightarrow> Some n | Returns None \<Rightarrow> Some 0 | Returns (Some _) \<Rightarrow> Some fatal_status
      | RunsOn \<Rightarrow> None)"

text \<open>\<open>args\<close> is \<open>os.Args\<close>, the program's name first; \<open>serve\<close> and \<open>ping\<close> are the two commands.\<close>

definition toppactl_main :: "(string list \<Rightarrow> disk \<Rightarrow> 'a ended \<times> disk) \<Rightarrow> (string list \<Rightarrow> disk \<Rightarrow> 'b ended \<times> disk)
    \<Rightarrow> string list \<Rightarrow> disk \<Rightarrow> nat option \<times> disk" where
  "toppactl_main serve ping args k =
     (if length args < 2 then (Some 2, k)
      else if args ! 1 = ''serve'' then (case serve (drop 2 args) k of (r, k') \<Rightarrow> (exit_status r, k'))
      else if args ! 1 = ''ping'' then (case ping (drop 2 args) k of (r, k') \<Rightarrow> (exit_status r, k'))
      else (Some 2, k))"

section \<open>Facts\<close>

lemma ping_rounds_ok:
  "ping_rounds payload outcome i n = None \<longleftrightarrow> map outcome [i..<i + n] = replicate n (None, Inr payload)"
proof (induction n arbitrary: i)
  case (Suc n)
  have "[i..<i + Suc n] = i # [i + 1..<(i + 1) + n]" by (simp add: upt_conv_Cons)
  with Suc [of "i + 1"] show ?case
    by (auto simp: bytesEqual_iff split: prod.splits option.splits sum.splits)
qed simp

text \<open>Every round wrote its payload and read it back.\<close>

definition echoed :: "bytes \<Rightarrow> (nat \<Rightarrow> 'e option \<times> ('e + bytes)) \<Rightarrow> nat \<Rightarrow> bool" where
  "echoed payload outcome n \<longleftrightarrow> map outcome [1..<n + 1] = replicate n (None, Inr payload)"

lemma ping_rounds_echoed: "ping_rounds payload outcome (Suc 0) n = None \<longleftrightarrow> echoed payload outcome n"
  using ping_rounds_ok [of payload outcome 1 n] by (simp add: echoed_def)

lemma serve_status:
  "exit_status (fst (runServe env listen hss accept args k)) = Some 0
    \<longleftrightarrow> flag_parse serve_flags args = Inl HelpRequested"
  by (auto simp: runServe_def exit_status_def loadConfig_def fatal_status_def flag_exit_def Let_def
      split: sum.splits prod.splits option.splits if_splits)

text \<open>When a ping that got as far as its rounds has succeeded.\<close>

definition ping_succeeds :: "'e env \<Rightarrow> (string \<Rightarrow> bytes option \<Rightarrow> bytes option) \<Rightarrow> (target \<Rightarrow> 'e option)
    \<Rightarrow> (nat \<Rightarrow> 'e option \<times> ('e + bytes)) \<Rightarrow> (string \<rightharpoonup> flag_value) \<Rightarrow> disk \<Rightarrow> bool" where
  "ping_succeeds env hs opens outcome fl k \<longleftrightarrow>
     (\<exists>c peer k'. Load (e_read env) (e_decode env) (string_flag fl ''config'') = Inr c
       \<and> ping_conn (e_codec env) (keys_dir env c) (e_random env) (hs (tunnel_addr (string_flag fl ''addr'') c)) k
         = (Inr peer, k')
       \<and> opens echo_target = None
       \<and> echoed (ping_payload (nat (int_flag fl ''size''))) outcome (nat (int_flag fl ''count'')))"

lemma ping_status:
  "exit_status (fst (runPing env hs opens outcome args k)) = Some 0 \<longleftrightarrow>
     flag_parse ping_flags args = Inl HelpRequested \<or>
     (\<exists>fl rest. flag_parse ping_flags args = Inr (fl, rest) \<and> 1 \<le> int_flag fl ''count'' \<and> 1 \<le> int_flag fl ''size''
       \<and> ping_succeeds env hs opens outcome fl k)"
proof (cases "flag_parse ping_flags args")
  case (Inl e)
  then show ?thesis by (auto simp: runPing_def exit_status_def flag_exit_def)
next
  case (Inr r)
  obtain fl rest where r: "r = (fl, rest)" by force
  show ?thesis unfolding Inr r
    by (auto simp: runPing_def Inr r exit_status_def fatal_status_def loadConfig_def ping_succeeds_def Let_def
        ping_rounds_echoed [symmetric] split: sum.splits prod.splits option.splits)
qed

text \<open>C36: What the control tool's success means. toppactl exits with 0 only in three cases: one of its two
  commands is asked for help; \<open>ping\<close> with valid flags, both the count and the size being at least 1,
  loaded a valid configuration, authenticated a peer (with the pin, where there is one), opened its
  stream, and read back exactly its payload in every one of the rounds. \<open>serve\<close> never ends with 0
  otherwise; a missing or another command ends with 2.
\<close>

theorem toppactl_success:
  "fst (toppactl_main (runServe env listen hss accept) (runPing env hs opens outcome) (prog # args) k) = Some 0
   \<longleftrightarrow> args \<noteq> [] \<and>
     (hd args = ''serve'' \<and> flag_parse serve_flags (tl args) = Inl HelpRequested \<or>
      hd args = ''ping'' \<and> flag_parse ping_flags (tl args) = Inl HelpRequested \<or>
      hd args = ''ping'' \<and>
        (\<exists>fl rest. flag_parse ping_flags (tl args) = Inr (fl, rest)
          \<and> 1 \<le> int_flag fl ''count'' \<and> 1 \<le> int_flag fl ''size'' \<and> ping_succeeds env hs opens outcome fl k))"
proof (cases args)
  case (Cons a rest)
  then show ?thesis using serve_status [of env listen hss accept rest k] ping_status [of env hs opens outcome rest k]
    by (auto simp: toppactl_main_def split: prod.splits)
qed (simp add: toppactl_main_def)

end
