(* ===== verification/Vector_Files.thy ===== *)
theory Vector_Files
  imports Vectors Flags Keys
begin

text \<open>
  The vector generator as a program, desktop/cmd/vectorgen/main.go: the cases of theory Vectors,
  put in files. The encoder (encoding/json's \<open>MarshalIndent\<close>) is an argument for each of the three
  kinds of file; the file system is the one of theory Keys.
\<close>

record 'c vector_file =
  vf_Protocol :: string
  vf_Version :: int
  vf_Cases :: "'c list"

definition tlmp_file :: "'c list \<Rightarrow> 'c vector_file" where
  "tlmp_file cs = \<lparr>vf_Protocol = ''TLMP'', vf_Version = 1, vf_Cases = cs\<rparr>"

text \<open>\<open>writeJSON\<close>: the error makes \<open>fatal\<close> end the process, else a newline follows the text.\<close>

definition write_vectors :: "string \<Rightarrow> (string + bytes) \<Rightarrow> disk \<Rightarrow> string option \<times> disk" where
  "write_vectors path marshalled k =
     (case marshalled of
        Inl e \<Rightarrow> (Some e, k)
      | Inr raw \<Rightarrow>
          (let raw = raw @ [0x0A]
           in case write_fault k path of
                Some (e, rest) \<Rightarrow>
                  (Some (''write '' @ path @ '': '' @ e), k\<lparr>files := (files k)(path := rest)\<rparr>)
              | None \<Rightarrow> (None, k\<lparr>files := (files k)(path \<mapsto> raw)\<rparr>)))"

record encoders =
  en_frames :: "frameCase vector_file \<Rightarrow> string + bytes"
  en_targets :: "targetCase vector_file \<Rightarrow> string + bytes"
  en_sas :: "sasCase vector_file \<Rightarrow> string + bytes"

text \<open>
  The three files, each built (\<open>None\<close>: a case could not be made, which is fatal) and then written;
  the first failure ends the process, with what was written before it.
\<close>

fun write_all :: "(string \<times> (string + bytes) option) list \<Rightarrow> disk \<Rightarrow> nat \<times> disk" where
  "write_all [] k = (0, k)"
| "write_all ((path, None) # fs) k = (1, k)"
| "write_all ((path, Some marshalled) # fs) k =
     (case write_vectors path marshalled k of (Some _, k') \<Rightarrow> (1, k') | (None, k') \<Rightarrow> write_all fs k')"

definition vectorgen_main :: "(string list \<Rightarrow> string) \<Rightarrow> encoders \<Rightarrow> string list \<Rightarrow> disk \<Rightarrow> nat \<times> disk" where
  "vectorgen_main join en args k =
     (case flag_parse [''out'' \<mapsto> StringFlag (join [''..'', ''protocol'', ''vectors''])] args of
        Inl e \<Rightarrow> (flag_exit e, k)
      | Inr (fl, _) \<Rightarrow>
          (let dir = string_flag fl ''out''
           in case mkdir_fault k dir of
                Some _ \<Rightarrow> (1, k)
              | None \<Rightarrow>
                  write_all
                    [(join [dir, ''frames.json''], map_option (\<lambda>cs. en_frames en (tlmp_file cs)) buildFrames),
                     (join [dir, ''targets.json''], map_option (\<lambda>cs. en_targets en (tlmp_file cs)) buildTargets),
                     (join [dir, ''sas.json''], Some (en_sas en (tlmp_file buildSAS)))] k))"

lemma write_vectors_ok:
  "write_vectors path m k = (None, k') \<longleftrightarrow>
    (\<exists>raw. m = Inr raw \<and> write_fault k path = None \<and> k' = k\<lparr>files := (files k)(path \<mapsto> raw @ [0x0A])\<rparr>)"
  by (auto simp: write_vectors_def Let_def split: sum.split option.split)

text \<open>
  Where writing all files ends with 0, each was built, encoded and written whole, and no other file
  was touched.
\<close>

lemma write_all_ok:
  assumes "write_all fs k = (0, k')" and "distinct (map fst fs)"
  shows "(\<forall>(path, m)\<in>set fs. \<exists>raw. m = Some (Inr raw) \<and> files k' path = Some (raw @ [0x0A]))
    \<and> (\<forall>path. path \<notin> fst ` set fs \<longrightarrow> files k' path = files k path)"
  using assms
proof (induction fs k rule: write_all.induct)
  case (3 path m fs k)
  obtain e k1 where w: "write_vectors path m k = (e, k1)" by force
  with 3(2) have e: "e = None" and rest: "write_all fs k1 = (0, k')" by (auto split: option.splits)
  from w e obtain raw where m: "m = Inr raw" "k1 = k\<lparr>files := (files k)(path \<mapsto> raw @ [0x0A])\<rparr>"
    by (auto simp: write_vectors_ok)
  from 3(3) have "distinct (map fst fs)" "path \<notin> fst ` set fs" by auto
  with 3(1) w e rest have "(\<forall>(path, m)\<in>set fs. \<exists>raw. m = Some (Inr raw) \<and> files k' path = Some (raw @ [0x0A]))
      \<and> (\<forall>path. path \<notin> fst ` set fs \<longrightarrow> files k' path = files k1 path)" by auto
  with m \<open>path \<notin> fst ` set fs\<close> show ?case by auto
qed auto

text \<open>The generator's exit status 0 means that the three files hold the encodings of the built cases.\<close>

lemma vectorgen_writes:
  assumes "vectorgen_main join en args k = (0, k')"
    and "flag_parse [''out'' \<mapsto> StringFlag (join [''..'', ''protocol'', ''vectors''])] args = Inr (fl, rest)"
    and "distinct (map (\<lambda>n. join [string_flag fl ''out'', n]) [''frames.json'', ''targets.json'', ''sas.json''])"
  shows "\<exists>fr ta x y z. buildFrames = Some fr \<and> buildTargets = Some ta
    \<and> en_frames en (tlmp_file fr) = Inr x \<and> files k' (join [string_flag fl ''out'', ''frames.json'']) = Some (x @ [0x0A])
    \<and> en_targets en (tlmp_file ta) = Inr y \<and> files k' (join [string_flag fl ''out'', ''targets.json'']) = Some (y @ [0x0A])
    \<and> en_sas en (tlmp_file buildSAS) = Inr z \<and> files k' (join [string_flag fl ''out'', ''sas.json'']) = Some (z @ [0x0A])"
proof -
  let ?dir = "string_flag fl ''out''"
  let ?fs = "[(join [?dir, ''frames.json''], map_option (\<lambda>cs. en_frames en (tlmp_file cs)) buildFrames),
    (join [?dir, ''targets.json''], map_option (\<lambda>cs. en_targets en (tlmp_file cs)) buildTargets),
    (join [?dir, ''sas.json''], Some (en_sas en (tlmp_file buildSAS)))]"
  have "write_all ?fs k = (0, k')"
    using assms(1,2) by (auto simp: vectorgen_main_def Let_def split: option.splits)
  moreover have "distinct (map fst ?fs)" using assms(3) by simp
  ultimately have "\<forall>(path, m)\<in>set ?fs. \<exists>raw. m = Some (Inr raw) \<and> files k' path = Some (raw @ [0x0A])"
    using write_all_ok by blast
  then show ?thesis by auto
qed

end
