(* ===== verification/Api_Server.thy ===== *)
theory Api_Server
  imports Control
begin

text \<open>
  The server of the control API as the daemon holds it, desktop/internal/api/server.go: made with the
  configured address, \<open>Listen\<close>, \<open>Close\<close>, and what becomes of a request. Binding is an argument; of
  net/http's server the model has what the code uses: \<open>Serve\<close> answers until \<open>Close\<close>, and after a \<open>Close\<close>
  it returns at once and gives its listener up.
\<close>

record api_server =
  as_addr :: string
  as_serving :: "string option"
  as_shut :: bool

definition NewServer :: "string \<Rightarrow> api_server" where
  "NewServer addr = \<lparr>as_addr = addr, as_serving = None, as_shut = False\<rparr>"

datatype 'e api_err = ApiListen string 'e

text \<open>\<open>bind addr\<close> is the error of \<open>net.Listen\<close>, if any.\<close>

definition Server_Listen :: "(string \<Rightarrow> 'e option) \<Rightarrow> api_server \<Rightarrow> 'e api_err option \<times> api_server" where
  "Server_Listen bind s =
     (case bind (as_addr s) of
        Some e \<Rightarrow> (Some (ApiListen (as_addr s) e), s)
      | None \<Rightarrow> (None, if as_shut s then s else s\<lparr>as_serving := Some (as_addr s)\<rparr>))"

definition Server_Close :: "api_server \<Rightarrow> api_server" where
  "Server_Close s = s\<lparr>as_serving := None, as_shut := True\<rparr>"

text \<open>A request to an address: answered when the server serves it, else refused (\<open>None\<close>).\<close>

definition api_request :: "string \<Rightarrow> (status \<Rightarrow> bytes) \<Rightarrow> string \<Rightarrow> string \<Rightarrow> status \<Rightarrow> api_server \<Rightarrow> control
    \<Rightarrow> http_result option \<times> control" where
  "api_request addr encode meth path st s c =
     (if as_serving s = Some addr then (case serve_request encode meth path st c of (r, c') \<Rightarrow> (Some r, c'))
      else (None, c))"

text \<open>The server a daemon makes, if the API is enabled.\<close>

definition daemon_api :: "Config \<Rightarrow> api_server option" where
  "daemon_api c = (if a_Enabled (c_API c) then Some (NewServer (Listen (c_API c))) else None)"

section \<open>Facts\<close>

text \<open>A server that listens answers at its address; one that was closed answers nowhere, also after \<open>Listen\<close>.\<close>

lemma listening_answers:
  assumes "Server_Listen bind (NewServer addr) = (None, s)"
  shows "api_request addr encode meth path st s c
     = (Some (fst (serve_request encode meth path st c)), snd (serve_request encode meth path st c))"
  using assms by (auto simp: Server_Listen_def NewServer_def api_request_def split: option.splits prod.split)

lemma closed_refuses:
  "api_request addr encode meth path st (snd (Server_Listen bind (Server_Close s))) c = (None, c)"
  by (simp add: api_request_def Server_Listen_def Server_Close_def split: option.split)

text \<open>
  Nothing confines the address to loopback: a configuration that is otherwise the default is valid
  with any address, and this is where the server answers.
\<close>

definition listening_on :: "string \<Rightarrow> Config" where
  "listening_on addr = Default\<lparr>c_API := \<lparr>a_Enabled = True, Listen = addr\<rparr>\<rparr>"

lemma any_api_address:
  "Validate (listening_on addr) = None \<and> daemon_api (listening_on addr) = Some (NewServer addr)
    \<and> fst (api_request addr encode ''POST'' ''/reconnect'' st (snd (Server_Listen (\<lambda>_. None) (NewServer addr))) c)
      = Some (OK_Text ''ok'')"
proof -
  have "Validate (listening_on addr) = Validate Default"
    by (simp add: Validate_def listening_on_def Let_def)
  then show ?thesis
    by (simp add: Default_valid daemon_api_def listening_on_def api_request_def Server_Listen_def NewServer_def
        serve_request_def)
qed

end
