(* ===== verification/Tray.thy ===== *)
theory Tray
  imports Api_Server
begin

text \<open>
  The tray, desktop/cmd/toppa/main.go: a label that a refresh sets every two seconds from the control
  API's /status, and a button that posts to its /reconnect. The widgets are the Fyne library; what
  the program gives them is modelled. The decoder of the answer and the clock format of \<open>Since\<close>
  are arguments.
\<close>

definition apiBase :: string where "apiBase = ''http://127.0.0.1:47474''"

record tray_status =
  ts_State :: string
  ts_Transport :: string
  ts_Since :: int

definition initial_label :: string where "initial_label = ''Status: unknown''"

text \<open>\<open>refresh\<close>: \<open>got\<close> is the outcome of the GET of /status, its error or the body of the answer.\<close>

definition refresh :: "(bytes \<Rightarrow> 'e + tray_status) \<Rightarrow> (int \<Rightarrow> string) \<Rightarrow> ('e + bytes) \<Rightarrow> string" where
  "refresh decode clock got =
     (case got of
        Inl _ \<Rightarrow> ''Status: service unreachable''
      | Inr body \<Rightarrow>
          (case decode body of
             Inl _ \<Rightarrow> ''Status: bad response''
           | Inr s \<Rightarrow> ''Status: '' @ ts_State s @ '' via '' @ ts_Transport s @ '' (since '' @ clock (ts_Since s) @ '')''))"

text \<open>The requests of the two, as the server of the control API sees them.\<close>

definition refresh_url :: string where "refresh_url = apiBase @ ''/status''"

definition reconnect_url :: string where "reconnect_url = apiBase @ ''/reconnect''"

datatype tray_event = Refresh | PressReconnect

definition tray_request :: "tray_event \<Rightarrow> string \<times> string" where
  "tray_request e = (case e of Refresh \<Rightarrow> (''GET'', refresh_url) | PressReconnect \<Rightarrow> (''POST'', reconnect_url))"

text \<open>The path of a URL of the API, as the server's mux sees it.\<close>

definition url_path :: "string \<Rightarrow> string" where
  "url_path url = drop (length apiBase) url"

lemma tray_paths: "url_path refresh_url = ''/status''" "url_path reconnect_url = ''/reconnect''"
  by (simp_all add: url_path_def refresh_url_def reconnect_url_def)

definition served :: "tray_event list \<Rightarrow> (string \<times> string) list" where
  "served es = map (\<lambda>e. (fst (tray_request e), url_path (snd (tray_request e)))) es"

text \<open>
  What the tray can do to the service: pressing the button any number of times, with refreshes
  between, asks for one reconnect, and refreshing alone for none.
\<close>

lemma tray_reconnects:
  assumes "ct_reconnect c \<le> 1"
  shows "serve_requests encode (served es) st c = (if PressReconnect \<in> set es then Reconnect c else c)"
proof -
  have "(''POST'', ''/reconnect'') \<in> set (served es) \<longleftrightarrow> PressReconnect \<in> set es"
  proof -
    have "(''POST'', ''/reconnect'') = (fst (tray_request e), url_path (snd (tray_request e))) \<longleftrightarrow> e = PressReconnect" for e
      by (cases e) (simp_all add: tray_request_def tray_paths)
    then show ?thesis by (auto simp: served_def image_iff)
  qed
  with serve_requests_effect [OF assms] show ?thesis by simp
qed

text \<open>The tray's address is the default one of the configuration, and no other.\<close>

lemma tray_address: "apiBase = ''http://'' @ addr \<longleftrightarrow> addr = Listen (c_API Default)"
  by (auto simp: apiBase_def Default_def)

text \<open>The label tells whether the service answered, and what it answered.\<close>

lemma refresh_label:
  assumes "decode body = Inr \<lparr>ts_State = ''online'', ts_Transport = ''usb'', ts_Since = t\<rparr>"
  shows "refresh decode clock (Inr body) = ''Status: online via usb (since '' @ clock t @ '')''"
    and "refresh decode clock (Inl e) = ''Status: service unreachable''"
  using assms by (simp_all add: refresh_def)

end
