(* ===== verification/Local_DNS.thy ===== *)
theory Local_DNS
  imports Resolver Machine
begin

text \<open>
  The life of the local UDP responder, \<open>LocalDNS\<close> of desktop/internal/resolver/resolver.go: the
  goroutine in \<open>ServeUDP\<close>, from the bind on, and any number of calls of \<open>Close\<close>. Theory Resolver has
  the loop's answers; this is when it starts and ends and what becomes of the socket.
\<close>

section \<open>The state\<close>

text \<open>
  Where \<open>ServeUDP\<close> is: not called; bound, before \<open>l.conn\<close> is set; at the load of \<open>closed\<close>; in
  \<open>ReadFromUDP\<close>; returned, with an error of the bind or without.
\<close>

datatype serve_phase = NotCalled | BoundNotSet | AtLoad | AtReadFrom | ServeReturned bool

datatype socket = NoSocket | SocketOpen | SocketClosed

text \<open>\<open>ld_conn\<close>: \<open>l.conn\<close> is set; \<open>ld_closing\<close>: calls of \<open>Close\<close> between their two statements.\<close>

record local_dns =
  ld_addr :: ip
  ld_phase :: serve_phase
  ld_socket :: socket
  ld_conn :: bool
  ld_closed :: bool
  ld_closing :: nat
  ld_sent :: "bytes list"

definition NewLocalDNS :: "ip \<Rightarrow> local_dns" where
  "NewLocalDNS addr = \<lparr>ld_addr = addr, ld_phase = NotCalled, ld_socket = NoSocket, ld_conn = False,
     ld_closed = False, ld_closing = 0, ld_sent = []\<rparr>"

section \<open>The steps\<close>

definition bind_udp :: "bool \<Rightarrow> local_dns \<Rightarrow> local_dns" where
  "bind_udp ok l =
     (if ok then l\<lparr>ld_phase := BoundNotSet, ld_socket := SocketOpen\<rparr> else l\<lparr>ld_phase := ServeReturned False\<rparr>)"

definition loop_or_return :: "serve_phase \<Rightarrow> local_dns \<Rightarrow> local_dns" where
  "loop_or_return p l = l\<lparr>ld_phase := if ld_closed l then ServeReturned True else p\<rparr>"

text \<open>A datagram of at most 4096 bytes; the answer is sent or its write fails, and the loop goes on.\<close>

definition answer_udp :: "bytes \<Rightarrow> bool \<Rightarrow> local_dns \<Rightarrow> local_dns" where
  "answer_udp b written l =
     (if length b < 12 \<or> \<not> written then l\<lparr>ld_phase := AtLoad\<rparr>
      else l\<lparr>ld_phase := AtLoad, ld_sent := ld_sent l @ [truncatedResponse b]\<rparr>)"

definition close_store :: "local_dns \<Rightarrow> local_dns" where
  "close_store l = l\<lparr>ld_closed := True, ld_closing := ld_closing l + 1\<rparr>"

definition close_conn :: "local_dns \<Rightarrow> local_dns" where
  "close_conn l = l\<lparr>ld_closing := ld_closing l - 1, ld_socket := if ld_conn l then SocketClosed else ld_socket l\<rparr>"

inductive ldns_step :: "local_dns \<Rightarrow> local_dns \<Rightarrow> bool" where
  bind: "ld_phase l = NotCalled \<Longrightarrow> ldns_step l (bind_udp ok l)"
| set_conn: "ld_phase l = BoundNotSet \<Longrightarrow> ldns_step l (l\<lparr>ld_conn := True, ld_phase := AtLoad\<rparr>)"
| load: "ld_phase l = AtLoad \<Longrightarrow> ldns_step l (loop_or_return AtReadFrom l)"
| read_error: "ld_phase l = AtReadFrom \<Longrightarrow> ldns_step l (loop_or_return AtLoad l)"
| datagram: "ld_phase l = AtReadFrom \<Longrightarrow> ld_socket l = SocketOpen \<Longrightarrow> length b \<le> 4096 \<Longrightarrow>
    ldns_step l (answer_udp b written l)"
| close1: "ldns_step l (close_store l)"
| close2: "ld_closing l > 0 \<Longrightarrow> ldns_step l (close_conn l)"

lemmas ldns_defs = bind_udp_def loop_or_return_def answer_udp_def close_store_def close_conn_def

section \<open>The invariant\<close>

text \<open>
  It serves until \<open>Close\<close>: \<open>ServeUDP\<close> has returned without an error only after one; the socket is
  open from the bind until a \<open>Close\<close> that finds \<open>l.conn\<close> set; and every answer sent is the truncated
  response to a datagram of twelve bytes or more.
\<close>

definition ldns_inv :: "local_dns \<Rightarrow> bool" where
  "ldns_inv l \<longleftrightarrow>
     (ld_phase l = ServeReturned True \<longrightarrow> ld_closed l) \<and>
     (ld_phase l \<in> {NotCalled, ServeReturned False} \<longrightarrow> ld_socket l = NoSocket \<and> \<not> ld_conn l) \<and>
     (ld_phase l = BoundNotSet \<longrightarrow> ld_socket l = SocketOpen \<and> \<not> ld_conn l) \<and>
     (ld_phase l \<in> {AtLoad, AtReadFrom, ServeReturned True} \<longrightarrow> ld_conn l \<and> ld_socket l \<noteq> NoSocket) \<and>
     (ld_socket l = SocketClosed \<longrightarrow> ld_closed l) \<and> (ld_closing l > 0 \<longrightarrow> ld_closed l) \<and>
     (\<forall>r\<in>set (ld_sent l). \<exists>b. 12 \<le> length b \<and> length b \<le> 4096 \<and> r = truncatedResponse b)"

lemma ldns_step_inv: "ldns_inv l \<Longrightarrow> ldns_step l l' \<Longrightarrow> ldns_inv l'"
  by (erule ldns_step.cases) (auto simp: ldns_inv_def ldns_defs not_less)

interpretation ldns: machine "\<lambda>l. l = NewLocalDNS addr" ldns_step ldns_inv for addr
proof unfold_locales
  show "ldns_inv l" if "l = NewLocalDNS addr" for l
    using that by (simp add: ldns_inv_def NewLocalDNS_def)
qed (rule ldns_step_inv)

lemma ldns_serves_until_close:
  assumes "ldns_step\<^sup>*\<^sup>* (NewLocalDNS addr) l"
  shows "(ld_phase l = ServeReturned True \<longrightarrow> ld_closed l)
    \<and> (\<forall>r\<in>set (ld_sent l). \<exists>b. 12 \<le> length b \<and> length b \<le> 4096 \<and> r = truncatedResponse b)"
  using ldns.invariant [OF refl assms] by (simp add: ldns_inv_def)

section \<open>The end of the loop\<close>

text \<open>Once the socket is closed no step of the loop stays in it: the next one returns.\<close>

lemma closed_socket_ends_loop:
  assumes "ldns_inv l" and "ld_socket l = SocketClosed" and "ldns_step l l'"
  shows "ld_phase l' = ld_phase l \<or> ld_phase l' = ServeReturned True"
  using assms(3,1,2) by cases (auto simp: ldns_inv_def ldns_defs)

text \<open>
  A \<open>Close\<close> that runs between the bind and the assignment of \<open>l.conn\<close> closes nothing: \<open>ServeUDP\<close>
  returns, every \<open>Close\<close> has returned, and the socket stays bound to port 53.
\<close>

lemma close_races_with_bind:
  "\<exists>l. ldns_step\<^sup>*\<^sup>* (NewLocalDNS addr) l \<and> ld_phase l = ServeReturned True \<and> ld_closing l = 0
    \<and> ld_socket l = SocketOpen"
proof -
  define a where "a = bind_udp True (NewLocalDNS addr)"
  define b where "b = close_conn (close_store a)"
  define c where "c = b\<lparr>ld_conn := True, ld_phase := AtLoad\<rparr>"
  have "ldns_step (NewLocalDNS addr) a" unfolding a_def by (rule bind) (simp add: NewLocalDNS_def)
  moreover have "ldns_step a (close_store a)" by (rule close1)
  moreover have "ldns_step (close_store a) b" unfolding b_def by (rule close2) (simp add: close_store_def)
  moreover have "ldns_step b c" unfolding c_def by (rule set_conn) (simp add: a_def b_def ldns_defs)
  moreover have "ldns_step c (loop_or_return AtReadFrom c)" by (rule load) (simp add: c_def)
  ultimately have "ldns_step\<^sup>*\<^sup>* (NewLocalDNS addr) (loop_or_return AtReadFrom c)"
    by (meson rtranclp.rtrancl_into_rtrancl rtranclp.rtrancl_refl)
  moreover have "ld_phase (loop_or_return AtReadFrom c) = ServeReturned True
      \<and> ld_closing (loop_or_return AtReadFrom c) = 0 \<and> ld_socket (loop_or_return AtReadFrom c) = SocketOpen"
    by (simp add: a_def b_def c_def ldns_defs NewLocalDNS_def)
  ultimately show ?thesis by blast
qed

end
