(* ===== verification/Echo.thy ===== *)
theory Echo
  imports Peers_Properties Ping
begin

text \<open>
  The serving side of the control tool after the handshake, the second half of \<open>handleServeConn\<close>
  (desktop/cmd/toppactl/main.go): the loop of \<open>Accept\<close> and, for every stream it returns, a goroutine
  that copies the stream to itself (\<open>io.Copy\<close>, which reads into one buffer and writes what it read)
  and closes it. The session, its receive loop and the peer are those of theory Peers.
\<close>

section \<open>The programs\<close>

text \<open>
  Where a stream's goroutine is: at \<open>Read\<close>; in \<open>Write\<close>, with what it read and how much of it has been
  framed; at the stream's \<open>Close\<close>; returned.
\<close>

datatype echo = EchoReading | EchoWriting bytes nat | EchoClosing | EchoDone

record server =
  sv_node :: node
  sv_echo :: "nat \<Rightarrow> echo option"
  sv_serving :: bool

definition fresh_server :: "server \<Rightarrow> bool" where
  "fresh_server v \<longleftrightarrow> fresh_node (sv_node v) \<and> sv_echo v = Map.empty \<and> sv_serving v"

definition set_echo :: "nat \<Rightarrow> echo \<Rightarrow> node \<Rightarrow> server \<Rightarrow> server" where
  "set_echo a e n v = v\<lparr>sv_node := n, sv_echo := (sv_echo v)(a \<mapsto> e)\<rparr>"

text \<open>\<open>Accept\<close> and its two outcomes: a goroutine for the stream, or the deferred \<open>Close\<close> of the session.\<close>

definition serve_accepted :: "nat \<Rightarrow> session \<Rightarrow> server \<Rightarrow> server" where
  "serve_accepted a s v = set_echo a EchoReading (advance s (sv_node v)) v"

definition serve_ended :: "session \<Rightarrow> server \<Rightarrow> server" where
  "serve_ended s v = v\<lparr>sv_node := advance (Close s) (advance s (sv_node v)), sv_serving := False\<rparr>"

text \<open>The three calls of a goroutine; a \<open>Write\<close> that waits is tried again.\<close>

definition echo_read :: "nat \<Rightarrow> read_out \<Rightarrow> session \<Rightarrow> server \<Rightarrow> server" where
  "echo_read a r s v =
     (let n = advance s (sv_node v)
      in case r of
           ReadBlock \<Rightarrow> v\<lparr>sv_node := n\<rparr>
         | Stream.ReadErr _ \<Rightarrow> set_echo a EchoClosing n v
         | ReadData xs _ \<Rightarrow>
             set_echo a (EchoWriting xs 0) (n\<lparr>n_got := (n_got n)(a := n_got n a @ xs)\<rparr>) v)"

definition echo_write :: "nat \<Rightarrow> bytes \<Rightarrow> nat \<Rightarrow> round_out \<Rightarrow> session \<Rightarrow> server \<Rightarrow> server" where
  "echo_write a p tot r s v =
     (let n = advance s (sv_node v)
      in case r of
           Continue t \<Rightarrow>
             set_echo a (EchoWriting p t) (n\<lparr>n_wrote := (n_wrote n)(a := n_wrote n a @ take (t - tot) (drop tot p))\<rparr>) v
         | Stop (WriteBlocked _) \<Rightarrow> v\<lparr>sv_node := n\<rparr>
         | Stop _ \<Rightarrow> set_echo a EchoClosing n v)"

text \<open>
  The steps, up to a panic: a goroutine that panics ends the process. The session's timer, the end of
  its connection's bytes and its loss are the session's own.
\<close>

inductive serve_step :: "server \<Rightarrow> server \<Rightarrow> bool" where
  accepted: "sv_serving v \<Longrightarrow> Accept pick (n_ses (sv_node v)) = (Accepted a, s) \<Longrightarrow> serve_step v (serve_accepted a s v)"
| ended: "sv_serving v \<Longrightarrow> Accept pick (n_ses (sv_node v)) = (AcceptErr e, s) \<Longrightarrow> serve_step v (serve_ended s v)"
| reading: "sv_echo v a = Some EchoReading \<Longrightarrow> StreamRead a copyBufferSize (n_ses (sv_node v)) = (r, s) \<Longrightarrow>
    serve_step v (echo_read a r s v)"
| writing: "sv_echo v a = Some (EchoWriting p tot) \<Longrightarrow> tot < length p \<Longrightarrow>
    Write_round a p tot (n_ses (sv_node v)) = (r, s) \<Longrightarrow> \<not> (\<exists>m. r = Stop (WritePanicked m)) \<Longrightarrow>
    serve_step v (echo_write a p tot r s v)"
| written: "sv_echo v a = Some (EchoWriting p (length p)) \<Longrightarrow> serve_step v (set_echo a EchoReading (sv_node v) v)"
| closing: "sv_echo v a = Some EchoClosing \<Longrightarrow>
    serve_step v (set_echo a EchoDone (advance (snd (StreamClose a (n_ses (sv_node v)))) (sv_node v)) v)"
| tick: "0 < KeepAlive (cfg (n_ses (sv_node v))) \<Longrightarrow>
    serve_step v (v\<lparr>sv_node := advance (snd (keepAlive_tick now (n_ses (sv_node v)))) (sv_node v)\<rparr>)"
| read_error: "serve_step v (v\<lparr>sv_node := advance (readLoop_error (n_ses (sv_node v))) (sv_node v)\<rparr>)"
| lost: "n_ses (sv_node v) = s \<Longrightarrow>
    serve_step v (v\<lparr>sv_node := advance (s\<lparr>conn := (conn s)\<lparr>wok := False\<rparr>\<rparr>) (sv_node v)\<rparr>)"

text \<open>The server with its client, which does what it likes, over a connection.\<close>

inductive echo_step :: "node \<times> server \<Rightarrow> node \<times> server \<Rightarrow> bool" where
  client: "node_step x x' \<Longrightarrow> echo_step (x, v) (x', v)"
| server: "serve_step v v' \<Longrightarrow> echo_step (x, v) (x, v')"
| to_server: "n_sent x = n_seen (sv_node v) @ f # rest \<Longrightarrow> n_reading (sv_node v) \<Longrightarrow>
    wellformed (MaxFramePayload (cfg (n_ses (sv_node v)))) f \<Longrightarrow>
    echo_step (x, v) (x, v\<lparr>sv_node := deliver_frame now f (sv_node v)\<rparr>)"
| to_client: "n_sent (sv_node v) = n_seen x @ f # rest \<Longrightarrow> n_reading x \<Longrightarrow>
    wellformed (MaxFramePayload (cfg (n_ses x))) f \<Longrightarrow> echo_step (x, v) (deliver_frame now f x, v)"

section \<open>The accept queue\<close>

text \<open>An operation puts nothing in the accept queue but a stream it has made.\<close>

definition queue_from :: "session \<Rightarrow> session \<Rightarrow> bool" where
  "queue_from s t \<longleftrightarrow> set (acceptCh t) \<subseteq> set (acceptCh s) \<union> {a. length (heap s) \<le> a}"

lemma acceptCh_fields [simp]:
  "acceptCh (removeStream i s) = acceptCh s" "acceptCh (resetStream i s) = acceptCh s"
  "acceptCh (closeWithError c s) = acceptCh s" "acceptCh (abortStream i r s) = acceptCh s"
  "acceptCh (handleFIN i s) = acceptCh s"
  by (simp_all add: removeStream_def resetStream_def closeWithError_def abortStream_def handleFIN_def
      wake_all_def Let_def split: option.split prod.split)

lemma writeFrame_queue: "writeFrame f s = (e, t) \<Longrightarrow> acceptCh t = acceptCh s"
  by (auto dest: writeFrame_connD)

lemma queue_handleSYN: "queue_from s (snd (handleSYN f s))"
  by (auto simp: queue_from_def handleSYN_def Let_def split: sum.split)

lemma queue_handleFrame: "queue_from s (snd (handleFrame f s))"
  using queue_handleSYN [of s f] by (auto simp: queue_from_def handleFrame_def split: option.split prod.split)

lemma queue_readLoop_frame: "queue_from s (snd (readLoop_frame now f s))"
proof -
  obtain e s' where h: "handleFrame f (s\<lparr>lastRecv := now\<rparr>) = (e, s')" by force
  with queue_handleFrame [of "s\<lparr>lastRecv := now\<rparr>" f] show ?thesis
    by (cases e) (simp_all add: readLoop_frame_def queue_from_def)
qed

lemma acceptCh_StreamRead [simp]: "acceptCh (snd (StreamRead a n s)) = acceptCh s"
  by (auto simp: StreamRead_def split: prod.split read_out.split)

lemma acceptCh_Write_round [simp]: "acceptCh (snd (Write_round a p tot s)) = acceptCh s"
  by (auto simp: Write_round_def split: prod.split write_out.split option.split dest!: writeFrame_queue)

lemma acceptCh_StreamClose [simp]: "acceptCh (snd (StreamClose a s)) = acceptCh s"
  by (auto simp: StreamClose_def Let_def split: prod.split option.split)

lemma acceptCh_tick [simp]: "acceptCh (snd (keepAlive_tick now s)) = acceptCh s"
  by (auto simp: keepAlive_tick_def split: prod.split option.split dest!: writeFrame_queue)

section \<open>The invariant\<close>

text \<open>What a goroutine has read and written: everything it has read, but for what it still holds.\<close>

fun echo_ok :: "echo option \<Rightarrow> bytes \<Rightarrow> bytes \<Rightarrow> bool" where
  "echo_ok None g w = (g = [] \<and> w = [])"
| "echo_ok (Some EchoReading) g w = (w = g)"
| "echo_ok (Some (EchoWriting p tot)) g w =
     (tot \<le> length p \<and> length p \<le> copyBufferSize \<and> (\<exists>pre. g = pre @ p \<and> w = pre @ take tot p))"
| "echo_ok (Some _) g w = prefix w g"

fun held :: "echo option \<Rightarrow> bytes" where
  "held (Some (EchoWriting p tot)) = drop tot p"
| "held _ = []"

lemma echo_ok_prefix: "echo_ok e g w \<Longrightarrow> prefix w g"
  by (cases "(e, g, w)" rule: echo_ok.cases) (auto simp: take_is_prefix)

lemma echo_ok_held:
  "echo_ok e g w \<Longrightarrow> e \<notin> {Some EchoClosing, Some EchoDone} \<Longrightarrow> g = w @ held e"
  by (cases "(e, g, w)" rule: echo_ok.cases) auto

definition serve_inv :: "server \<Rightarrow> bool" where
  "serve_inv v \<longleftrightarrow> queue_typed (n_ses (sv_node v)) \<and>
     (\<forall>a\<in>set (acceptCh (n_ses (sv_node v))). sv_echo v a = None) \<and>
     (\<forall>a. sv_echo v a \<noteq> None \<longrightarrow> a < length (heap (n_ses (sv_node v)))) \<and>
     (\<forall>a. echo_ok (sv_echo v a) (n_got (sv_node v) a) (n_wrote (sv_node v) a))"

text \<open>A step of the session alone: the streams' goroutines and the data stay as they are.\<close>

lemma serve_inv_session:
  assumes "serve_inv v" and "keeps_types (n_ses (sv_node v)) s" and "queue_from (n_ses (sv_node v)) s"
  shows "serve_inv (v\<lparr>sv_node := advance s (sv_node v)\<rparr>)"
proof -
  have "sv_echo v a = None" if "a \<in> set (acceptCh s)" for a
  proof -
    from that assms(3) have "a \<in> set (acceptCh (n_ses (sv_node v))) \<or> \<not> a < length (heap (n_ses (sv_node v)))"
      by (auto simp: queue_from_def)
    with assms(1) show ?thesis by (cases "sv_echo v a") (auto simp: serve_inv_def)
  qed
  with assms(1,2) show ?thesis
    by (auto simp: serve_inv_def advance_def keeps_types_def same_ids_def intro: less_le_trans)
qed

text \<open>A step of the goroutine of one stream.\<close>

lemma serve_inv_echo:
  assumes "serve_inv v" and "keeps_types (n_ses (sv_node v)) s"
    and "acceptCh s = acceptCh (n_ses (sv_node v))" and "sv_echo v a \<noteq> None"
    and "echo_ok (Some e) (n_got n a) (n_wrote n a)" and "n_ses n = s"
    and "\<And>b. b \<noteq> a \<Longrightarrow> n_got n b = n_got (sv_node v) b \<and> n_wrote n b = n_wrote (sv_node v) b"
  shows "serve_inv (set_echo a e n v)"
proof -
  have "echo_ok (((sv_echo v)(a \<mapsto> e)) b) (n_got n b) (n_wrote n b)" for b
    using assms(1,5,7) by (cases "b = a") (simp_all add: serve_inv_def)
  moreover have "length (heap (n_ses (sv_node v))) \<le> length (heap s)" "queue_typed s"
    using assms(1,2) by (simp_all add: keeps_types_def same_ids_def serve_inv_def)
  moreover have "a \<notin> set (acceptCh s)" using assms(1,3,4) by (auto simp: serve_inv_def)
  ultimately show ?thesis using assms(1,3,4,6)
    by (auto simp: serve_inv_def set_echo_def intro: less_le_trans)
qed

lemma advance_fields [simp]:
  "n_ses (advance s n) = s" "n_got (advance s n) = n_got n" "n_wrote (advance s n) = n_wrote n"
  "n_reading (advance s n) = n_reading n" "n_seen (advance s n) = n_seen n"
  by (simp_all add: advance_def)

lemma advance_same [simp]:
  "(advance s n)\<lparr>n_got := n_got n\<rparr> = advance s n" "(advance s n)\<lparr>n_wrote := n_wrote n\<rparr> = advance s n"
  by (simp_all add: advance_def)

lemma queue_from_same: "acceptCh t = acceptCh s \<Longrightarrow> queue_from s t"
  by (simp add: queue_from_def)

lemma serve_accepted_inv:
  assumes "serve_inv v" and "Accept pick (n_ses (sv_node v)) = (Accepted a, s)"
  shows "serve_inv (serve_accepted a s v)"
proof -
  from assms(2) obtain q where q: "acceptCh (n_ses (sv_node v)) = a # q" "s = (n_ses (sv_node v))\<lparr>acceptCh := q\<rparr>"
    by (auto simp: Accept_def split: list.splits if_splits)
  have "sv_echo v a = None" "queue_typed (n_ses (sv_node v))" using assms(1) q(1) by (auto simp: serve_inv_def)
  moreover from this(1) have "n_got (sv_node v) a = []" "n_wrote (sv_node v) a = []"
    using assms(1) by (auto simp: serve_inv_def dest: spec [of _ a])
  ultimately show ?thesis using assms(1) q
    by (auto simp: serve_inv_def serve_accepted_def set_echo_def queue_typed_def)
qed

lemma StreamRead_size: "StreamRead a n s = (ReadData xs u, s') \<Longrightarrow> length xs \<le> n"
  by (auto simp: StreamRead_def Read_locked_def Let_def split: if_splits prod.splits read_out.splits)

lemma echo_read_inv:
  assumes "serve_inv v" and "sv_echo v a = Some EchoReading"
    and "StreamRead a copyBufferSize (n_ses (sv_node v)) = (r, s)"
  shows "serve_inv (echo_read a r s v)"
proof -
  have kt: "keeps_types (n_ses (sv_node v)) s" and q: "acceptCh s = acceptCh (n_ses (sv_node v))"
    using assms(3) keeps_types_StreamRead [of "n_ses (sv_node v)" a copyBufferSize]
      acceptCh_StreamRead [of a copyBufferSize "n_ses (sv_node v)"] by simp_all
  have eq: "n_wrote (sv_node v) a = n_got (sv_node v) a"
    using assms(1,2) by (auto simp: serve_inv_def dest: spec [of _ a])
  show ?thesis
  proof (cases r)
    case ReadBlock
    with serve_inv_session [OF assms(1) kt queue_from_same [OF q]] show ?thesis
      by (simp add: echo_read_def Let_def)
  next
    case (ReadErr e)
    with assms(2) eq show ?thesis unfolding echo_read_def
      by (simp add: Let_def) (rule serve_inv_echo [OF assms(1) kt q]; simp)
  next
    case (ReadData xs u)
    then have "length xs \<le> copyBufferSize" using StreamRead_size assms(3) by blast
    with ReadData assms(2) eq show ?thesis unfolding echo_read_def
      by (simp add: Let_def) (rule serve_inv_echo [OF assms(1) kt q]; simp)
  qed
qed

lemma chunk_fits: "uint (w :: u32) < int n - int m \<Longrightarrow> m + unat w \<le> n"
proof -
  have "int (unat w) = uint w" by simp
  then show "uint w < int n - int m \<Longrightarrow> m + unat w \<le> n" by linarith
qed

lemma Write_round_continue:
  "Write_round a p tot s = (Continue t, s') \<Longrightarrow> tot \<le> length p \<Longrightarrow> tot \<le> t \<and> t \<le> length p"
  by (auto simp: Write_round_def Write_locked_def Let_def
      split: prod.splits write_out.splits option.splits if_splits intro: chunk_fits)

lemma echo_write_inv:
  assumes "serve_inv v" and "sv_echo v a = Some (EchoWriting p tot)"
    and "Write_round a p tot (n_ses (sv_node v)) = (r, s)"
  shows "serve_inv (echo_write a p tot r s v)"
proof -
  have kt: "keeps_types (n_ses (sv_node v)) s" and q: "acceptCh s = acceptCh (n_ses (sv_node v))"
    using assms(3) keeps_types_Write_round [of "n_ses (sv_node v)" a p tot]
      acceptCh_Write_round [of a p tot "n_ses (sv_node v)"] by simp_all
  have "echo_ok (sv_echo v a) (n_got (sv_node v) a) (n_wrote (sv_node v) a)"
    using assms(1) by (simp add: serve_inv_def)
  then obtain pre where pre: "tot \<le> length p" "length p \<le> copyBufferSize" "n_got (sv_node v) a = pre @ p" "n_wrote (sv_node v) a = pre @ take tot p"
    using assms(2) by auto
  then have closing: "serve_inv (set_echo a EchoClosing (advance s (sv_node v)) v)"
    using assms(2) by (intro serve_inv_echo [OF assms(1) kt q]) (simp_all add: take_is_prefix)
  show ?thesis
  proof (cases r)
    case (Continue t)
    with Write_round_continue assms(3) pre(1) have t: "tot \<le> t" "t \<le> length p" by blast+
    then have "take tot p @ take (t - tot) (drop tot p) = take t p" by (metis le_add_diff_inverse take_add)
    with t pre assms(2) show ?thesis unfolding echo_write_def Continue
      by (simp add: Let_def) (rule serve_inv_echo [OF assms(1) kt q]; simp)
  next
    case (Stop w)
    with closing serve_inv_session [OF assms(1) kt queue_from_same [OF q]] show ?thesis
      by (cases w) (simp_all add: echo_write_def Let_def)
  qed
qed

lemma serve_step_inv: "serve_step v v' \<Longrightarrow> serve_inv v \<Longrightarrow> serve_inv v'"
proof (induction rule: serve_step.induct)
  case (accepted v pick a s)
  then show ?case by (blast intro: serve_accepted_inv)
next
  case (ended v pick e s)
  then have s: "s = n_ses (sv_node v)" by (auto simp: Accept_def split: list.splits if_splits)
  let ?v = "v\<lparr>sv_node := advance s (sv_node v)\<rparr>"
  have "serve_inv ?v" using serve_inv_session [OF ended(3)] by (simp add: s queue_from_same)
  from serve_inv_session [OF this, of "Close s"]
  have "serve_inv (?v\<lparr>sv_node := advance (Close s) (sv_node ?v)\<rparr>)"
    by (simp add: Close_def keeps_types_closeWithError queue_from_same)
  then show ?case by (simp add: serve_ended_def serve_inv_def)
next
  case (reading v a r s)
  then show ?case by (blast intro: echo_read_inv)
next
  case (writing v a p tot r s)
  then show ?case by (blast intro: echo_write_inv)
next
  case (written v a p)
  then show ?case
    by (intro serve_inv_echo [of v "n_ses (sv_node v)"]) (auto simp: serve_inv_def dest!: spec [of _ a])
next
  case (closing v a)
  have "prefix (n_wrote (sv_node v) a) (n_got (sv_node v) a)"
    using closing(1,2) by (auto simp: serve_inv_def dest!: spec [of _ a])
  with closing(1) show ?case
    by (intro serve_inv_echo [OF closing(2) keeps_types_StreamClose]) simp_all
next
  case (tick v now)
  then show ?case by (intro serve_inv_session keeps_types_tick) (simp_all add: queue_from_same)
next
  case (read_error v)
  then show ?case
    by (intro serve_inv_session) (simp_all add: readLoop_error_def keeps_types_closeWithError queue_from_same)
next
  case (lost v s)
  then show ?case
    by (intro serve_inv_session) (auto simp: queue_from_same intro!: keeps_types_same simp: same_ids_def)
qed

lemma deliver_inv:
  assumes "serve_inv v"
  shows "serve_inv (v\<lparr>sv_node := deliver_frame now f (sv_node v)\<rparr>)"
proof -
  obtain c s where l: "readLoop_frame now f (n_ses (sv_node v)) = (c, s)" by force
  have "serve_inv (v\<lparr>sv_node := advance s (sv_node v)\<rparr>)"
    using serve_inv_session [OF assms, of s] keeps_types_readLoop_frame [of "n_ses (sv_node v)" now f]
      queue_readLoop_frame [of "n_ses (sv_node v)" now f] l by simp
  then show ?thesis by (simp add: serve_inv_def deliver_frame_def l)
qed

section \<open>The server is a peer\<close>

text \<open>Every step of the server is a run of the node it is.\<close>

lemma serve_step_simulates:
  assumes "serve_step v v'" and "serve_inv v"
  shows "node_step\<^sup>*\<^sup>* (sv_node v) (sv_node v')"
  using assms(1)
proof cases
  case (accepted pick a s)
  have "node_step (sv_node v) (advance (snd (Accept pick (n_ses (sv_node v)))) (sv_node v))"
    by (intro do_op op_accept)
  with accepted show ?thesis by (simp add: serve_accepted_def set_echo_def r_into_rtranclp)
next
  case (ended pick e s)
  have "node_step (sv_node v) (advance s (sv_node v))"
    using do_op [OF op_accept [of "n_ses (sv_node v)" pick]] ended(3) by simp
  moreover have "node_step (advance s (sv_node v)) (advance (Close s) (advance s (sv_node v)))"
    by (intro do_op) (simp add: op_close)
  ultimately show ?thesis using ended(1) by (simp add: serve_ended_def)
next
  case (reading a r s)
  have "a < length (heap (n_ses (sv_node v)))" using assms(2) reading(2) by (simp add: serve_inv_def)
  from do_read [OF this reading(3)] reading(1) show ?thesis
    by (cases r) (simp_all add: echo_read_def set_echo_def Let_def r_into_rtranclp fun_upd_idem)
next
  case (writing a p tot r s)
  have "a < length (heap (n_ses (sv_node v)))" using assms(2) writing(2) by (simp add: serve_inv_def)
  moreover have "length p < 2 ^ 32"
    using assms(2) writing(2) by (auto simp: serve_inv_def copyBufferSize_def dest!: spec [of _ a])
  ultimately have "node_step (sv_node v) ((advance s (sv_node v))\<lparr>n_wrote := (n_wrote (sv_node v))(a := n_wrote (sv_node v) a @
      (case r of Continue t \<Rightarrow> take (t - tot) (drop tot p) | Stop _ \<Rightarrow> []))\<rparr>)"
    using writing(3,4) by (intro do_write)
  then show ?thesis unfolding writing(1)
    by (auto simp: echo_write_def set_echo_def Let_def fun_upd_idem intro!: r_into_rtranclp
        split: round_out.splits write_result.splits)
next
  case (closing a)
  have "a < length (heap (n_ses (sv_node v)))" using assms(2) closing(2) by (simp add: serve_inv_def)
  with closing show ?thesis by (simp add: set_echo_def r_into_rtranclp do_op op_close_stream)
qed (auto simp: set_echo_def r_into_rtranclp intro!: do_op op_tick op_read_error op_lost)

lemma echo_step_simulates:
  assumes "echo_step (x, v) (x', v')" and "serve_inv v"
  shows "peers_step\<^sup>*\<^sup>* (x, sv_node v) (x', sv_node v') \<and> serve_inv v'"
  using assms(1)
proof cases
  case client
  with assms(2) show ?thesis by (auto intro: left)
next
  case server
  have "peers_step\<^sup>*\<^sup>* (x, sv_node v) (x, n)" if "node_step\<^sup>*\<^sup>* (sv_node v) n" for n
    using that by (induction rule: rtranclp_induct) (auto intro: rtranclp.rtrancl_into_rtrancl right)
  with server serve_step_simulates [OF server(2) assms(2)] serve_step_inv [OF server(2) assms(2)]
  show ?thesis by simp
next
  case (to_server f rest now)
  then have "peers_step (x, sv_node v) (x', sv_node v')" using to_right by simp
  with deliver_inv [OF assms(2)] to_server show ?thesis by auto
next
  case (to_client f rest now)
  then have "peers_step (x, sv_node v) (x', sv_node v')" using to_left by simp
  with assms(2) to_client show ?thesis by auto
qed

lemma fresh_server_inv: "fresh_server v \<Longrightarrow> serve_inv v"
  using mux_types.inv_init [of "n_ses (sv_node v)"]
  by (auto simp: fresh_server_def fresh_node_def serve_inv_def fresh_session_def New_def Let_def split: if_splits)

definition echo_fresh :: "node \<times> server \<Rightarrow> bool" where
  "echo_fresh p \<longleftrightarrow> fresh_server (snd p) \<and> fresh_peers (fst p, sv_node (snd p))"

text \<open>What a run has reached: a state of two connected sessions, with the goroutines in order.\<close>

definition echo_inv :: "node \<times> server \<Rightarrow> bool" where
  "echo_inv p \<longleftrightarrow> serve_inv (snd p) \<and>
     (\<exists>p0. fresh_peers p0 \<and> peers_step\<^sup>*\<^sup>* p0 (fst p, sv_node (snd p)))"

interpretation echoing: machine echo_fresh echo_step echo_inv
proof unfold_locales
  show "echo_inv p" if "echo_fresh p" for p
    using that by (auto simp: echo_inv_def echo_fresh_def intro: fresh_server_inv)
  show "echo_inv q" if "echo_inv p" and "echo_step p q" for p q
  proof -
    obtain x v x' v' where pq: "p = (x, v)" "q = (x', v')" by (cases p; cases q) auto
    from echo_step_simulates [of x v x' v'] that show ?thesis
      by (auto simp: pq echo_inv_def intro: rtranclp_trans)
  qed
qed

section \<open>Properties\<close>

text \<open>C37: The serving side echoes. For a stream a client has opened and its server has accepted, whatever the
  client does on all of its streams, the two receive loops, the timers, losses of the connection and
  the ends of the goroutines, in any interleaving: what the client has read of the stream is the
  start of what it has written to it; and while the stream is in both tables, both receive loops run
  and its goroutine has not come to its end, nothing is lost on the way round: what the client has
  written is what it has read, then what is buffered at the client, under way to it, held by the
  goroutine, buffered at the server and under way to the server, in this order.\<close>

theorem served_streams_echo:
  assumes "echo_fresh p" and "echo_step\<^sup>*\<^sup>* p (x, v)" and "few_streams (x, sv_node v)"
    and "a < length (heap (n_ses x))" and "sid (heap (n_ses x) ! a) = i"
    and "b < length (heap (n_ses (sv_node v)))" and "sid (heap (n_ses (sv_node v)) ! b) = i"
  shows "prefix (n_got x a) (n_wrote x a)
    \<and> (n_reading x \<and> streams (n_ses x) i = Some a \<and> n_reading (sv_node v) \<and> streams (n_ses (sv_node v)) i = Some b
        \<and> sv_echo v b \<notin> {Some EchoClosing, Some EchoDone} \<longrightarrow>
      n_wrote x a = n_got x a @ buf (heap (n_ses x) ! a)
        @ data_of i (drop (length (n_seen x)) (n_sent (sv_node v))) @ held (sv_echo v b)
        @ buf (heap (n_ses (sv_node v)) ! b) @ data_of i (drop (length (n_seen (sv_node v))) (n_sent x)))"
proof -
  have inv: "echo_inv (x, v)" by (rule echoing.invariant [OF assms(1,2)])
  then obtain p0 where "fresh_peers p0" "peers_step\<^sup>*\<^sup>* p0 (x, sv_node v)" by (auto simp: echo_inv_def)
  then have ok: "peers_ok (x, sv_node v)" using peersm.invariant assms(3) by blast
  then have ok': "peers_ok (sv_node v, x)" using peers_ok_swap by blast
  note there = delivered [OF ok assms(4,6)] and home = delivered [OF ok' assms(6,4)]
  have echo: "echo_ok (sv_echo v b) (n_got (sv_node v) b) (n_wrote (sv_node v) b)"
    using inv by (simp add: echo_inv_def serve_inv_def)
  from there home assms(5,7) echo_ok_prefix [OF echo] have "prefix (n_got x a) (n_wrote x a)"
    by (auto intro: prefix_order.trans)
  with there home assms(5,7) echo_ok_held [OF echo] show ?thesis by auto
qed

text \<open>The server accepts the stream its client has opened and written to.\<close>

definition demo_server :: server where
  "demo_server = \<lparr>sv_node = demo_responder, sv_echo = Map.empty, sv_serving = True\<rparr>"

definition demo_served :: server where
  "demo_served = serve_accepted 0 ((n_ses demo_y)\<lparr>acceptCh := []\<rparr>) (demo_server\<lparr>sv_node := demo_y\<rparr>)"

lemma demo_served_run: "echo_step\<^sup>*\<^sup>* (demo_opener, demo_server) (demo_x, demo_served)"
proof -
  have "echo_step\<^sup>*\<^sup>* (demo_opener, demo_server) (demo_x, demo_server)"
    using demo_x_nodes by (meson client converse_rtranclp_into_rtranclp rtranclp.rtrancl_refl)
  also have "echo_step (demo_x, demo_server) (demo_x, demo_server\<lparr>sv_node := demo_y1\<rparr>)"
    using to_server [of demo_x demo_server demo_syn1 "[demo_data1]" 5] demo_deliverable(1-3)
    by (simp add: demo_server_def demo_deliver1)
  also have "echo_step (demo_x, demo_server\<lparr>sv_node := demo_y1\<rparr>) (demo_x, demo_server\<lparr>sv_node := demo_y\<rparr>)"
    using to_server [of demo_x "demo_server\<lparr>sv_node := demo_y1\<rparr>" demo_data1 "[]" 6] demo_deliverable(4-6)
    by (simp add: demo_server_def demo_deliver2)
  also have "Accept True (n_ses demo_y) = (Accepted 0, (n_ses demo_y)\<lparr>acceptCh := []\<rparr>)"
    by (simp add: Accept_def demo_y_def resp_session2_def)
  then have "serve_step (demo_server\<lparr>sv_node := demo_y\<rparr>) demo_served"
    unfolding demo_served_def by (intro accepted) (simp_all add: demo_server_def)
  then have "echo_step (demo_x, demo_server\<lparr>sv_node := demo_y\<rparr>) (demo_x, demo_served)" by (rule server)
  finally show ?thesis .
qed

theorem served_streams_echo_witness:
  "prefix (n_got demo_x 0) (n_wrote demo_x 0)
   \<and> n_wrote demo_x 0 = n_got demo_x 0 @ buf (heap (n_ses (sv_node demo_served)) ! 0)"
proof -
  have fresh: "echo_fresh (demo_opener, demo_server)"
    using demo_peers_fresh by (simp add: echo_fresh_def fresh_server_def demo_server_def fresh_peers_def)
  have few: "few_streams (demo_x, sv_node demo_served)"
    by (simp add: few_streams_def demo_served_def serve_accepted_def set_echo_def demo_x_def opener_session2_def
        demo_y_def resp_session2_def)
  show ?thesis
    using served_streams_echo [OF fresh demo_served_run few, of 0 1 0]
    by (simp add: demo_served_def serve_accepted_def set_echo_def demo_server_def demo_x_def demo_opener_def
        opener_session2_def demo_y_def resp_session2_def newStream_def demo_responder_def advance_def
        new_frames_def demo_session_eq)
qed

end
