(* ===== verification/Journal_Ids.thy ===== *)
theory Journal_Ids
  imports Journal Go_Strings
begin

text \<open>
  The ids of journal entries, \<open>newID\<close> of desktop/internal/failsafe/journal.go: eight random bytes in
  hexadecimal, or the clock in nanoseconds when the random source fails.
\<close>

definition hex_byte :: "byte \<Rightarrow> string" where
  "hex_byte b = [hex_digit (unat b div 16), hex_digit (unat b mod 16)]"

definition newID :: "bytes option \<Rightarrow> int \<Rightarrow> string" where
  "newID rnd nanos =
     (case rnd of
        None \<Rightarrow> Itoa nanos
      | Some b \<Rightarrow> concat (map hex_byte b))"

text \<open>Different random bytes give different ids, so that ids collide only as the random source does.\<close>

lemma hex_digit_inj: "m < 16 \<Longrightarrow> n < 16 \<Longrightarrow> hex_digit m = hex_digit n \<Longrightarrow> m = n"
proof -
  assume mn: "m < 16" "n < 16" and eq: "hex_digit m = hex_digit n"
  have "distinct ''0123456789abcdef''" "length ''0123456789abcdef'' = 16" by simp_all
  with mn eq show "m = n" unfolding hex_digit_def by (metis nth_eq_iff_index_eq)
qed

lemma hex_byte_inj: "hex_byte a = hex_byte b \<Longrightarrow> a = b"
proof -
  assume eq: "hex_byte a = hex_byte b"
  have lt: "unat x div 16 < 16" "unat x mod 16 < 16" for x :: byte
    using unsigned_less [of x, where ?'a = nat] by simp_all
  from eq lt have "unat a div 16 = unat b div 16" "unat a mod 16 = unat b mod 16"
    by (auto simp: hex_byte_def intro: hex_digit_inj)
  then have "unat a = unat b" by (metis div_mult_mod_eq)
  then show "a = b" by (simp only: word_unat_eq_iff)
qed

lemma newID_random_inj: "length a = length b \<Longrightarrow> newID (Some a) m = newID (Some b) n \<Longrightarrow> a = b"
proof (induction a b rule: list_induct2)
  case (Cons x xs y ys)
  then have "hex_byte x = hex_byte y" "concat (map hex_byte xs) = concat (map hex_byte ys)"
    by (simp_all add: newID_def hex_byte_def)
  with Cons.IH show ?case by (auto simp: newID_def dest: hex_byte_inj)
qed simp

lemma newID_length: "length (newID (Some b) n) = 2 * length b"
  by (induction b) (simp_all add: newID_def hex_byte_def)

end
