(* ===== verification/Keep_Alive.thy ===== *)
theory Keep_Alive
  imports Session_Properties
begin

text \<open>
  The keep-alive of a session over time, \<open>keepAliveLoop\<close> of desktop/internal/mux/session.go: the
  goroutine that selects between the end of the session and its ticker. Theory Session has what one
  tick does; this is the loop, and how long a peer that has gone silent stays unnoticed.
\<close>

text \<open>
  What the loop meets: the channel \<open>done\<close> was chosen, a tick at a time, or, between two selects,
  anything the rest of the session does.
\<close>

datatype ka_event = DoneChosen | Ticked int | Meanwhile "session \<Rightarrow> session"

text \<open>The flag says whether the loop has returned.\<close>

fun keepAliveLoop :: "ka_event list \<Rightarrow> session \<Rightarrow> bool \<times> session" where
  "keepAliveLoop [] s = (False, s)"
| "keepAliveLoop (DoneChosen # es) s = (if done_ch s then (True, s) else keepAliveLoop es s)"
| "keepAliveLoop (Ticked now # es) s =
     (case keepAlive_tick now s of (goes_on, s') \<Rightarrow> if goes_on then keepAliveLoop es s' else (True, s'))"
| "keepAliveLoop (Meanwhile f # es) s = keepAliveLoop es (f s)"

lemma keepAliveLoop_append:
  "keepAliveLoop (es @ fs) s =
    (case keepAliveLoop es s of (returned, t) \<Rightarrow> if returned then (True, t) else keepAliveLoop fs t)"
  by (induction es s rule: keepAliveLoop.induct) (auto split: prod.splits)

definition ping_frame :: "int \<Rightarrow> frame" where
  "ping_frame now = mk_frame FlagPING 0 (put_u64le (word_of_int now))"

definition pinged :: "int list \<Rightarrow> session \<Rightarrow> session" where
  "pinged ts s = s\<lparr>conn := (conn s)\<lparr>wbytes := wbytes (conn s) @ concat (map (encode_frame \<circ> ping_frame) ts)\<rparr>\<rparr>"

lemma pinged_fields [simp]:
  "closed (pinged ts s) = closed s" "wok (conn (pinged ts s)) = wok (conn s)" "cfg (pinged ts s) = cfg s"
  "lastRecv (pinged ts s) = lastRecv s"
  by (simp_all add: pinged_def)

lemma length_put_u64le [simp]: "length (put_u64le v) = 8"
  by (simp add: put_u64le_def)

text \<open>A tick in time sends one PING.\<close>

lemma tick_pings:
  assumes "\<not> closed s" and "wok (conn s)" and "8 \<le> unat (MaxFramePayload (cfg s))"
    and "now - lastRecv s \<le> PingTimeout (cfg s)"
  shows "keepAlive_tick now s = (True, pinged [now] s)"
  using assms by (simp add: keepAlive_tick_def writeFrame_ok pinged_def ping_frame_def)

lemma ticks_ping:
  assumes "\<not> closed s" and "wok (conn s)" and "8 \<le> unat (MaxFramePayload (cfg s))"
    and "\<forall>t\<in>set ts. t - lastRecv s \<le> PingTimeout (cfg s)"
  shows "keepAliveLoop (map Ticked ts) s = (False, pinged ts s)"
  using assms
proof (induction ts arbitrary: s)
  case Nil
  then show ?case by (simp add: pinged_def)
next
  case (Cons t ts)
  have "pinged ts (pinged [t] s) = pinged (t # ts) s" by (simp add: pinged_def)
  with Cons.IH [of "pinged [t] s"] Cons.prems tick_pings [of s t] show ?case by simp
qed

text \<open>The ticks of a ticker that first fires \<open>d\<close> after the last frame was received.\<close>

definition tick_times :: "int \<Rightarrow> nat \<Rightarrow> session \<Rightarrow> int list" where
  "tick_times d n s = map (\<lambda>j. lastRecv s + d + int j * KeepAlive (cfg s)) [0..<n]"

lemma tick_times_Suc:
  "tick_times d (Suc n) s = tick_times d n s @ [lastRecv s + d + int n * KeepAlive (cfg s)]"
  by (simp add: tick_times_def)

lemma tick_times_bound:
  assumes "t \<in> set (tick_times d n s)" and "0 \<le> KeepAlive (cfg s)"
  shows "t - lastRecv s \<le> d + (int n - 1) * KeepAlive (cfg s)"
proof -
  from assms(1) obtain j where j: "j < n" "t = lastRecv s + d + int j * KeepAlive (cfg s)"
    by (auto simp: tick_times_def)
  have "int j * KeepAlive (cfg s) \<le> (int n - 1) * KeepAlive (cfg s)"
    using j(1) assms(2) by (intro mult_right_mono) auto
  with j(2) show ?thesis by simp
qed

text \<open>The first tick later than the timeout.\<close>

lemma first_late:
  assumes "0 < (ka :: int)" and "d \<le> ka" and "0 \<le> timeout"
  shows "\<exists>n. timeout < d + int n * ka \<and> d + int n * ka \<le> timeout + ka \<and> (0 < n \<longrightarrow> d + (int n - 1) * ka \<le> timeout)"
proof (cases "d \<le> timeout")
  case True
  define q where "q = (timeout - d) div ka"
  define r where "r = (timeout - d) mod ka"
  have split: "q * ka + r = timeout - d" unfolding q_def r_def by (rule div_mult_mod_eq)
  have r: "0 \<le> r" "r < ka" unfolding r_def using assms(1) by simp_all
  have "0 \<le> q" unfolding q_def using True assms(1) by (simp add: pos_imp_zdiv_nonneg_iff)
  moreover have "(q + 1) * ka = q * ka + ka" by (simp add: algebra_simps)
  ultimately have n: "int (nat (q + 1)) = q + 1" "timeout < d + (q + 1) * ka"
    "d + (q + 1) * ka \<le> timeout + ka" "d + q * ka \<le> timeout"
    using split r by linarith+
  show ?thesis by (rule exI [of _ "nat (q + 1)"]) (use n in simp)
next
  case False
  with assms show ?thesis by (intro exI [of _ 0]) auto
qed

text \<open>C11: A peer that has gone silent is found out in time. Take any reachable session that is open, whose
  connection takes writes and whose frame limit lets a PING through, with the ticker running, and
  let nothing be received any more. Then the loop sends one PING for every tick up to the timeout,
  and returns with the session closed at a tick later than the timeout by at most one interval.\<close>

theorem silent_peer_found:
  assumes "fresh_session s0" and "session_step\<^sup>*\<^sup>* s0 s" and "\<not> closed s" and "wok (conn s)"
    and "8 \<le> unat (MaxFramePayload (cfg s))" and "0 \<le> PingTimeout (cfg s)"
    and "0 < KeepAlive (cfg s)" and "d \<le> KeepAlive (cfg s)"
  shows "\<exists>n t. keepAliveLoop (map Ticked (tick_times d n s)) s = (False, pinged (tick_times d n s) s)
    \<and> keepAliveLoop (map Ticked (tick_times d (Suc n) s)) s = (True, t) \<and> closed t
    \<and> PingTimeout (cfg s) < d + int n * KeepAlive (cfg s)
    \<and> d + int n * KeepAlive (cfg s) \<le> PingTimeout (cfg s) + KeepAlive (cfg s)"
proof -
  obtain n where n: "PingTimeout (cfg s) < d + int n * KeepAlive (cfg s)"
    "d + int n * KeepAlive (cfg s) \<le> PingTimeout (cfg s) + KeepAlive (cfg s)"
    "0 < n \<longrightarrow> d + (int n - 1) * KeepAlive (cfg s) \<le> PingTimeout (cfg s)"
    using first_late [OF assms(7,8,6)] by blast
  have "t - lastRecv s \<le> PingTimeout (cfg s)" if "t \<in> set (tick_times d n s)" for t
    using tick_times_bound [OF that] assms(7) n(3) that by (cases n) (auto simp: tick_times_def)
  then have early: "keepAliveLoop (map Ticked (tick_times d n s)) s = (False, pinged (tick_times d n s) s)"
    using ticks_ping [OF assms(3-5)] by blast
  let ?u = "pinged (tick_times d n s) s"
  have late: "keepAliveLoop (map Ticked (tick_times d (Suc n) s)) s = (True, closeWithError True ?u)"
    using n(1) early by (simp add: tick_times_Suc keepAliveLoop_append keepAlive_tick_def)
  have "sess_inv s" using mux.invariant [OF assms(1,2)] by simp
  then have "\<not> closeOnce ?u" using assms(3) by (simp add: sess_inv_def life_ok_def pinged_def)
  then have "closed (closeWithError True ?u)" by (simp add: closeWithError_def Let_def wake_all_def)
  with early late n(1,2) show ?thesis by blast
qed

definition ka_config :: config where
  "ka_config = demo_config\<lparr>KeepAlive := 15 * 10 ^ 9, PingTimeout := 45 * 10 ^ 9\<rparr>"

definition ka_session :: session where
  "ka_session = the (New \<lparr>wbytes = [], wok = True\<rparr> ka_config 0)"

lemma ka_session_eq:
  "ka_session = \<lparr>conn = \<lparr>wbytes = [], wok = True\<rparr>, cfg = ka_config, heap = [], streams = Map.empty, nextID = 1,
     acceptCh = [], closed = False, closeOnce = False, done_ch = False, lastRecv = 0\<rparr>"
  by (simp add: ka_session_def New_def withDefaults_def ka_config_def demo_config_def Let_def)

lemma ka_session_fresh: "fresh_session ka_session"
  unfolding fresh_session_def
  by (rule exI [of _ "\<lparr>wbytes = [], wok = True\<rparr>"], rule exI [of _ ka_config], rule exI [of _ 0])
    (simp add: ka_session_def New_def ka_config_def demo_config_def withDefaults_def Let_def)

text \<open>With a tick every 15 seconds and a timeout of 45, the fourth tick closes the session.\<close>

theorem silent_peer_found_witness:
  "\<exists>t. keepAliveLoop (map Ticked (tick_times (15 * 10 ^ 9) 4 ka_session)) ka_session = (True, t) \<and> closed t"
proof -
  have "\<exists>n t. keepAliveLoop (map Ticked (tick_times (15 * 10 ^ 9) (Suc n) ka_session)) ka_session = (True, t) \<and> closed t
      \<and> PingTimeout (cfg ka_session) < 15 * 10 ^ 9 + int n * KeepAlive (cfg ka_session)
      \<and> 15 * 10 ^ 9 + int n * KeepAlive (cfg ka_session) \<le> PingTimeout (cfg ka_session) + KeepAlive (cfg ka_session)"
    using silent_peer_found [OF ka_session_fresh rtranclp.rtrancl_refl, of "15 * 10 ^ 9"]
    by (auto simp: ka_session_eq ka_config_def demo_config_def)
  then obtain n t where nt:
    "keepAliveLoop (map Ticked (tick_times (15 * 10 ^ 9) (Suc n) ka_session)) ka_session = (True, t)" "closed t"
    "45 < 15 + int n * 15" "15 + int n * 15 \<le> 60"
    by (auto simp: ka_session_eq ka_config_def demo_config_def)
  from nt(3,4) have "Suc n = 4" by linarith
  with nt(1,2) show ?thesis by auto
qed

end
