(* ===== verification/Spec2Isabelle.thy ===== *)
theory Spec2Isabelle
  imports Flow_Properties Stream_Properties Peers_Credit Tunnel_Properties Rollback_Properties
    Relay_Properties Flow_Conn Resolver_Properties Vector_Properties Daemon_Properties Transport
    Ping_Properties Netstack_Properties Service Teardown Commands Vector_Files Tray Local_DNS Echo Journal_Ids
    Keep_Alive
begin

text \<open>
  A model of the desktop side of toppa (the Go module under desktop/), which sends a PC's traffic to
  a phone: a virtual adapter and a user-space TCP/IP stack end every flow on the PC, a dialer opens
  a stream for it on a multiplexed session, the session runs over an authenticated and encrypted
  connection to the phone, and a daemon brings all of it up, changes the routes and the name
  servers of the system, and takes everything back.

  The parts, from the bottom up, with the theories that model them and what their lemmas show.

  Connections (Prelude, Byte_IO). Machine integers are words, bytes are \<open>8 word\<close> lists. A connection
  to read from is a function of the buffer's length and the connection's state, so that a law about
  any reader holds for every way the transport cuts the bytes; the locale \<open>byte_reader\<close> states what a
  well-behaved one promises (at most the bytes asked for, in order, an error only at the end) and
  \<open>byte_writer\<close> what a connection to write to does. Both are interpreted twice, on the connection
  itself and on the record layer over it, which is how the codecs' lemmas reach the tunnel. A full read that would loop
  for ever has the value \<open>None\<close>. A write of a connection either takes all of its bytes or fails.

  State machines (Machine). The locale \<open>machine\<close> is the argument that an invariant of the steps holds
  of every reachable state, \<open>draining_machine\<close> extends it with a rank and gives runs to a goal. They
  are interpreted on the session (its state and the types of its streams), its end at the grain of
  its locks, two connected sessions, the link between two ends of a stream, the ping over two such
  links, a client and the echo server, the journal, the loopback device, the pump, the local DNS responder, the run loop and the
  teardown of a connection.

  The multiplexer, internal/mux. Frame (frame.go) and Target_Block (target.go) are the codecs;
  Stream (stream.go) has one function per critical section of a stream and Session (session.go) the
  table of streams with \<open>Open\<close>, \<open>Accept\<close>, \<open>readLoop\<close>, \<open>Close\<close> and the keep-alive. Waiting on a
  condition variable is an outcome. \<open>session_step\<close> interleaves all of it; Session_Steps,
  Session_Facts, Session_Inv and Session_Behaviour hold its invariants, Flow the link made of a
  writing and a reading stream with what is on its way between them. Mux_Properties,
  Session_Properties, Stream_Properties and Flow_Properties show: round trips and independence of
  the chunking for both codecs; bounds on every buffer and queue; that what a session has written
  decodes to the frames it meant; that the receive loop is the handling of the frames one by one
  and always ends closed; that windows are conserved, streams deliver what was written in order,
  and no window deadlock exists. Session_Typing shows what a stream pointer denotes for ever.
  Keep_Alive is the keep-alive loop over time: a peer that has gone silent is found out at a tick
  later than the timeout by at most one interval.

  Two sessions. Peers is two sessions connected by two byte streams, with the history of what the
  program wrote to and read from every stream; Peers_Effects, Peers_Inv and Peers_Steps hold its
  invariants. Peers_Properties shows that a stream delivers at one end what was written at the
  other, whatever both programs do; Peers_Window bounds every stream's window and what is under way,
  and Peers_Credit shows that they add up, no credit being lost while both can write, and that the
  ends of a conforming pair never refuse each other's frames. Shutdown
  has \<open>writeFrame\<close> and \<open>closeWithError\<close> as programs that share the session's locks, which the other
  theories take for one step each: when a close can finish and when it cannot.

  The vectors. Vectors and Vector_Properties (cmd/vectorgen) compare the decoder
  with the protocol's verdict on every complete frame, and the model's encodings with the golden
  vectors committed in protocol/vectors; Vector_Files is the generator's \<open>main\<close>.

  The tunnel, internal/tunnel. Handshake (handshake.go) is the message flow of both roles over the
  Noise library, whose state machine is a parameter with the law \<open>xx_exchange\<close>; Record_Layer
  (secure.go) is \<open>Read\<close> and \<open>Write\<close> over two ciphers, parameters with the laws \<open>aead_laws\<close>. Crypto
  writes out SHA-256 and X25519 of the standard library. Tunnel_Properties shows agreement of two
  honest ends, what the pin check does and does not establish, termination over every byte stream,
  the round trip of the record layer, and frames carried over it (the two components composed).

  The system's state, internal/failsafe and internal/sysroute. Journal (journal.go) is the list of
  mutations and its file, which is absent, whole or torn (Journal_Ids has the ids it draws); each write may fail and a crash may come
  between operations. Sysroute (manager.go) is the manager over any configurer and the netsh
  configurer over any execution of commands. Rollback_Properties shows durability, that each
  mutation made is journaled with its undo, and that a rollback runs the undos once, last first.

  The relay, internal/relay: Relay (dialer.go, pacing.go), with Relay_Properties on what a dial
  sends and on the rewriting of HTTP heads however they are cut into writes. The resolver,
  internal/resolver: Resolver (resolver.go), over any upstream and HTTP client, with
  Resolver_Properties on the answers over UDP and TCP, and Local_DNS on the life of the UDP
  responder. Flow_Conn has the flow as a connection
  (StreamConn) with the addresses it reports. Host_Port is net's splitting and joining of host and
  port; Doh_Dial (http_util.go and the dial function of daemon.go) joins the resolver to the dialer
  and shows which servers can be asked at all.

  The network's edge, internal/adapter and internal/netstack: Adapter has the loopback device as
  concurrent steps (no lost wake-up, everything written is read, when closing panics) and the
  Wintun device on the driver's answers; Netstack (engine.go, link.go, reader.go) has the read loop,
  the link's writes, the handlers of TCP and UDP flows, the pump, and the calls Start and Stop make. Netstack_Properties composes
  link, loopback and read loop, and the flow handler with the dialer and the session. The stack is
  the gVisor library: what the code uses of it is the record \<open>gvisor\<close> with the law \<open>gvisor_ok\<close>, and
  the requests it makes are arguments.

  The daemon, internal/daemon, internal/config and internal/obfuscation: Config, Obfuscation and
  Daemon (one connection from the choice of the transport to the teardown, and the loop of
  reconnects) with Daemon_Properties: release of everything acquired, what is left in the journal,
  the schedule of the reconnects, what a validated configuration means to the session. Control has
  the routes of the control API (internal/api) and the reconnect channel, Api_Server the server's
  life, Tray the requests and the label of the
  tray (cmd/toppa). Teardown composes the deferred calls of a connection with the injector's
  goroutine and the session's locks. Service is the service's \<open>main\<close> (cmd/toppasvc): what it leaves
  behind when it stops. Transport (internal/transport) is what
  a connection runs and dials to reach the phone. Keys has the key store (internal/keys) and the
  pinning on first use of both sides of the control tool (cmd/toppactl); Ping and Ping_Properties
  are the rounds of its ping against its serving side, two programs on the two directions of a
  stream, with what they can measure and when they hang. Flags is Go's package flag and its
  integers; Commands has the tool's commands from the command line to the exit status, and Echo the streams
  its serving side serves, as goroutines on one of two connected sessions: what the client reads is
  what it wrote.

  Errors are values of sums or options, with a constructor for every error the code distinguishes.
  Recursion is structural or has a termination proof; there is no fuel except the lists of events
  that stand for what the outside does (ticks, reads, turns of a loop), over which the properties
  quantify. Go_Strings has what several parts use of Go's strings, strconv, fmt and net packages.

  Simplifications. \<open>handleSYN\<close> and \<open>Open\<close> of a session are single steps, and so is \<open>closeWithError\<close>
  except in Shutdown and Teardown; the receive loop is the only reader of the session's connection
  and one read loop reads a device, as in the code; the clock, the log and file modes are left out;
  lower case is that of ASCII letters; the decoded content stands for the JSON text of a file. The
  SAS vectors of protocol/vectors are not compared, since SHA-256 is too slow for evaluation in the
  kernel.

  Not modelled: sockets, processes and the gVisor stack themselves, the widgets of the tray, the
  printing of the tools and the times ping measures; the Android client, written in another
  language.
\<close>

end
